(* ===== verification/Prelude.thy ===== *)
theory Prelude
  imports Main "HOL-Library.Word"
begin

text \<open>
  Shared vocabulary of the development: Go's 64-bit integers (as \<open>int\<close> with the wrap-around
  written out), slices indexed by a Go \<open>int\<close> that may be negative or out of range, the
  development's fact collections, and the locales for stateful components (a step function with
  an invariant, and a quantity that every step leaves alone).
\<close>

section \<open>Fact collections\<close>

named_theorems pool_simps \<open>unfolding rules of the key pool's operations\<close>
named_theorems pool_inv \<open>every pool operation keeps the pool's invariant\<close>
named_theorems pool_frame \<open>what a pool operation leaves unchanged\<close>
named_theorems world_frame \<open>what a step of a request leaves unchanged in the world\<close>

section \<open>Go's int and int64\<close>

text \<open>
  Go's \<open>int\<close> is 64 bits wide on every platform the image is built for, so \<open>int\<close> and
  \<open>int64\<close> share one model: an \<open>int\<close> in range, and \<open>wrap64\<close> after every operation of the
  source that could leave the range.
\<close>

abbreviation MaxInt64 :: int where
  "MaxInt64 \<equiv> 9223372036854775807"

abbreviation MinInt64 :: int where
  "MinInt64 \<equiv> - 9223372036854775808"

definition in64 :: "int \<Rightarrow> bool" where
  "in64 x \<longleftrightarrow> MinInt64 \<le> x \<and> x \<le> MaxInt64"

definition wrap64 :: "int \<Rightarrow> int" where
  "wrap64 x = (x + 9223372036854775808) mod 18446744073709551616 - 9223372036854775808"

lemma wrap64_id [simp]: "MinInt64 \<le> x \<Longrightarrow> x \<le> MaxInt64 \<Longrightarrow> wrap64 x = x"
  by (simp add: wrap64_def)

lemma wrap64_bounds: "MinInt64 \<le> wrap64 x" "wrap64 x \<le> MaxInt64"
proof -
  have "0 \<le> (x + 9223372036854775808) mod 18446744073709551616"
    "(x + 9223372036854775808) mod 18446744073709551616 < (18446744073709551616::int)"
    by simp_all
  then show "MinInt64 \<le> wrap64 x" "wrap64 x \<le> MaxInt64"
    by (simp_all add: wrap64_def)
qed

lemma in64_wrap64 [simp]: "in64 (wrap64 x)"
  by (simp add: in64_def wrap64_bounds)

lemma wrap64_in64 [simp]: "in64 x \<Longrightarrow> wrap64 x = x"
  by (simp add: in64_def)

text \<open>The wrap-around is the one of two's complement words of 64 bits.\<close>

lemma wrap64_word: "wrap64 x = sint (word_of_int x :: 64 word)"
  by (simp add: wrap64_def sint_uint signed_take_bit_eq_take_bit_shift take_bit_eq_mod
      uint_word_of_int mod_simps)

section \<open>Slices\<close>

text \<open>\<open>ix_ok i xs\<close>: the Go expression \<open>xs[i]\<close> does not panic.\<close>

definition ix_ok :: "int \<Rightarrow> 'a list \<Rightarrow> bool" where
  "ix_ok i xs \<longleftrightarrow> 0 \<le> i \<and> i < int (length xs)"

lemma ix_ok_nat [dest]: "ix_ok i xs \<Longrightarrow> nat i < length xs"
  by (auto simp: ix_ok_def)

lemma ix_ok_int [simp]: "ix_ok (int k) xs \<longleftrightarrow> k < length xs"
  by (simp add: ix_ok_def)

lemma ix_ok_length: "length xs = length ys \<Longrightarrow> ix_ok i xs \<longleftrightarrow> ix_ok i ys"
  by (simp add: ix_ok_def)

lemma list_all_update:
  "list_all P xs \<Longrightarrow> P x \<Longrightarrow> list_all P (xs[i := x])"
  by (induction xs arbitrary: i) (auto split: nat.splits)

lemma list_all_nth_iff: "list_all P xs \<longleftrightarrow> (\<forall>i<length xs. P (xs ! i))"
  by (simp add: list_all_length)

lemma list_all_map2_update:
  "list_all2 P xs ys \<Longrightarrow> P x y \<Longrightarrow> list_all2 P (xs[i := x]) (ys[i := y])"
  by (rule list_all2_update_cong)

section \<open>Stateful components\<close>

text \<open>
  A component is a state and a step function over its operations. \<open>stateful\<close> is the contract
  "every operation keeps the invariant"; its run over any sequence of operations then keeps it.
  \<open>framed\<close> adds a part of the state that no operation writes.
\<close>

definition run_ops :: "('s \<Rightarrow> 'op \<Rightarrow> 's) \<Rightarrow> 'op list \<Rightarrow> 's \<Rightarrow> 's" where
  "run_ops step ops s = foldl step s ops"

lemma run_ops_Nil [simp]: "run_ops step [] s = s"
  by (simp add: run_ops_def)

lemma run_ops_Cons [simp]: "run_ops step (x # xs) s = run_ops step xs (step s x)"
  by (simp add: run_ops_def)

lemma run_ops_append: "run_ops step (xs @ ys) s = run_ops step ys (run_ops step xs s)"
  by (simp add: run_ops_def)

lemma run_ops_inv_on:
  assumes "\<And>s x. x \<in> set xs \<Longrightarrow> I s \<Longrightarrow> I (step s x)" and "I s"
  shows "I (run_ops step xs s)"
  using assms by (induction xs arbitrary: s) simp_all

lemma run_ops_commute:
  assumes "\<And>s x. step (f s) x = f (step s x)"
  shows "run_ops step xs (f s) = f (run_ops step xs s)"
  using assms by (induction xs arbitrary: s) simp_all

locale stateful =
  fixes step :: "'s \<Rightarrow> 'op \<Rightarrow> 's"
    and inv :: "'s \<Rightarrow> bool"
  assumes step_inv: "inv s \<Longrightarrow> inv (step s x)"
begin

lemma run_inv: "inv s \<Longrightarrow> inv (run_ops step xs s)"
  by (induction xs arbitrary: s) (simp_all add: step_inv)

lemma run_inv_prefix: "inv s \<Longrightarrow> inv (run_ops step (take n xs) s)"
  by (rule run_inv)

end

locale framed = stateful +
  fixes view :: "'s \<Rightarrow> 'v"
  assumes step_view: "view (step s x) = view s"
begin

lemma run_view: "view (run_ops step xs s) = view s"
  by (induction xs arbitrary: s) (simp_all add: step_view)

end

end
