(* ===== verification/Go_Strings.thy ===== *)
theory Go_Strings
  imports Prelude
begin

text \<open>
  The parts of Go's packages \<open>strings\<close>, \<open>strconv\<close> and \<open>bytes\<close> the program uses. A Go string
  and a \<open>[]byte\<close> are both byte sequences, which is what HOL's \<open>string\<close> (a list of 8-bit
  characters) is.
\<close>

section \<open>strings: prefixes, search, trimming, splitting\<close>

fun hasPrefix :: "string \<Rightarrow> string \<Rightarrow> bool" where
  "hasPrefix s [] = True"
| "hasPrefix [] (c # p) = False"
| "hasPrefix (x # s) (c # p) = (x = c \<and> hasPrefix s p)"

definition hasSuffix :: "string \<Rightarrow> string \<Rightarrow> bool" where
  "hasSuffix s p = hasPrefix (rev s) (rev p)"

fun containsStr :: "string \<Rightarrow> string \<Rightarrow> bool" where
  "containsStr [] sub = (sub = [])"
| "containsStr (x # s) sub = (hasPrefix (x # s) sub \<or> containsStr s sub)"

text \<open>\<open>strings.Index\<close>: the first position of \<open>sub\<close>, \<open>None\<close> for \<open>-1\<close>.\<close>

fun indexOf :: "string \<Rightarrow> string \<Rightarrow> nat option" where
  "indexOf [] sub = (if sub = [] then Some 0 else None)"
| "indexOf (x # s) sub =
     (if hasPrefix (x # s) sub then Some 0 else map_option Suc (indexOf s sub))"

text \<open>\<open>strings.TrimRight(s, "c")\<close> for a single character \<open>c\<close>.\<close>

definition trimRightChar :: "char \<Rightarrow> string \<Rightarrow> string" where
  "trimRightChar c s = rev (dropWhile (\<lambda>x. x = c) (rev s))"

text \<open>\<open>strings.Split(s, "c")\<close>: always at least one piece.\<close>

fun splitOn :: "char \<Rightarrow> string \<Rightarrow> string list" where
  "splitOn c [] = [[]]"
| "splitOn c (x # xs) =
     (if x = c then [] # splitOn c xs
      else (case splitOn c xs of [] \<Rightarrow> [[x]] | y # ys \<Rightarrow> (x # y) # ys))"

lemma hasPrefix_iff: "hasPrefix s p \<longleftrightarrow> (\<exists>r. s = p @ r)"
  by (induction s p rule: hasPrefix.induct) auto

lemma hasPrefix_append [simp]: "hasPrefix (p @ r) p"
  by (auto simp: hasPrefix_iff)

lemma hasPrefix_refl [simp]: "hasPrefix s s"
  by (auto simp: hasPrefix_iff)

lemma hasPrefix_drop: "hasPrefix s p \<Longrightarrow> s = p @ drop (length p) s"
  by (auto simp: hasPrefix_iff)

lemma hasPrefix_length: "hasPrefix s p \<Longrightarrow> length p \<le> length s"
  by (auto simp: hasPrefix_iff)

lemma hasPrefix_trans: "hasPrefix s p \<Longrightarrow> hasPrefix p q \<Longrightarrow> hasPrefix s q"
  by (auto simp: hasPrefix_iff)

lemma hasSuffix_iff: "hasSuffix s p \<longleftrightarrow> (\<exists>r. s = r @ p)"
proof
  assume "hasSuffix s p"
  then obtain r where "rev s = rev p @ r" by (auto simp: hasSuffix_def hasPrefix_iff)
  then have "s = rev r @ p" by (metis rev_append rev_rev_ident)
  then show "\<exists>r. s = r @ p" ..
qed (auto simp: hasSuffix_def hasPrefix_iff)

lemma containsStr_iff: "containsStr s sub \<longleftrightarrow> (\<exists>l r. s = l @ sub @ r)"
proof (induction s)
  case (Cons x s)
  show ?case
  proof
    assume "containsStr (x # s) sub"
    then consider "hasPrefix (x # s) sub" | "containsStr s sub" by auto
    then show "\<exists>l r. x # s = l @ sub @ r"
    proof cases
      case 1
      then obtain r where "x # s = [] @ sub @ r" by (auto simp: hasPrefix_iff)
      then show ?thesis by blast
    next
      case 2
      then obtain l r where "x # s = (x # l) @ sub @ r" using Cons.IH by auto
      then show ?thesis by blast
    qed
  next
    assume "\<exists>l r. x # s = l @ sub @ r"
    then obtain l r where *: "x # s = l @ sub @ r" by blast
    show "containsStr (x # s) sub"
    proof (cases l)
      case Nil
      with * have "hasPrefix (x # s) sub" by (metis append_Nil hasPrefix_append)
      then show ?thesis by simp
    next
      case l: (Cons y l')
      with * have "s = l' @ sub @ r" by simp
      with Cons.IH have "containsStr s sub" by blast
      then show ?thesis by simp
    qed
  qed
qed auto

lemma splitOn_not_Nil [simp]: "splitOn c s \<noteq> []"
  by (induction s) (auto split: list.splits)

lemma trimRightChar_last: "trimRightChar c s \<noteq> [] \<Longrightarrow> last (trimRightChar c s) \<noteq> c"
  using hd_dropWhile [of "\<lambda>x. x = c" "rev s"] by (auto simp: trimRightChar_def last_rev)

section \<open>Character classes\<close>

definition isDigit :: "char \<Rightarrow> bool" where
  "isDigit c \<longleftrightarrow> 48 \<le> (of_char c :: nat) \<and> (of_char c :: nat) \<le> 57"

definition isUpper :: "char \<Rightarrow> bool" where
  "isUpper c \<longleftrightarrow> 65 \<le> (of_char c :: nat) \<and> (of_char c :: nat) \<le> 90"

definition isLower :: "char \<Rightarrow> bool" where
  "isLower c \<longleftrightarrow> 97 \<le> (of_char c :: nat) \<and> (of_char c :: nat) \<le> 122"

text \<open>Lower and upper case of an ASCII letter; every other byte is left alone.\<close>

definition lowerChar :: "char \<Rightarrow> char" where
  "lowerChar c = (if isUpper c then char_of ((of_char c :: nat) + 32) else c)"

definition upperChar :: "char \<Rightarrow> char" where
  "upperChar c = (if isLower c then char_of ((of_char c :: nat) - 32) else c)"

definition toLower :: "string \<Rightarrow> string" where
  "toLower s = map lowerChar s"

definition digitVal :: "char \<Rightarrow> int" where
  "digitVal c = int (of_char c :: nat) - 48"

definition digitChar :: "nat \<Rightarrow> char" where
  "digitChar d = char_of (48 + d)"

lemma of_char_char_of_small [simp]: "n < 256 \<Longrightarrow> of_char (char_of n :: char) = (n :: nat)"
  by simp

lemma digitChar_digit [simp]:
  "d < 10 \<Longrightarrow> isDigit (digitChar d)" "d < 10 \<Longrightarrow> digitVal (digitChar d) = int d"
  by (simp_all add: isDigit_def digitVal_def digitChar_def)

section \<open>strings.TrimSpace\<close>

text \<open>
  \<open>unicode.IsSpace\<close> in UTF-8: the six ASCII characters, U+0085, U+00A0 and the space separators.
  A UTF-8 sequence starts at a lead byte, so matching whole sequences at either end is what the
  rune-wise trimming does.
\<close>

definition spaceSeqs :: "string list" where
  "spaceSeqs =
     map (\<lambda>n. [char_of (n::nat)]) [9, 10, 11, 12, 13, 32] @
     [[CHR 0xC2, CHR 0x85], [CHR 0xC2, CHR 0xA0], [CHR 0xE1, CHR 0x9A, CHR 0x80]] @
     map (\<lambda>n. [CHR 0xE2, CHR 0x80, char_of n]) [0x80..<0x8B] @
     [[CHR 0xE2, CHR 0x80, CHR 0xA8], [CHR 0xE2, CHR 0x80, CHR 0xA9],
      [CHR 0xE2, CHR 0x80, CHR 0xAF], [CHR 0xE2, CHR 0x81, CHR 0x9F],
      [CHR 0xE3, CHR 0x80, CHR 0x80]]"

fun stripOne :: "string list \<Rightarrow> string \<Rightarrow> string option" where
  "stripOne [] s = None"
| "stripOne (q # qs) s =
     (if q \<noteq> [] \<and> hasPrefix s q then Some (drop (length q) s) else stripOne qs s)"

lemma stripOne_shorter: "stripOne qs s = Some r \<Longrightarrow> length r < length s"
proof (induction qs)
  case (Cons q qs)
  show ?case
  proof (cases "q \<noteq> [] \<and> hasPrefix s q")
    case True
    then have "0 < length q" "length q \<le> length s" by (auto dest: hasPrefix_length)
    then have "length s - length q < length s" by linarith
    with True Cons.prems show ?thesis by auto
  next
    case False
    with Cons.prems have "stripOne qs s = Some r" by (simp split: if_splits)
    then show ?thesis by (rule Cons.IH)
  qed
qed simp

function trimSeqs :: "string list \<Rightarrow> string \<Rightarrow> string" where
  "trimSeqs qs s = (case stripOne qs s of None \<Rightarrow> s | Some r \<Rightarrow> trimSeqs qs r)"
  by pat_completeness auto
termination
  by (relation "measure (\<lambda>(qs, s). length s)") (auto dest: stripOne_shorter)

declare trimSeqs.simps [simp del]

definition trimSpace :: "string \<Rightarrow> string" where
  "trimSpace s = rev (trimSeqs (map rev spaceSeqs) (rev (trimSeqs spaceSeqs s)))"

lemma trimSeqs_Nil [simp]: "trimSeqs qs [] = []"
proof -
  have "stripOne qs [] = None"
    by (induction qs) (auto dest: hasPrefix_length)
  then show ?thesis by (simp add: trimSeqs.simps)
qed

lemma trimSpace_Nil [simp]: "trimSpace [] = []"
  by (simp add: trimSpace_def)

text \<open>A text that starts and ends with visible ASCII characters is not changed.\<close>

definition visible :: "char \<Rightarrow> bool" where
  "visible c \<longleftrightarrow> 33 \<le> (of_char c :: nat) \<and> (of_char c :: nat) < 127"

lemma spaces_not_visible:
  "list_all (\<lambda>q. q \<noteq> [] \<and> \<not> visible (hd q) \<and> \<not> visible (last q)) spaceSeqs"
  by code_simp

lemma trimSeqs_visible:
  assumes "s \<noteq> []" and "list_all (\<lambda>q. q = [] \<or> hd q \<noteq> hd s) qs"
  shows "trimSeqs qs s = s"
proof -
  have "stripOne qs s = None"
    using assms(2)
  proof (induction qs)
    case (Cons q qs)
    then show ?case using assms(1) by (cases s; cases q) auto
  qed simp
  then show ?thesis by (simp add: trimSeqs.simps)
qed

lemma trimSpace_visible:
  assumes "s \<noteq> []" and "visible (hd s)" and "visible (last s)"
  shows "trimSpace s = s"
proof -
  have "trimSeqs spaceSeqs s = s"
    using spaces_not_visible assms(2) by (intro trimSeqs_visible assms(1)) (auto simp: list_all_iff)
  moreover have "trimSeqs (map rev spaceSeqs) (rev s) = rev s"
    using spaces_not_visible assms(1,3) by (intro trimSeqs_visible) (auto simp: list_all_iff hd_rev)
  ultimately show ?thesis by (simp add: trimSpace_def)
qed

section \<open>strconv: Itoa, Atoi, ParseInt(v, 10, 64)\<close>

fun natDigits :: "nat \<Rightarrow> string" where
  "natDigits n = (if n < 10 then [digitChar n] else natDigits (n div 10) @ [digitChar (n mod 10)])"

declare natDigits.simps [simp del]

definition itoa :: "int \<Rightarrow> string" where
  "itoa n = (if n < 0 then CHR ''-'' # natDigits (nat (- n)) else natDigits (nat n))"

text \<open>The value of a run of decimal digits, \<open>None\<close> if there is any other character.\<close>

fun digitsVal :: "int \<Rightarrow> string \<Rightarrow> int option" where
  "digitsVal acc [] = Some acc"
| "digitsVal acc (c # cs) = (if isDigit c then digitsVal (10 * acc + digitVal c) cs else None)"

text \<open>\<open>None\<close> stands for the error: no digits, another character, or out of the range of int64.\<close>

definition parseInt64 :: "string \<Rightarrow> int option" where
  "parseInt64 s =
     (let (neg, ds) = (case s of
          [] \<Rightarrow> (False, [])
        | c # r \<Rightarrow> if c = CHR ''-'' then (True, r) else if c = CHR ''+'' then (False, r) else (False, s))
      in if ds = [] then None
         else (case digitsVal 0 ds of
             None \<Rightarrow> None
           | Some v \<Rightarrow> (let n = (if neg then - v else v) in if in64 n then Some n else None)))"

definition atoi :: "string \<Rightarrow> int option" where
  "atoi s = parseInt64 s"

lemma digitsVal_append:
  "digitsVal acc (xs @ ys) = (case digitsVal acc xs of None \<Rightarrow> None | Some v \<Rightarrow> digitsVal v ys)"
  by (induction xs arbitrary: acc) auto

lemma digitsVal_natDigits: "digitsVal 0 (natDigits n) = Some (int n)"
proof (induction n rule: natDigits.induct)
  case (1 n)
  show ?case
  proof (cases "n < 10")
    case True
    then show ?thesis by (simp add: natDigits.simps [of n])
  next
    case False
    with "1.IH" have "digitsVal 0 (natDigits (n div 10)) = Some (int (n div 10))" by simp
    moreover have "10 * int (n div 10) + int (n mod 10) = int n"
      by (metis div_mult_mod_eq mult.commute of_nat_add of_nat_mult of_nat_numeral)
    ultimately show ?thesis
      using False by (simp add: natDigits.simps [of n] digitsVal_append)
  qed
qed

lemma natDigits_digits: "c \<in> set (natDigits n) \<Longrightarrow> isDigit c"
proof (induction n rule: natDigits.induct)
  case (1 n)
  then show ?case by (cases "n < 10") (auto simp: natDigits.simps [of n])
qed

lemma natDigits_not_Nil [simp]: "natDigits n \<noteq> []"
  by (simp add: natDigits.simps [of n])

lemma sign_not_digit [simp]: "\<not> isDigit (CHR ''-'')" "\<not> isDigit (CHR ''+'')"
  by (simp_all add: isDigit_def)

lemma natDigits_hd: "natDigits n = c # r \<Longrightarrow> c \<noteq> CHR ''-'' \<and> c \<noteq> CHR ''+''"
  using natDigits_digits [of c n] by auto

lemma parseInt64_itoa: "in64 n \<Longrightarrow> parseInt64 (itoa n) = Some n"
proof (cases "n < 0")
  case True
  assume "in64 n"
  with True show ?thesis
    using digitsVal_natDigits [of "nat (- n)"] by (simp add: itoa_def parseInt64_def)
next
  case False
  assume n: "in64 n"
  obtain c r where cr: "natDigits (nat n) = c # r"
    by (meson natDigits_not_Nil neq_Nil_conv)
  with natDigits_hd have "c \<noteq> CHR ''-''" "c \<noteq> CHR ''+''" by blast+
  then show ?thesis
    using False n cr digitsVal_natDigits [of "nat n"] by (simp add: itoa_def parseInt64_def)
qed

lemma parseInt64_range: "parseInt64 s = Some n \<Longrightarrow> in64 n"
  by (auto simp: parseInt64_def Let_def split: list.splits if_splits option.splits prod.splits)

lemma atoi_itoa [simp]: "in64 n \<Longrightarrow> atoi (itoa n) = Some n"
  by (simp add: atoi_def parseInt64_itoa)

lemma atoi_range: "atoi s = Some n \<Longrightarrow> in64 n"
  by (auto simp: atoi_def dest: parseInt64_range)

text \<open>Text with double quotes, which are written as tildes.\<close>

definition quoted :: "string \<Rightarrow> string" where
  "quoted s = map (\<lambda>c. if c = CHR ''~'' then CHR 0x22 else c) s"

end
