(* ===== verification/Go_Http.thy ===== *)
theory Go_Http
  imports Go_Strings
begin

text \<open>
  \<open>http.Header\<close>: a map from canonical field names to lists of values, kept as an association list
  with distinct keys (Go iterates its maps in an unspecified order; nothing below depends on the
  order of the keys). A nil header is the empty one.
\<close>

type_synonym header = "(string \<times> string list) list"

section \<open>Canonical field names\<close>

definition tokenChars :: string where
  "tokenChars = ''!#$%&*+-.^_|~'' @ [CHR 0x27, CHR 0x60]"

definition isTokenChar :: "char \<Rightarrow> bool" where
  "isTokenChar c \<longleftrightarrow> isDigit c \<or> isUpper c \<or> isLower c \<or> c \<in> set tokenChars"

fun canonFrom :: "bool \<Rightarrow> string \<Rightarrow> string" where
  "canonFrom upper [] = []"
| "canonFrom upper (c # cs) =
     (let c' = (if upper then upperChar c else lowerChar c) in c' # canonFrom (c' = CHR ''-'') cs)"

text \<open>\<open>textproto.CanonicalMIMEHeaderKey\<close>: a name with an invalid byte is left unchanged.\<close>

definition canonKey :: "string \<Rightarrow> string" where
  "canonKey k = (if list_all isTokenChar k then canonFrom True k else k)"

section \<open>Get, Add, Set, Del\<close>

definition hdrVals :: "header \<Rightarrow> string \<Rightarrow> string list" where
  "hdrVals h k = (case map_of h (canonKey k) of None \<Rightarrow> [] | Some vs \<Rightarrow> vs)"

definition hdrGet :: "header \<Rightarrow> string \<Rightarrow> string" where
  "hdrGet h k = (case hdrVals h k of [] \<Rightarrow> [] | v # _ \<Rightarrow> v)"

definition hdrDel :: "header \<Rightarrow> string \<Rightarrow> header" where
  "hdrDel h k = filter (\<lambda>(k', _). k' \<noteq> canonKey k) h"

definition hdrSet :: "header \<Rightarrow> string \<Rightarrow> string \<Rightarrow> header" where
  "hdrSet h k v = (canonKey k, [v]) # hdrDel h k"

definition hdrAdd :: "header \<Rightarrow> string \<Rightarrow> string \<Rightarrow> header" where
  "hdrAdd h k v = (canonKey k, hdrVals h k @ [v]) # hdrDel h k"

lemma map_of_hdrDel: "map_of (hdrDel h k) k' = (if k' = canonKey k then None else map_of h k')"
  by (induction h) (auto simp: hdrDel_def)

lemma map_of_hdrSet: "map_of (hdrSet h k v) k' = (if k' = canonKey k then Some [v] else map_of h k')"
  by (auto simp: hdrSet_def map_of_hdrDel)

lemma map_of_hdrAdd:
  "map_of (hdrAdd h k v) k' = (if k' = canonKey k then Some (hdrVals h k @ [v]) else map_of h k')"
  by (auto simp: hdrAdd_def map_of_hdrDel)

lemma hdrVals_hdrDel [simp]: "canonKey k = canonKey k' \<Longrightarrow> hdrVals (hdrDel h k) k' = []"
  by (simp add: hdrVals_def map_of_hdrDel)

lemma hdrVals_hdrSet [simp]: "hdrVals (hdrSet h k v) k = [v]"
  by (simp add: hdrVals_def map_of_hdrSet)

lemma hdrGet_hdrSet [simp]: "hdrGet (hdrSet h k v) k = v"
  by (simp add: hdrGet_def)

lemma hdrVals_hdrSet_other [simp]:
  "canonKey k \<noteq> canonKey k' \<Longrightarrow> hdrVals (hdrSet h k v) k' = hdrVals h k'"
  by (simp add: hdrVals_def map_of_hdrSet)

lemma hdrVals_hdrDel_other [simp]:
  "canonKey k \<noteq> canonKey k' \<Longrightarrow> hdrVals (hdrDel h k) k' = hdrVals h k'"
  by (simp add: hdrVals_def map_of_hdrDel)

lemma hdrGet_Nil [simp]: "hdrGet [] k = []"
  by (simp add: hdrGet_def hdrVals_def)

end
