(* ===== verification/Go_Time.thy ===== *)
theory Go_Time
  imports Prelude
begin

text \<open>
  Go's package \<open>time\<close>: instants as nanoseconds since the Unix epoch, durations as \<open>int64\<close>
  nanoseconds, the zero time, and the proleptic Gregorian calendar in UTC with Go's normalisation
  of out-of-range days and months.
\<close>

section \<open>Instants and durations\<close>

type_synonym gotime = int
type_synonym duration = int

abbreviation Millisecond :: duration where "Millisecond \<equiv> 1000000"
abbreviation Second :: duration where "Second \<equiv> 1000000000"
abbreviation Minute :: duration where "Minute \<equiv> 60000000000"
abbreviation Hour :: duration where "Hour \<equiv> 3600000000000"
abbreviation Day :: duration where "Day \<equiv> 86400000000000"

text \<open>\<open>time.Time{}\<close> is January 1, year 1, 00:00 UTC; \<open>IsZero\<close> tests for it.\<close>

definition zeroTime :: gotime where
  "zeroTime = - 62135596800000000000"

definition isZero :: "gotime \<Rightarrow> bool" where
  "isZero t \<longleftrightarrow> t = zeroTime"

lemma isZero_zeroTime [simp]: "isZero zeroTime"
  by (simp add: isZero_def)

text \<open>
  \<open>Duration\<close> products such as \<open>time.Duration(n) * time.Second\<close> are \<open>int64\<close> products.
\<close>

definition durMul :: "int \<Rightarrow> duration \<Rightarrow> duration" where
  "durMul n unit = wrap64 (n * unit)"

text \<open>\<open>t.Sub(u)\<close> saturates at the ends of the duration range.\<close>

definition timeSub :: "gotime \<Rightarrow> gotime \<Rightarrow> duration" where
  "timeSub t u = max MinInt64 (min MaxInt64 (t - u))"

lemma durMul_exact [simp]:
  "MinInt64 \<le> n * unit \<Longrightarrow> n * unit \<le> MaxInt64 \<Longrightarrow> durMul n unit = n * unit"
  by (simp add: durMul_def)

section \<open>The calendar\<close>

definition isLeap :: "int \<Rightarrow> bool" where
  "isLeap y \<longleftrightarrow> y mod 4 = 0 \<and> (y mod 100 \<noteq> 0 \<or> y mod 400 = 0)"

text \<open>Days from 1 January of year 1 to 1 January of year \<open>y\<close>.\<close>

definition daysBeforeYear :: "int \<Rightarrow> int" where
  "daysBeforeYear y = 365 * (y - 1) + (y - 1) div 4 - (y - 1) div 100 + (y - 1) div 400"

definition daysInYear :: "int \<Rightarrow> int" where
  "daysInYear y = (if isLeap y then 366 else 365)"

definition cumDays :: "int list" where
  "cumDays = [0, 31, 59, 90, 120, 151, 181, 212, 243, 273, 304, 334, 365]"

text \<open>Days from 1 January to the first of month \<open>m\<close> (1 to 13, 13 being the year's end).\<close>

definition daysBeforeMonth :: "int \<Rightarrow> int \<Rightarrow> int" where
  "daysBeforeMonth y m = cumDays ! nat (m - 1) + (if isLeap y \<and> 2 < m then 1 else 0)"

definition daysInMonth :: "int \<Rightarrow> int \<Rightarrow> int" where
  "daysInMonth y m = daysBeforeMonth y (m + 1) - daysBeforeMonth y m"

text \<open>Day number of 1970-01-01 counted from 0001-01-01.\<close>

abbreviation epochDays :: int where
  "epochDays \<equiv> 719162"

text \<open>
  \<open>time.Date(y, m, d, 0, 0, 0, 0, time.UTC)\<close>: the month is normalised into the year and the day
  is an offset from the first of that month, so October 32 is November 1.
\<close>

definition dayNumber :: "int \<Rightarrow> int \<Rightarrow> int \<Rightarrow> int" where
  "dayNumber y m d =
     (let y' = y + (m - 1) div 12; m' = (m - 1) mod 12 + 1
      in daysBeforeYear y' + daysBeforeMonth y' m' + (d - 1))"

definition goDate :: "int \<Rightarrow> int \<Rightarrow> int \<Rightarrow> gotime" where
  "goDate y m d = (dayNumber y m d - epochDays) * Day"

text \<open>The civil date of a day number: the year first, by an estimate corrected by one.\<close>

definition yearOfDay :: "int \<Rightarrow> int" where
  "yearOfDay n =
     (let y = (400 * n) div 146097 + 1
      in if n < daysBeforeYear y then y - 1
         else if daysBeforeYear (y + 1) \<le> n then y + 1 else y)"

fun monthFrom :: "int \<Rightarrow> int \<Rightarrow> int list \<Rightarrow> int" where
  "monthFrom y yday [] = 12"
| "monthFrom y yday (m # ms) = (if yday < daysBeforeMonth y (m + 1) then m else monthFrom y yday ms)"

definition monthOfDay :: "int \<Rightarrow> int \<Rightarrow> int" where
  "monthOfDay y yday = monthFrom y yday [1, 2, 3, 4, 5, 6, 7, 8, 9, 10, 11]"

definition civilOfDay :: "int \<Rightarrow> int \<times> int \<times> int" where
  "civilOfDay n =
     (let y = yearOfDay n; yd = n - daysBeforeYear y; m = monthOfDay y yd
      in (y, m, yd - daysBeforeMonth y m + 1))"

text \<open>\<open>t.UTC().Date()\<close>, and \<open>t.AddDate(dy, dm, dd)\<close>, which keeps the clock reading.\<close>

definition dateOf :: "gotime \<Rightarrow> int \<times> int \<times> int" where
  "dateOf t = civilOfDay (t div Day + epochDays)"

definition addDate :: "gotime \<Rightarrow> int \<Rightarrow> int \<Rightarrow> int \<Rightarrow> gotime" where
  "addDate t dy dm dd =
     (case dateOf t of (y, m, d) \<Rightarrow> goDate (y + dy) (m + dm) (d + dd) + t mod Day)"

section \<open>The calendar is consistent\<close>

lemma div_bounds: "0 < (k::int) \<Longrightarrow> k * (x div k) \<le> x" "0 < k \<Longrightarrow> x < k * (x div k) + k"
  using mult_div_mod_eq [of k x] pos_mod_bound [of k x] pos_mod_sign [of k x] by linarith+

lemma div_pred:
  assumes "0 < (k::int)"
  shows "y div k = (y - 1) div k + (if y mod k = 0 then 1 else 0)"
proof -
  have y: "y = k * (y div k) + y mod k" by simp
  have r: "0 \<le> y mod k" "y mod k < k" using assms by simp_all
  show ?thesis
  proof (cases "y mod k = 0")
    case True
    have "(y - 1) div k = y div k - 1"
      by (rule int_div_pos_eq [where r = "k - 1"])
        (use y True assms in \<open>simp_all add: algebra_simps\<close>)
    with True show ?thesis by simp
  next
    case False
    have "(y - 1) div k = y div k"
      by (rule int_div_pos_eq [where r = "y mod k - 1"]) (use y r False in linarith)+
    with False show ?thesis by simp
  qed
qed

lemma daysBeforeYear_Suc: "daysBeforeYear (y + 1) = daysBeforeYear y + daysInYear y"
proof -
  have "y mod 400 = 0 \<Longrightarrow> y mod 100 = 0" "y mod 100 = 0 \<Longrightarrow> y mod 4 = 0"
    using mod_mod_cancel [of 100 400 y] mod_mod_cancel [of 4 100 y] by simp_all
  then have leap: "(365::int) + (if y mod 4 = 0 then 1 else 0) - (if y mod 100 = 0 then 1 else 0)
      + (if y mod 400 = 0 then 1 else 0) = daysInYear y"
    unfolding daysInYear_def isLeap_def
    by (cases "y mod 4 = 0"; cases "y mod 100 = 0"; cases "y mod 400 = 0") simp_all
  have e1: "daysBeforeYear (y + 1) = 365 * y + y div 4 - y div 100 + y div 400"
    by (simp add: daysBeforeYear_def)
  have e2: "daysBeforeYear y = 365 * y - 365 + (y - 1) div 4 - (y - 1) div 100 + (y - 1) div 400"
    unfolding daysBeforeYear_def by (simp only: right_diff_distrib mult_1_right)
  have regroup: "365 * y + (a + i) - (b + j) + (c + k) = (365 * y - 365 + a - b + c) + (365 + i - j + k)"
    for a b c i j k :: int
    by simp
  show ?thesis
    by (simp only: e1 e2 leap [symmetric] div_pred [of 4 y] div_pred [of 100 y]
        div_pred [of 400 y] zero_less_numeral regroup)
qed

lemma daysInYear_bounds: "365 \<le> daysInYear y" "daysInYear y \<le> 366"
  by (simp_all add: daysInYear_def)

lemma yearOfDay_bounds:
  "daysBeforeYear (yearOfDay n) \<le> n \<and> n < daysBeforeYear (yearOfDay n + 1)"
proof -
  define y where "y = (400 * n) div 146097 + 1"
  define q where "q = y - 1"
  have q: "146097 * q \<le> 400 * n" "400 * n < 146097 * q + 146097"
    using div_bounds [of 146097 "400 * n"] by (simp_all add: q_def y_def)
  obtain i j k where ijk: "i = q div 4" "j = q div 100" "k = q div 400" by blast
  have d: "4 * i \<le> q" "q < 4 * i + 4" "100 * j \<le> q" "q < 100 * j + 100"
    "400 * k \<le> q" "q < 400 * k + 400"
    unfolding ijk by (simp_all only: div_bounds zero_less_numeral)
  have dby: "daysBeforeYear y = 365 * q + i - j + k"
    by (simp add: daysBeforeYear_def q_def ijk)
  have lo: "daysBeforeYear y \<le> n + 365" and hi: "n < daysBeforeYear y + 730"
    using q d dby by linarith+
  have s0: "daysBeforeYear y = daysBeforeYear (y - 1) + daysInYear (y - 1)"
    using daysBeforeYear_Suc [of "y - 1"] by simp
  have s1: "daysBeforeYear (y + 1) = daysBeforeYear y + daysInYear y"
    by (rule daysBeforeYear_Suc)
  have s2: "daysBeforeYear (y + 2) = daysBeforeYear (y + 1) + daysInYear (y + 1)"
    using daysBeforeYear_Suc [of "y + 1"] by (simp add: add.assoc)
  note yb = daysInYear_bounds [of "y - 1"] daysInYear_bounds [of y] daysInYear_bounds [of "y + 1"]
  show ?thesis
    unfolding yearOfDay_def Let_def y_def [symmetric]
    using lo hi s0 s1 s2 yb by (auto simp: add.commute)
qed

lemma daysBeforeYear_mono: "y \<le> z \<Longrightarrow> daysBeforeYear y \<le> daysBeforeYear z"
proof (induction "nat (z - y)" arbitrary: z)
  case (Suc k)
  then have "daysBeforeYear y \<le> daysBeforeYear (z - 1)" by simp
  also have "\<dots> \<le> daysBeforeYear z"
    using daysBeforeYear_Suc [of "z - 1"] daysInYear_bounds [of "z - 1"] by simp
  finally show ?case .
qed simp

lemma yearOfDay_unique:
  assumes "daysBeforeYear y \<le> n" and "n < daysBeforeYear (y + 1)"
  shows "yearOfDay n = y"
proof -
  let ?z = "yearOfDay n"
  have z: "daysBeforeYear ?z \<le> n" "n < daysBeforeYear (?z + 1)"
    using yearOfDay_bounds by blast+
  have "\<not> y < ?z" using daysBeforeYear_mono [of "y + 1" ?z] z assms by linarith
  moreover have "\<not> ?z < y" using daysBeforeYear_mono [of "?z + 1" y] z assms by linarith
  ultimately show ?thesis by simp
qed

lemma month_cases:
  assumes "1 \<le> (m::int)" and "m \<le> 12"
  shows "m = 1 \<or> m = 2 \<or> m = 3 \<or> m = 4 \<or> m = 5 \<or> m = 6 \<or>
    m = 7 \<or> m = 8 \<or> m = 9 \<or> m = 10 \<or> m = 11 \<or> m = 12"
  using assms by presburger

definition leapDay :: "int \<Rightarrow> int" where
  "leapDay y = (if isLeap y then 1 else 0)"

lemma leapDay_bounds: "0 \<le> leapDay y" "leapDay y \<le> 1"
  by (simp_all add: leapDay_def)

lemma daysBeforeMonth_table:
  "daysBeforeMonth y 1 = 0" "daysBeforeMonth y 2 = 31" "daysBeforeMonth y 3 = 59 + leapDay y"
  "daysBeforeMonth y 4 = 90 + leapDay y" "daysBeforeMonth y 5 = 120 + leapDay y"
  "daysBeforeMonth y 6 = 151 + leapDay y" "daysBeforeMonth y 7 = 181 + leapDay y"
  "daysBeforeMonth y 8 = 212 + leapDay y" "daysBeforeMonth y 9 = 243 + leapDay y"
  "daysBeforeMonth y 10 = 273 + leapDay y" "daysBeforeMonth y 11 = 304 + leapDay y"
  "daysBeforeMonth y 12 = 334 + leapDay y" "daysBeforeMonth y 13 = 365 + leapDay y"
  by (simp_all add: daysBeforeMonth_def cumDays_def leapDay_def)

lemma daysInYear_leapDay: "daysInYear y = 365 + leapDay y"
  by (simp add: daysInYear_def leapDay_def)

lemma daysInMonth_bounds:
  assumes "1 \<le> m" and "m \<le> 12"
  shows "28 \<le> daysInMonth y m" and "daysInMonth y m \<le> 31"
  using month_cases [OF assms] leapDay_bounds [of y]
  by (elim disjE; simp add: daysInMonth_def daysBeforeMonth_table)+

lemma daysBeforeMonth_mono:
  assumes "m \<le> k" and "1 \<le> m" and "k \<le> 13"
  shows "daysBeforeMonth y m \<le> daysBeforeMonth y k"
  using assms
proof (induction "nat (k - m)" arbitrary: k)
  case (Suc j)
  then have "m < k" by linarith
  with Suc have "daysBeforeMonth y m \<le> daysBeforeMonth y (k - 1)" by simp
  also have "\<dots> \<le> daysBeforeMonth y k"
    using daysInMonth_bounds(1) [of "k - 1" y] \<open>m < k\<close> Suc.prems by (simp add: daysInMonth_def)
  finally show ?case .
qed simp

lemma monthFrom_bounds:
  assumes "1 \<le> k" and "k \<le> 12" and "daysBeforeMonth y k \<le> yd" and "yd < daysBeforeMonth y 13"
    and "r = monthFrom y yd [k..11]"
  shows "1 \<le> r \<and> r \<le> 12 \<and> daysBeforeMonth y r \<le> yd \<and> yd < daysBeforeMonth y (r + 1)"
  using assms
proof (induction "nat (12 - k)" arbitrary: k)
  case 0
  then have "k = 12" by simp
  with 0 show ?case by simp
next
  case (Suc j)
  then have up: "[k..11] = k # [k + 1..11]" by (simp add: upto_rec1)
  show ?case
  proof (cases "yd < daysBeforeMonth y (k + 1)")
    case True
    with Suc.prems up show ?thesis by simp
  next
    case False
    with Suc.prems up have "r = monthFrom y yd [k + 1..11]" by simp
    moreover have "j = nat (12 - (k + 1))" "k + 1 \<le> 12" using Suc.hyps(2) by linarith+
    ultimately show ?thesis
      using Suc.hyps(1) [of "k + 1"] Suc.prems(1,4) False by linarith
  qed
qed

lemma monthOfDay_bounds:
  assumes "0 \<le> yd" and "yd < daysInYear y"
  shows "1 \<le> monthOfDay y yd \<and> monthOfDay y yd \<le> 12 \<and>
    daysBeforeMonth y (monthOfDay y yd) \<le> yd \<and> yd < daysBeforeMonth y (monthOfDay y yd + 1)"
proof (rule monthFrom_bounds [of 1])
  have "[1..11] = [1, 2, 3, 4, 5, 6, 7, 8, 9, 10, 11::int]" by (simp add: upto_rec1)
  then show "monthOfDay y yd = monthFrom y yd [1..11]" by (simp add: monthOfDay_def)
qed (use assms in \<open>simp_all add: daysBeforeMonth_table daysInYear_leapDay\<close>)

lemma daysBeforeMonth_end: "1 \<le> m \<Longrightarrow> m \<le> 12 \<Longrightarrow> daysBeforeMonth y (m + 1) \<le> daysInYear y"
  using daysBeforeMonth_mono [of "m + 1" 13 y] by (simp add: daysBeforeMonth_table daysInYear_leapDay)

lemma daysBeforeMonth_nonneg: "1 \<le> m \<Longrightarrow> m \<le> 12 \<Longrightarrow> 0 \<le> daysBeforeMonth y m"
  using daysBeforeMonth_mono [of 1 m y] by (simp add: daysBeforeMonth_table)

lemma monthOfDay_unique:
  assumes "1 \<le> m" and "m \<le> 12" and "daysBeforeMonth y m \<le> yd" and "yd < daysBeforeMonth y (m + 1)"
  shows "monthOfDay y yd = m"
proof -
  let ?r = "monthOfDay y yd"
  have "0 \<le> yd" "yd < daysInYear y"
    using assms daysBeforeMonth_nonneg [of m y] daysBeforeMonth_end [of m y] by linarith+
  then have r: "1 \<le> ?r" "?r \<le> 12" "daysBeforeMonth y ?r \<le> yd" "yd < daysBeforeMonth y (?r + 1)"
    using monthOfDay_bounds by blast+
  have "\<not> m < ?r" using daysBeforeMonth_mono [of "m + 1" ?r y] r assms by linarith
  moreover have "\<not> ?r < m" using daysBeforeMonth_mono [of "?r + 1" m y] r assms by linarith
  ultimately show ?thesis by simp
qed

lemma dayNumber_regular:
  "1 \<le> m \<Longrightarrow> m \<le> 12 \<Longrightarrow> dayNumber y m d = daysBeforeYear y + daysBeforeMonth y m + (d - 1)"
  by (simp add: dayNumber_def)

lemma dayNumber_next_month:
  assumes "1 \<le> m" and "m \<le> 12"
  shows "dayNumber y (m + 1) d = dayNumber y m d + daysInMonth y m"
proof (cases "m = 12")
  case True
  then show ?thesis
    by (simp add: dayNumber_def daysInMonth_def daysBeforeMonth_def cumDays_def
        daysBeforeYear_Suc daysInYear_def)
next
  case False
  with assms show ?thesis by (simp add: dayNumber_regular daysInMonth_def)
qed

text \<open>The date of a day number and the day number of a date are inverse to each other.\<close>

lemma civilOfDay_dayNumber:
  assumes "1 \<le> m" and "m \<le> 12" and "1 \<le> d" and "d \<le> daysInMonth y m"
  shows "civilOfDay (dayNumber y m d) = (y, m, d)"
proof -
  let ?n = "dayNumber y m d"
  have n: "?n = daysBeforeYear y + daysBeforeMonth y m + (d - 1)"
    by (rule dayNumber_regular [OF assms(1,2)])
  have "daysBeforeYear y \<le> ?n" "?n < daysBeforeYear (y + 1)"
    using n daysBeforeMonth_nonneg [OF assms(1,2), of y] daysBeforeMonth_end [OF assms(1,2), of y] assms(3,4)
    by (simp_all add: daysBeforeYear_Suc daysInMonth_def)
  then have y: "yearOfDay ?n = y" by (rule yearOfDay_unique)
  have "monthOfDay y (?n - daysBeforeYear y) = m"
    by (rule monthOfDay_unique) (use assms n in \<open>simp_all add: daysInMonth_def\<close>)
  with y n show ?thesis by (simp add: civilOfDay_def)
qed

lemma civilOfDay_valid:
  assumes "civilOfDay n = (y, m, d)"
  shows "1 \<le> m" "m \<le> 12" "1 \<le> d" "d \<le> daysInMonth y m" "dayNumber y m d = n"
proof -
  let ?yd = "n - daysBeforeYear y"
  from assms have y: "y = yearOfDay n" and m: "m = monthOfDay y ?yd"
    and d: "d = ?yd - daysBeforeMonth y m + 1"
    by (auto simp: civilOfDay_def Let_def)
  have "0 \<le> ?yd" "?yd < daysInYear y"
    using yearOfDay_bounds [of n] by (simp_all add: y daysBeforeYear_Suc)
  then have *: "1 \<le> m \<and> m \<le> 12 \<and> daysBeforeMonth y m \<le> ?yd \<and> ?yd < daysBeforeMonth y (m + 1)"
    unfolding m by (rule monthOfDay_bounds)
  then show m12: "1 \<le> m" "m \<le> 12" and "1 \<le> d" "d \<le> daysInMonth y m"
    by (simp_all add: d daysInMonth_def)
  show "dayNumber y m d = n" by (simp add: dayNumber_regular [OF m12] d)
qed

lemma dateOf_goDate:
  assumes "1 \<le> m" and "m \<le> 12" and "1 \<le> d" and "d \<le> daysInMonth y m"
  shows "dateOf (goDate y m d) = (y, m, d)"
  by (simp add: dateOf_def goDate_def civilOfDay_dayNumber [OF assms])

lemma dateOf_bounds:
  assumes "dateOf t = (y, m, d)"
  shows "goDate y m d \<le> t" and "t < goDate y m d + Day"
proof -
  have "civilOfDay (t div Day + epochDays) = (y, m, d)" using assms by (simp add: dateOf_def)
  then have "dayNumber y m d = t div Day + epochDays" by (rule civilOfDay_valid(5))
  then have "goDate y m d = (t div Day) * Day" by (simp add: goDate_def)
  then show "goDate y m d \<le> t" "t < goDate y m d + Day"
    using div_bounds [of Day t] by (simp_all add: mult.commute)
qed

lemma goDate_mod_Day [simp]: "goDate y m d mod Day = 0"
  by (simp add: goDate_def)

lemma goDate_mono_day: "goDate y m d < goDate y m d' \<longleftrightarrow> d < d'"
  by (simp add: goDate_def dayNumber_def Let_def)

end
