(* ===== verification/Key_Pool.thy ===== *)
theory Key_Pool
  imports Go_Http Go_Time "HOL-Library.Product_Lexorder"
begin

text \<open>
  keys.go: the pool of API keys. The struct \<open>KeyPool\<close> is the record \<open>key_pool\<close>, its parallel
  slices lists of one length; every method runs under the pool's mutex, so each is one function on
  the state. \<open>time.Now()\<close> is an argument. \<open>slotFree\<close> is the buffered size-1 channel, modelled by
  whether it holds its token.
\<close>

section \<open>State\<close>

record keyStat =
  Success :: int
  Exhausted :: int
  RateLimited :: int
  Auth :: int
  Retries :: int

record key_pool =
  keys :: "string list"
  cursor :: int
  stats :: "keyStat list"
  disabled :: "bool list"
  disabledUntil :: "gotime list"
  remainingCredits :: "int list"
  lowThreshold :: int
  stopThreshold :: int
  cooldownUntil :: "gotime list"
  maxConcurrent :: int
  inFlight :: "int list"
  slotFree :: bool

definition zeroStat :: keyStat where
  "zeroStat = \<lparr>Success = 0, Exhausted = 0, RateLimited = 0, Auth = 0, Retries = 0\<rparr>"

definition NewKeyPool :: "string list \<Rightarrow> key_pool" where
  "NewKeyPool ks =
     \<lparr>keys = ks, cursor = 0,
      stats = replicate (length ks) zeroStat,
      disabled = replicate (length ks) False,
      disabledUntil = replicate (length ks) zeroTime,
      remainingCredits = replicate (length ks) MaxInt64,
      lowThreshold = 0, stopThreshold = 0,
      cooldownUntil = replicate (length ks) zeroTime,
      maxConcurrent = 0,
      inFlight = replicate (length ks) 0,
      slotFree = False\<rparr>"

definition SetThresholds :: "int \<Rightarrow> int \<Rightarrow> key_pool \<Rightarrow> key_pool" where
  "SetThresholds low stop p = p\<lparr>lowThreshold := low, stopThreshold := stop\<rparr>"

definition SetMaxConcurrent :: "int \<Rightarrow> key_pool \<Rightarrow> key_pool" where
  "SetMaxConcurrent n p = p\<lparr>maxConcurrent := (if n < 0 then 0 else n)\<rparr>"

section \<open>In-flight slots\<close>

definition hasSlotLocked :: "key_pool \<Rightarrow> nat \<Rightarrow> bool" where
  "hasSlotLocked p i \<longleftrightarrow> maxConcurrent p \<le> 0 \<or> inFlight p ! i < maxConcurrent p"

definition anySlotFreeLocked :: "key_pool \<Rightarrow> bool" where
  "anySlotFreeLocked p \<longleftrightarrow> list_ex (hasSlotLocked p) [0..<length (keys p)]"

definition TryAcquire :: "int \<Rightarrow> key_pool \<Rightarrow> bool \<times> key_pool" where
  "TryAcquire i p =
     (if maxConcurrent p \<le> 0 then (True, p)
      else if i < 0 \<or> int (length (keys p)) \<le> i \<or> maxConcurrent p \<le> inFlight p ! nat i then (False, p)
      else (True, p\<lparr>inFlight := (inFlight p)[nat i := wrap64 (inFlight p ! nat i + 1)]\<rparr>))"

definition Release :: "int \<Rightarrow> key_pool \<Rightarrow> key_pool" where
  "Release i p =
     (if maxConcurrent p \<le> 0 then p
      else
        let p1 = (if 0 \<le> i \<and> i < int (length (keys p)) \<and> 0 < inFlight p ! nat i
                  then p\<lparr>inFlight := (inFlight p)[nat i := inFlight p ! nat i - 1]\<rparr> else p)
        in p1\<lparr>slotFree := True\<rparr>)"

section \<open>Selection\<close>

definition rotateCooldown :: duration where
  "rotateCooldown = 30 * Second"

text \<open>The loop variables of \<open>currentLocked\<close>, one pair per tier.\<close>

record scan =
  best :: int
  bestCredits :: int
  fallbackSlot :: int
  fbSlotCredits :: int
  fallbackAny :: int
  fbAnyCredits :: int

definition scanInit :: scan where
  "scanInit = \<lparr>best = -1, bestCredits = -1, fallbackSlot = -1, fbSlotCredits = -1,
     fallbackAny = -1, fbAnyCredits = -1\<rparr>"

definition scanKey :: "key_pool \<Rightarrow> gotime \<Rightarrow> nat \<Rightarrow> scan \<Rightarrow> scan" where
  "scanKey p now i a =
     (if disabled p ! i then a
      else let rc = remainingCredits p ! i in
        if rc < stopThreshold p then a
        else let a1 = (if fbAnyCredits a < rc then a\<lparr>fbAnyCredits := rc, fallbackAny := int i\<rparr> else a) in
          if \<not> hasSlotLocked p i then a1
          else let a2 = (if fbSlotCredits a1 < rc then a1\<lparr>fbSlotCredits := rc, fallbackSlot := int i\<rparr> else a1) in
            if \<not> isZero (cooldownUntil p ! i) \<and> now < cooldownUntil p ! i then a2
            else if bestCredits a2 < rc then a2\<lparr>bestCredits := rc, best := int i\<rparr> else a2)"

definition currentLocked :: "gotime \<Rightarrow> key_pool \<Rightarrow> (int \<times> string) \<times> key_pool" where
  "currentLocked now p =
     (let a = fold (scanKey p now) [0..<length (keys p)] scanInit;
          b1 = (if best a < 0 then fallbackSlot a else best a);
          b2 = (if b1 < 0 then fallbackAny a else b1)
      in if 0 \<le> b2 then ((b2, keys p ! nat b2), p\<lparr>cursor := b2\<rparr>) else ((-1, []), p))"

definition Current :: "gotime \<Rightarrow> key_pool \<Rightarrow> (int \<times> string) \<times> key_pool" where
  "Current now p = currentLocked now p"

definition Advance :: "gotime \<Rightarrow> key_pool \<Rightarrow> (int \<times> string) \<times> key_pool" where
  "Advance now p =
     currentLocked now
       (if 0 \<le> cursor p \<and> cursor p < int (length (cooldownUntil p))
        then p\<lparr>cooldownUntil := (cooldownUntil p)[nat (cursor p) := now + rotateCooldown]\<rparr> else p)"

definition retryAfterSeconds :: "header \<Rightarrow> int" where
  "retryAfterSeconds h =
     (if h = [] then 0
      else let v = trimSpace (hdrGet h ''Retry-After'') in
        if v = [] then 0
        else (case atoi v of
            None \<Rightarrow> 0
          | Some n \<Rightarrow> if n \<le> 0 then 0 else if 3600 < n then 3600 else n))"

definition AdvanceAfter :: "header \<Rightarrow> gotime \<Rightarrow> key_pool \<Rightarrow> (int \<times> string) \<times> key_pool" where
  "AdvanceAfter h now p =
     currentLocked now
       (if 0 \<le> cursor p \<and> cursor p < int (length (cooldownUntil p))
        then
          let s = retryAfterSeconds h;
              want = durMul s Second;
              d = (if 0 < s \<and> rotateCooldown < want then want else rotateCooldown)
          in p\<lparr>cooldownUntil := (cooldownUntil p)[nat (cursor p) := now + d]\<rparr>
        else p)"

section \<open>Counters and credits\<close>

definition RecordSuccess :: "int \<Rightarrow> key_pool \<Rightarrow> key_pool" where
  "RecordSuccess i p =
     (if 0 \<le> i \<and> i < int (length (stats p))
      then
        let p1 = p\<lparr>stats := (stats p)[nat i := (stats p ! nat i)\<lparr>Success := wrap64 (Success (stats p ! nat i) + 1)\<rparr>]\<rparr>
        in if i < int (length (cooldownUntil p1))
           then p1\<lparr>cooldownUntil := (cooldownUntil p1)[nat i := zeroTime]\<rparr> else p1
      else p)"

text \<open>\<open>None\<close> is a panic: an unknown kind, or an index outside the slice.\<close>

definition bumpStat :: "string \<Rightarrow> keyStat \<Rightarrow> keyStat option" where
  "bumpStat kind s =
     (if kind = ''exhausted'' then Some (s\<lparr>Exhausted := wrap64 (Exhausted s + 1)\<rparr>)
      else if kind = ''rate'' then Some (s\<lparr>RateLimited := wrap64 (RateLimited s + 1)\<rparr>)
      else if kind = ''auth'' then Some (s\<lparr>Auth := wrap64 (Auth s + 1)\<rparr>)
      else if kind = ''retry'' then Some (s\<lparr>Retries := wrap64 (Retries s + 1)\<rparr>)
      else None)"

definition RecordRejection :: "int \<Rightarrow> string \<Rightarrow> key_pool \<Rightarrow> key_pool option" where
  "RecordRejection i kind p =
     (if ix_ok i (stats p)
      then map_option (\<lambda>s. p\<lparr>stats := (stats p)[nat i := s]\<rparr>) (bumpStat kind (stats p ! nat i))
      else None)"

definition Decrement :: "int \<Rightarrow> int \<Rightarrow> key_pool \<Rightarrow> key_pool" where
  "Decrement i cost p =
     (if i < 0 \<or> int (length (keys p)) \<le> i then p
      else let cost' = (if cost \<le> 0 then 1 else cost); rc = remainingCredits p ! nat i in
        if rc = MaxInt64 then p
        else let rc' = wrap64 (rc - cost'); rc'' = (if rc' < 0 then 0 else rc')
          in p\<lparr>remainingCredits := (remainingCredits p)[nat i := rc'']\<rparr>)"

definition PredictedRemaining :: "int \<Rightarrow> key_pool \<Rightarrow> int" where
  "PredictedRemaining i p =
     (if i < 0 \<or> int (length (remainingCredits p)) \<le> i then -1
      else let rc = remainingCredits p ! nat i in if rc = MaxInt64 then -1 else rc)"

definition StopThreshold :: "key_pool \<Rightarrow> int" where
  "StopThreshold p = stopThreshold p"

definition SetCredits :: "int \<Rightarrow> int \<Rightarrow> key_pool \<Rightarrow> key_pool" where
  "SetCredits i credits p =
     (if i < 0 \<or> int (length (keys p)) \<le> i then p
      else p\<lparr>remainingCredits := (remainingCredits p)[nat i := (if credits < 0 then 0 else credits)]\<rparr>)"

definition Disable :: "int \<Rightarrow> gotime \<Rightarrow> key_pool \<Rightarrow> key_pool" where
  "Disable i until p =
     (if i < 0 \<or> int (length (keys p)) \<le> i then p
      else
        let p1 = p\<lparr>disabled := (disabled p)[nat i := True], disabledUntil := (disabledUntil p)[nat i := until]\<rparr>
        in if remainingCredits p1 ! nat i \<noteq> MaxInt64
           then p1\<lparr>remainingCredits := (remainingCredits p1)[nat i := 0]\<rparr> else p1)"

definition AnyUsable :: "key_pool \<Rightarrow> bool" where
  "AnyUsable p \<longleftrightarrow>
     list_ex (\<lambda>i. \<not> disabled p ! i \<and> stopThreshold p \<le> remainingCredits p ! i) [0..<length (keys p)]"

definition dueAt :: "gotime \<Rightarrow> nat \<Rightarrow> key_pool \<Rightarrow> bool" where
  "dueAt now i p \<longleftrightarrow> disabled p ! i \<and> \<not> isZero (disabledUntil p ! i) \<and> \<not> now < disabledUntil p ! i"

definition reenableKey :: "gotime \<Rightarrow> nat \<Rightarrow> key_pool \<times> int \<Rightarrow> key_pool \<times> int" where
  "reenableKey now i = (\<lambda>(p, n).
     if dueAt now i p
     then (p\<lparr>disabled := (disabled p)[i := False], disabledUntil := (disabledUntil p)[i := zeroTime],
             remainingCredits := (remainingCredits p)[i := MaxInt64]\<rparr>, n + 1)
     else (p, n))"

definition ReenableDue :: "gotime \<Rightarrow> key_pool \<Rightarrow> key_pool \<times> int" where
  "ReenableDue now p = fold (reenableKey now) [0..<length (disabled p)] (p, 0)"

section \<open>Snapshots\<close>

record keySnapshot =
  sIndex :: int
  sLast4 :: string
  sStats :: keyStat
  sDisabled :: bool
  sDisabledUntil :: gotime
  sRemainingCredits :: int

record PoolSnapshot =
  PoolSize :: int
  CurrentIndex :: int
  Keys :: "keySnapshot list"

definition maskKey :: "string \<Rightarrow> string" where
  "maskKey k = (if length k \<le> 4 then k else drop (length k - 4) k)"

definition snapshotKey :: "key_pool \<Rightarrow> nat \<Rightarrow> keySnapshot" where
  "snapshotKey p i =
     \<lparr>sIndex = int i, sLast4 = maskKey (keys p ! i), sStats = stats p ! i, sDisabled = disabled p ! i,
      sDisabledUntil = (if disabled p ! i then disabledUntil p ! i else zeroTime),
      sRemainingCredits = (if remainingCredits p ! i = MaxInt64 then -1 else remainingCredits p ! i)\<rparr>"

definition Snapshot :: "key_pool \<Rightarrow> PoolSnapshot" where
  "Snapshot p =
     \<lparr>PoolSize = int (length (keys p)), CurrentIndex = cursor p,
      Keys = map (snapshotKey p) [0..<length (keys p)]\<rparr>"

end
