(* ===== verification/Pool_Selection.thy ===== *)
theory Pool_Selection
  imports Key_Pool
begin

text \<open>
  What \<open>currentLocked\<close> promises: the one pass over the keys that maintains three running maxima
  picks the greatest candidate of a linear order: a lower tier first, then more credits, then the
  lower index. Tier 1 is a key with a free slot that is not cooling down, tier 2 one with a free
  slot, tier 3 any other usable key.
\<close>

section \<open>The specification\<close>

definition usable :: "key_pool \<Rightarrow> nat \<Rightarrow> bool" where
  "usable p i \<longleftrightarrow> \<not> disabled p ! i \<and> stopThreshold p \<le> remainingCredits p ! i"

definition cooling :: "key_pool \<Rightarrow> gotime \<Rightarrow> nat \<Rightarrow> bool" where
  "cooling p now i \<longleftrightarrow> \<not> isZero (cooldownUntil p ! i) \<and> now < cooldownUntil p ! i"

definition tierOf :: "key_pool \<Rightarrow> gotime \<Rightarrow> nat \<Rightarrow> nat" where
  "tierOf p now i = (if \<not> hasSlotLocked p i then 3 else if cooling p now i then 2 else 1)"

datatype candidate = Candidate (cTier: nat) (cCredits: int) (cIndex: nat)

definition candRank :: "candidate \<Rightarrow> int \<times> int \<times> int" where
  "candRank c = (- int (cTier c), cCredits c, - int (cIndex c))"

lemma candRank_inject: "candRank a = candRank b \<longleftrightarrow> a = b"
  by (cases a; cases b) (auto simp: candRank_def)

instantiation candidate :: linorder
begin

definition less_eq_candidate :: "candidate \<Rightarrow> candidate \<Rightarrow> bool" where
  "less_eq_candidate a b \<longleftrightarrow> candRank a \<le> candRank b"

definition less_candidate :: "candidate \<Rightarrow> candidate \<Rightarrow> bool" where
  "less_candidate a b \<longleftrightarrow> candRank a < candRank b"

instance
  by intro_classes
    (auto simp: less_eq_candidate_def less_candidate_def candRank_inject [symmetric] intro: order.trans)

end

definition candidateOf :: "key_pool \<Rightarrow> gotime \<Rightarrow> nat \<Rightarrow> candidate" where
  "candidateOf p now i = Candidate (tierOf p now i) (remainingCredits p ! i) i"

definition candidates :: "key_pool \<Rightarrow> gotime \<Rightarrow> candidate list" where
  "candidates p now = map (candidateOf p now) (filter (usable p) [0..<length (keys p)])"

definition selectSpec :: "key_pool \<Rightarrow> gotime \<Rightarrow> int" where
  "selectSpec p now =
     (case candidates p now of [] \<Rightarrow> -1 | c # cs \<Rightarrow> int (cIndex (Max (set (c # cs)))))"

lemma candidate_leI:
  assumes "cTier b < cTier a \<or> (cTier b = cTier a \<and>
    (cCredits a < cCredits b \<or> (cCredits a = cCredits b \<and> cIndex b \<le> cIndex a)))"
  shows "a \<le> b"
  using assms by (auto simp: less_eq_candidate_def candRank_def)

section \<open>The loop is three independent maxima\<close>

definition argmaxStep :: "(nat \<Rightarrow> bool) \<Rightarrow> (nat \<Rightarrow> int) \<Rightarrow> nat \<Rightarrow> int \<times> int \<Rightarrow> int \<times> int" where
  "argmaxStep P f i b = (if P i \<and> snd b < f i then (int i, f i) else b)"

definition argmax :: "(nat \<Rightarrow> bool) \<Rightarrow> (nat \<Rightarrow> int) \<Rightarrow> nat \<Rightarrow> int" where
  "argmax P f n = fst (fold (argmaxStep P f) [0..<n] (-1, -1))"

lemma fold_commute_view:
  assumes "\<And>x a. v (g x a) = h x (v a)"
  shows "v (fold g xs a) = fold h xs (v a)"
  using assms by (induction xs arbitrary: a) simp_all

lemma scan_any:
  "(fallbackAny (fold (scanKey p now) is a), fbAnyCredits (fold (scanKey p now) is a)) =
   fold (argmaxStep (usable p) ((!) (remainingCredits p))) is (fallbackAny a, fbAnyCredits a)"
  by (rule fold_commute_view [where v = "\<lambda>a. (fallbackAny a, fbAnyCredits a)"])
    (simp add: scanKey_def Let_def argmaxStep_def usable_def)

lemma scan_slot:
  "(fallbackSlot (fold (scanKey p now) is a), fbSlotCredits (fold (scanKey p now) is a)) =
   fold (argmaxStep (\<lambda>i. usable p i \<and> hasSlotLocked p i) ((!) (remainingCredits p))) is
     (fallbackSlot a, fbSlotCredits a)"
  by (rule fold_commute_view [where v = "\<lambda>a. (fallbackSlot a, fbSlotCredits a)"])
    (simp add: scanKey_def Let_def argmaxStep_def usable_def)

lemma scan_best:
  "(best (fold (scanKey p now) is a), bestCredits (fold (scanKey p now) is a)) =
   fold (argmaxStep (\<lambda>i. usable p i \<and> hasSlotLocked p i \<and> \<not> cooling p now i)
     ((!) (remainingCredits p))) is (best a, bestCredits a)"
  by (rule fold_commute_view [where v = "\<lambda>a. (best a, bestCredits a)"])
    (simp add: scanKey_def Let_def argmaxStep_def usable_def cooling_def)

lemma argmax_fold:
  assumes "\<forall>i<n. P i \<longrightarrow> 0 \<le> f i"
  shows "(fold (argmaxStep P f) [0..<n] (-1, -1) = (-1, -1) \<and> (\<forall>i<n. \<not> P i)) \<or>
    (\<exists>j<n. fold (argmaxStep P f) [0..<n] (-1, -1) = (int j, f j) \<and> P j \<and>
       (\<forall>i<n. P i \<longrightarrow> f i < f j \<or> (f i = f j \<and> j \<le> i)))"
  using assms
proof (induction n)
  case (Suc n)
  then have IH: "(fold (argmaxStep P f) [0..<n] (-1, -1) = (-1, -1) \<and> (\<forall>i<n. \<not> P i)) \<or>
    (\<exists>j<n. fold (argmaxStep P f) [0..<n] (-1, -1) = (int j, f j) \<and> P j \<and>
       (\<forall>i<n. P i \<longrightarrow> f i < f j \<or> (f i = f j \<and> j \<le> i)))"
    by auto
  then show ?case
  proof (elim disjE)
    assume *: "fold (argmaxStep P f) [0..<n] (-1, -1) = (-1, -1) \<and> (\<forall>i<n. \<not> P i)"
    show ?thesis
    proof (cases "P n")
      case True
      with Suc.prems have "0 \<le> f n" by auto
      with True * have "fold (argmaxStep P f) [0..<Suc n] (-1, -1) = (int n, f n)"
        by (simp add: argmaxStep_def)
      with True * show ?thesis by (auto simp: less_Suc_eq intro!: exI [of _ n])
    next
      case False
      with * have "fold (argmaxStep P f) [0..<Suc n] (-1, -1) = (-1, -1)"
        by (simp add: argmaxStep_def)
      with * False show ?thesis by (simp add: less_Suc_eq del: upt_Suc)
    qed
  next
    assume "\<exists>j<n. fold (argmaxStep P f) [0..<n] (-1, -1) = (int j, f j) \<and> P j \<and>
       (\<forall>i<n. P i \<longrightarrow> f i < f j \<or> (f i = f j \<and> j \<le> i))"
    then obtain j where j: "j < n" "fold (argmaxStep P f) [0..<n] (-1, -1) = (int j, f j)" "P j"
      and max: "\<And>i. i < n \<Longrightarrow> P i \<Longrightarrow> f i < f j \<or> (f i = f j \<and> j \<le> i)" by blast
    show ?thesis
    proof (cases "P n \<and> f j < f n")
      case True
      with j have "fold (argmaxStep P f) [0..<Suc n] (-1, -1) = (int n, f n)"
        by (simp add: argmaxStep_def)
      moreover have "f i < f n \<or> (f i = f n \<and> n \<le> i)" if "i < Suc n" "P i" for i
        using max [of i] that True by (cases "i = n") auto
      ultimately show ?thesis using True by blast
    next
      case False
      with j have "fold (argmaxStep P f) [0..<Suc n] (-1, -1) = (int j, f j)"
        by (auto simp: argmaxStep_def)
      moreover have "f i < f j \<or> (f i = f j \<and> j \<le> i)" if "i < Suc n" "P i" for i
        using max [of i] that False j by (cases "i = n") auto
      ultimately show ?thesis using j by (auto simp: less_Suc_eq)
    qed
  qed
qed simp

lemma argmax_none:
  assumes "\<forall>i<n. P i \<longrightarrow> 0 \<le> f i"
  shows "argmax P f n < 0 \<longleftrightarrow> (\<forall>i<n. \<not> P i)"
  using argmax_fold [OF assms] by (auto simp: argmax_def)

lemma argmax_minus:
  assumes "\<forall>i<n. P i \<longrightarrow> 0 \<le> f i" and "argmax P f n < 0"
  shows "argmax P f n = -1"
  using argmax_fold [OF assms(1)] assms(2) by (auto simp: argmax_def)

lemma argmax_top:
  assumes "\<forall>i<n. P i \<longrightarrow> 0 \<le> f i" and "0 \<le> argmax P f n"
  shows "\<exists>j<n. argmax P f n = int j \<and> P j \<and> (\<forall>i<n. P i \<longrightarrow> f i < f j \<or> (f i = f j \<and> j \<le> i))"
  using argmax_fold [OF assms(1)] assms(2) by (auto simp: argmax_def)

definition chosen :: "key_pool \<Rightarrow> gotime \<Rightarrow> int" where
  "chosen p now =
     (let n = length (keys p); rc = (!) (remainingCredits p);
          t1 = argmax (\<lambda>i. usable p i \<and> hasSlotLocked p i \<and> \<not> cooling p now i) rc n;
          t2 = argmax (\<lambda>i. usable p i \<and> hasSlotLocked p i) rc n
      in if 0 \<le> t1 then t1 else if 0 \<le> t2 then t2 else argmax (usable p) rc n)"

lemma currentLocked_chosen:
  "currentLocked now p =
     (if 0 \<le> chosen p now then ((chosen p now, keys p ! nat (chosen p now)), p\<lparr>cursor := chosen p now\<rparr>)
      else ((-1, []), p))"
proof -
  let ?a = "fold (scanKey p now) [0..<length (keys p)] scanInit"
  let ?n = "length (keys p)" and ?rc = "(!) (remainingCredits p)"
  have "best ?a = argmax (\<lambda>i. usable p i \<and> hasSlotLocked p i \<and> \<not> cooling p now i) ?rc ?n"
    using arg_cong [where f = fst, OF scan_best [of p now "[0..<?n]" scanInit]]
    by (simp add: argmax_def scanInit_def)
  moreover have "fallbackSlot ?a = argmax (\<lambda>i. usable p i \<and> hasSlotLocked p i) ?rc ?n"
    using arg_cong [where f = fst, OF scan_slot [of p now "[0..<?n]" scanInit]]
    by (simp add: argmax_def scanInit_def)
  moreover have "fallbackAny ?a = argmax (usable p) ?rc ?n"
    using arg_cong [where f = fst, OF scan_any [of p now "[0..<?n]" scanInit]]
    by (simp add: argmax_def scanInit_def)
  ultimately show ?thesis by (simp add: currentLocked_def chosen_def Let_def)
qed

text \<open>Within a tier the running maximum is the greatest candidate of that tier and all below.\<close>

lemma tier_top:
  assumes nonneg: "\<forall>i<length (keys p). 0 \<le> remainingCredits p ! i"
    and max: "0 \<le> argmax (\<lambda>i. usable p i \<and> Q i) ((!) (remainingCredits p)) (length (keys p))"
    and tier: "\<And>i j. i < length (keys p) \<Longrightarrow> usable p i \<Longrightarrow>
      j < length (keys p) \<Longrightarrow> usable p j \<Longrightarrow> Q j \<Longrightarrow>
      if Q i then tierOf p now i = tierOf p now j else tierOf p now j < tierOf p now i"
  shows "\<exists>j<length (keys p). argmax (\<lambda>i. usable p i \<and> Q i) ((!) (remainingCredits p)) (length (keys p)) = int j \<and>
    usable p j \<and> (\<forall>i<length (keys p). usable p i \<longrightarrow> candidateOf p now i \<le> candidateOf p now j)"
proof -
  have "\<forall>i<length (keys p). usable p i \<and> Q i \<longrightarrow> 0 \<le> remainingCredits p ! i" using nonneg by blast
  from argmax_top [OF this max] obtain j where j: "j < length (keys p)"
    "argmax (\<lambda>i. usable p i \<and> Q i) ((!) (remainingCredits p)) (length (keys p)) = int j" "usable p j" "Q j"
    and m: "\<And>i. i < length (keys p) \<Longrightarrow> usable p i \<and> Q i \<Longrightarrow>
      remainingCredits p ! i < remainingCredits p ! j \<or> (remainingCredits p ! i = remainingCredits p ! j \<and> j \<le> i)"
    by blast
  have "candidateOf p now i \<le> candidateOf p now j" if "i < length (keys p)" "usable p i" for i
    using tier [OF that j(1,3,4)] m [OF that(1)] that
    by (intro candidate_leI) (auto simp: candidateOf_def split: if_splits)
  with j show ?thesis by blast
qed

lemma chosen_none:
  assumes "\<forall>i<length (keys p). 0 \<le> remainingCredits p ! i"
  shows "chosen p now < 0 \<longleftrightarrow> (\<forall>i<length (keys p). \<not> usable p i)"
proof -
  have nn: "\<forall>i<length (keys p). P i \<longrightarrow> 0 \<le> remainingCredits p ! i" for P using assms by blast
  show ?thesis
    unfolding chosen_def Let_def using argmax_none [OF nn]
    by (smt (verit, del_insts))
qed

lemma chosen_top:
  assumes nonneg: "\<forall>i<length (keys p). 0 \<le> remainingCredits p ! i" and "0 \<le> chosen p now"
  shows "\<exists>j<length (keys p). chosen p now = int j \<and> usable p j \<and>
    (\<forall>i<length (keys p). usable p i \<longrightarrow> candidateOf p now i \<le> candidateOf p now j)"
proof -
  let ?n = "length (keys p)" and ?rc = "(!) (remainingCredits p)"
  let ?t1 = "argmax (\<lambda>i. usable p i \<and> hasSlotLocked p i \<and> \<not> cooling p now i) ?rc ?n"
  let ?t2 = "argmax (\<lambda>i. usable p i \<and> hasSlotLocked p i) ?rc ?n"
  let ?t3 = "argmax (\<lambda>i. usable p i \<and> True) ?rc ?n"
  have nn: "\<forall>i<?n. P i \<longrightarrow> 0 \<le> ?rc i" for P using nonneg by blast
  consider (1) "0 \<le> ?t1" | (2) "?t1 < 0" "0 \<le> ?t2" | (3) "?t1 < 0" "?t2 < 0" by linarith
  then show ?thesis
  proof cases
    case 1
    then have "chosen p now = ?t1" by (simp add: chosen_def)
    with tier_top [OF nonneg 1, of now] show ?thesis by (simp add: tierOf_def)
  next
    case 2
    then have "chosen p now = ?t2" by (simp add: chosen_def)
    moreover have "\<forall>i<?n. usable p i \<and> hasSlotLocked p i \<longrightarrow> cooling p now i"
      using 2 argmax_none [OF nn] by auto
    ultimately show ?thesis using tier_top [OF nonneg 2(2), of now] by (auto simp: tierOf_def)
  next
    case 3
    then have c: "chosen p now = ?t3" by (simp add: chosen_def)
    with assms have t3: "0 \<le> ?t3" by simp
    have "\<forall>i<?n. usable p i \<longrightarrow> \<not> hasSlotLocked p i"
      using 3 argmax_none [OF nn] by auto
    with c tier_top [OF nonneg t3, of now] show ?thesis by (simp add: tierOf_def)
  qed
qed

lemma chosen_spec:
  assumes nonneg: "\<forall>i<length (keys p). 0 \<le> remainingCredits p ! i"
  shows "chosen p now = selectSpec p now"
proof (cases "0 \<le> chosen p now")
  case True
  then obtain j where j: "j < length (keys p)" "chosen p now = int j" "usable p j"
    and top: "\<forall>i<length (keys p). usable p i \<longrightarrow> candidateOf p now i \<le> candidateOf p now j"
    using chosen_top [OF nonneg] by blast
  have "Max (set (candidates p now)) = candidateOf p now j"
    by (rule Max_eqI) (use j top in \<open>auto simp: candidates_def\<close>)
  moreover have "candidates p now \<noteq> []"
    using j by (auto simp: candidates_def filter_empty_conv)
  ultimately show ?thesis
    using j by (cases "candidates p now") (simp_all add: selectSpec_def candidateOf_def)
next
  case False
  then have none: "\<forall>i<length (keys p). \<not> usable p i" using chosen_none [OF nonneg, of now] by simp
  then have "candidates p now = []" by (auto simp: candidates_def filter_empty_conv)
  moreover have "chosen p now = -1"
    using False argmax_minus [of "length (keys p)" "usable p" "(!) (remainingCredits p)"] nonneg
    by (auto simp: chosen_def Let_def split: if_splits)
  ultimately show ?thesis by (simp add: selectSpec_def)
qed

end
