(* ===== verification/Pool_Interfaces.thy ===== *)
theory Pool_Interfaces
  imports Prelude
begin

text \<open>
  The contracts under which other components use the key pool: a counter of in-flight slots
  (acquired by a request, released on every path) and a credit account (charged per response).
  The clients' arguments are proved here once, from the laws alone.
\<close>

section \<open>In-flight slots\<close>

locale slot_counter =
  fixes acquire :: "int \<Rightarrow> 's \<Rightarrow> bool \<times> 's"
    and release :: "int \<Rightarrow> 's \<Rightarrow> 's"
    and held :: "'s \<Rightarrow> int \<Rightarrow> int"
    and limit :: "'s \<Rightarrow> int"
    and ok :: "'s \<Rightarrow> bool"
  assumes acquire_held: "ok s \<Longrightarrow> 0 < limit s \<Longrightarrow> acquire i s = (True, s') \<Longrightarrow>
      held s i < limit s \<and> held s' = (held s)(i := held s i + 1)"
    and acquire_unlimited: "ok s \<Longrightarrow> limit s \<le> 0 \<Longrightarrow> acquire i s = (True, s)"
    and acquire_refused: "acquire i s = (False, s') \<Longrightarrow> s' = s"
    and acquire_ok: "ok s \<Longrightarrow> acquire i s = (b, s') \<Longrightarrow> ok s' \<and> limit s' = limit s"
    and release_held: "ok s \<Longrightarrow> 0 < limit s \<Longrightarrow> 0 < held s i \<Longrightarrow>
      held (release i s) = (held s)(i := held s i - 1)"
    and release_unlimited: "ok s \<Longrightarrow> limit s \<le> 0 \<Longrightarrow> release i s = s"
    and release_ok: "ok s \<Longrightarrow> ok (release i s) \<and> limit (release i s) = limit s"
    and held_nonneg: "ok s \<Longrightarrow> 0 \<le> held s i"
begin

text \<open>
  Acquire, any work that leaves the count alone, release: the count is what it was. This is the
  client's deferred release.
\<close>

lemma bracket:
  assumes ok: "ok s" and acq: "acquire i s = (True, s1)"
    and body: "ok s2" "held s2 = held s1" "limit s2 = limit s1"
  shows "held (release i s2) = held s"
proof (cases "0 < limit s")
  case True
  have l: "limit s1 = limit s" using acquire_ok [OF ok acq] by blast
  have h1: "held s1 = (held s)(i := held s i + 1)" using acquire_held [OF ok True acq] by blast
  then have "0 < held s2 i" using body held_nonneg [OF ok, of i] by simp
  then have "held (release i s2) = (held s2)(i := held s2 i - 1)"
    using release_held [of s2 i] body l True by simp
  with h1 body show ?thesis by (simp add: fun_eq_iff)
next
  case False
  then have "s1 = s" using acquire_unlimited [OF ok, of i] acq by simp
  with body False show ?thesis using release_unlimited [of s2 i] by simp
qed

lemma acquired_below_limit:
  "ok s \<Longrightarrow> 0 < limit s \<Longrightarrow> acquire i s = (True, s') \<Longrightarrow> held s' i \<le> limit s"
  using acquire_held [of s i s'] by auto

end

section \<open>Credit accounts\<close>

locale credit_account =
  fixes charge :: "int \<Rightarrow> 'c \<Rightarrow> 's \<Rightarrow> 's"
    and cost :: "'c \<Rightarrow> int"
    and balance :: "'s \<Rightarrow> int \<Rightarrow> int"
    and measured :: "'s \<Rightarrow> int \<Rightarrow> bool"
  assumes charge_balance: "measured s i \<Longrightarrow> measured (charge i c s) i \<and>
      balance (charge i c s) i = max 0 (balance s i - max 1 (cost c))"
    and charge_other: "i \<noteq> j \<Longrightarrow> balance (charge i c s) j = balance s j"
begin

definition charges :: "int \<Rightarrow> 'c list \<Rightarrow> 's \<Rightarrow> 's" where
  "charges i cs s = fold (charge i) cs s"

definition total :: "'c list \<Rightarrow> int" where
  "total cs = sum_list (map (\<lambda>c. max 1 (cost c)) cs)"

lemma total_length: "int (length cs) \<le> total cs"
  by (induction cs) (auto simp: total_def)

lemma charges_measured: "measured s i \<Longrightarrow> measured (charges i cs s) i"
  unfolding charges_def by (induction cs arbitrary: s) (simp_all add: charge_balance)

lemma charges_other: "i \<noteq> j \<Longrightarrow> balance (charges i cs s) j = balance s j"
  unfolding charges_def by (induction cs arbitrary: s) (simp_all add: charge_other)

lemma charges_balance:
  "measured s i \<Longrightarrow> 0 \<le> balance s i \<Longrightarrow> balance (charges i cs s) i = max 0 (balance s i - total cs)"
proof (induction cs arbitrary: s)
  case (Cons c cs)
  have "balance (charges i (c # cs) s) i = max 0 (balance (charge i c s) i - total cs)"
    using Cons charge_balance [of s i c] by (simp add: charges_def)
  moreover have "0 \<le> total cs" using total_length [of cs] by simp
  moreover have "total (c # cs) = max 1 (cost c) + total cs" by (simp add: total_def)
  ultimately show ?case using charge_balance [OF Cons.prems(1), of c] by auto
qed (simp add: charges_def total_def)

text \<open>
  A key that served while its balance was at least \<open>floor\<close> before each charge has served at most
  \<open>balance - floor + 1\<close> times.
\<close>

lemma served_bound:
  assumes "measured s i" and "0 < floor"
    and served: "\<forall>k<length cs. floor \<le> balance (charges i (take k cs) s) i"
  shows "int (length cs) \<le> max 0 (balance s i - floor + 1)"
proof (cases cs rule: rev_cases)
  case (snoc ds d)
  have "floor \<le> balance s i" using served snoc by (auto simp: charges_def dest: spec [of _ 0])
  then have pos: "0 \<le> balance s i" using assms(2) by simp
  have "floor \<le> balance (charges i ds s) i"
    using served snoc by (auto dest: spec [of _ "length ds"])
  then have "floor \<le> balance s i - total ds"
    using charges_balance [OF assms(1) pos, of ds] assms(2) by simp
  with total_length [of ds] snoc show ?thesis by simp
qed simp

end

end
