(* ===== verification/Pool_Laws.thy ===== *)
theory Pool_Laws
  imports Pool_Selection Pool_Interfaces
begin

text \<open>
  The pool's invariant, its preservation by every operation and by every interleaving of
  operations, and the pool as a provider of the slot and credit contracts.
\<close>

section \<open>The invariant\<close>

definition stat_ok :: "keyStat \<Rightarrow> bool" where
  "stat_ok s \<longleftrightarrow> in64 (Success s) \<and> in64 (Exhausted s) \<and> in64 (RateLimited s) \<and> in64 (Auth s) \<and> in64 (Retries s)"

definition credits_ok :: "int \<Rightarrow> bool" where
  "credits_ok c \<longleftrightarrow> 0 \<le> c \<and> c \<le> MaxInt64"

definition flight_ok :: "int \<Rightarrow> int \<Rightarrow> bool" where
  "flight_ok cap f \<longleftrightarrow> 0 \<le> f \<and> (0 < cap \<longrightarrow> f \<le> cap) \<and> f \<le> MaxInt64"

definition pool_wf :: "key_pool \<Rightarrow> bool" where
  "pool_wf p \<longleftrightarrow>
     (let n = length (keys p) in
       length (stats p) = n \<and> length (disabled p) = n \<and> length (disabledUntil p) = n \<and>
       length (remainingCredits p) = n \<and> length (cooldownUntil p) = n \<and> length (inFlight p) = n \<and>
       list_all stat_ok (stats p) \<and>
       list_all credits_ok (remainingCredits p) \<and>
       list_all (flight_ok (maxConcurrent p)) (inFlight p) \<and>
       0 \<le> maxConcurrent p \<and> maxConcurrent p \<le> MaxInt64 \<and>
       0 \<le> cursor p \<and> (0 < n \<longrightarrow> cursor p < int n))"

lemma pool_wf_lengths:
  assumes "pool_wf p"
  shows "length (stats p) = length (keys p)" "length (disabled p) = length (keys p)"
    "length (disabledUntil p) = length (keys p)" "length (remainingCredits p) = length (keys p)"
    "length (cooldownUntil p) = length (keys p)" "length (inFlight p) = length (keys p)"
  using assms by (simp_all add: pool_wf_def Let_def)

lemma pool_wf_credits:
  assumes "pool_wf p" and "i < length (keys p)"
  shows "0 \<le> remainingCredits p ! i" and "remainingCredits p ! i \<le> MaxInt64"
  using assms by (auto simp: pool_wf_def Let_def list_all_length credits_ok_def)

lemma pool_wf_inFlight:
  assumes "pool_wf p" and "i < length (keys p)"
  shows "0 \<le> inFlight p ! i" "inFlight p ! i \<le> MaxInt64"
    "0 < maxConcurrent p \<Longrightarrow> inFlight p ! i \<le> maxConcurrent p"
  using assms by (auto simp: pool_wf_def Let_def list_all_length flight_ok_def)

lemma NewKeyPool_wf: "pool_wf (NewKeyPool ks)"
  by (auto simp: pool_wf_def NewKeyPool_def Let_def list_all_length stat_ok_def zeroStat_def
      credits_ok_def flight_ok_def in64_def)

section \<open>Selection writes only the cursor\<close>

lemma chosen_range:
  assumes "pool_wf p" and "0 \<le> chosen p now"
  shows "\<exists>j<length (keys p). chosen p now = int j \<and> usable p j"
  using chosen_top [OF _ assms(2)] pool_wf_credits(1) [OF assms(1)] by blast

lemma currentLocked_wf [pool_inv]: "pool_wf p \<Longrightarrow> pool_wf (snd (currentLocked now p))"
  using chosen_range [of p now]
  by (cases "0 \<le> chosen p now") (auto simp: currentLocked_chosen pool_wf_def Let_def)

lemma currentLocked_frame [pool_frame]:
  "keys (snd (currentLocked now p)) = keys p"
  "stats (snd (currentLocked now p)) = stats p"
  "disabled (snd (currentLocked now p)) = disabled p"
  "disabledUntil (snd (currentLocked now p)) = disabledUntil p"
  "remainingCredits (snd (currentLocked now p)) = remainingCredits p"
  "stopThreshold (snd (currentLocked now p)) = stopThreshold p"
  "lowThreshold (snd (currentLocked now p)) = lowThreshold p"
  "cooldownUntil (snd (currentLocked now p)) = cooldownUntil p"
  "maxConcurrent (snd (currentLocked now p)) = maxConcurrent p"
  "inFlight (snd (currentLocked now p)) = inFlight p"
  "slotFree (snd (currentLocked now p)) = slotFree p"
  by (simp_all add: currentLocked_chosen)

section \<open>Every operation keeps the invariant\<close>

lemma pool_wf_cooldown [pool_inv]: "pool_wf p \<Longrightarrow> pool_wf (p\<lparr>cooldownUntil := (cooldownUntil p)[i := t]\<rparr>)"
  by (simp add: pool_wf_def Let_def)

lemma Current_wf [pool_inv]: "pool_wf p \<Longrightarrow> pool_wf (snd (Current now p))"
  by (simp add: Current_def currentLocked_wf)

lemma Advance_wf [pool_inv]: "pool_wf p \<Longrightarrow> pool_wf (snd (Advance now p))"
  unfolding Advance_def by (rule currentLocked_wf) (simp add: pool_wf_cooldown)

lemma AdvanceAfter_wf [pool_inv]: "pool_wf p \<Longrightarrow> pool_wf (snd (AdvanceAfter h now p))"
  unfolding AdvanceAfter_def by (rule currentLocked_wf) (simp add: pool_wf_cooldown Let_def)

lemma TryAcquire_wf [pool_inv]: "pool_wf p \<Longrightarrow> pool_wf (snd (TryAcquire i p))"
  by (auto simp: TryAcquire_def pool_wf_def Let_def flight_ok_def list_all_length nth_list_update)

lemma Release_wf [pool_inv]: "pool_wf p \<Longrightarrow> pool_wf (Release i p)"
  by (auto simp: Release_def pool_wf_def Let_def flight_ok_def list_all_length nth_list_update)

lemma RecordSuccess_wf [pool_inv]: "pool_wf p \<Longrightarrow> pool_wf (RecordSuccess i p)"
  by (auto simp: RecordSuccess_def pool_wf_def Let_def stat_ok_def list_all_length nth_list_update)

lemma bumpStat_ok: "bumpStat kind s = Some s' \<Longrightarrow> stat_ok s \<Longrightarrow> stat_ok s'"
  by (auto simp: bumpStat_def stat_ok_def split: if_splits)

lemma RecordRejection_wf [pool_inv]:
  "pool_wf p \<Longrightarrow> RecordRejection i kind p = Some p' \<Longrightarrow> pool_wf p'"
  by (auto simp: RecordRejection_def ix_ok_def pool_wf_def Let_def list_all_length nth_list_update
      dest: bumpStat_ok split: if_splits)

lemma Decrement_wf [pool_inv]: "pool_wf p \<Longrightarrow> pool_wf (Decrement i cost p)"
  using wrap64_bounds
  by (auto simp: Decrement_def pool_wf_def Let_def credits_ok_def list_all_length nth_list_update)

lemma SetCredits_wf [pool_inv]: "pool_wf p \<Longrightarrow> c \<le> MaxInt64 \<Longrightarrow> pool_wf (SetCredits i c p)"
  by (auto simp: SetCredits_def pool_wf_def Let_def credits_ok_def list_all_length nth_list_update)

lemma Disable_wf [pool_inv]: "pool_wf p \<Longrightarrow> pool_wf (Disable i t p)"
  by (auto simp: Disable_def pool_wf_def Let_def credits_ok_def list_all_length nth_list_update)

lemma reenableKey_wf: "pool_wf (fst pn) \<Longrightarrow> pool_wf (fst (reenableKey now i pn))"
  by (cases pn) (auto simp: reenableKey_def pool_wf_def Let_def credits_ok_def intro: list_all_update)

lemma ReenableDue_wf [pool_inv]: "pool_wf p \<Longrightarrow> pool_wf (fst (ReenableDue now p))"
proof -
  have "pool_wf (fst pn) \<Longrightarrow> pool_wf (fst (fold (reenableKey now) is pn))" for "is" pn
    by (induction "is" arbitrary: pn) (simp_all add: reenableKey_wf)
  then show "pool_wf p \<Longrightarrow> ?thesis" by (simp add: ReenableDue_def)
qed

section \<open>Interleavings of operations\<close>

text \<open>
  The pool is shared by every request in flight and by the background loops; each call runs under
  the mutex, so what the others do between two steps of a request is a list of operations. A value
  of a Go integer type is given by its 64-bit word.
\<close>

datatype pool_op =
    OpCurrent gotime
  | OpAdvance gotime
  | OpAdvanceAfter header gotime
  | OpTryAcquire int
  | OpRelease int
  | OpRecordSuccess int
  | OpRecordRejection int string
  | OpDecrement int "64 word"
  | OpSetCredits int "64 word"
  | OpDisable int gotime
  | OpReenableDue gotime

fun exec_op :: "key_pool \<Rightarrow> pool_op \<Rightarrow> key_pool" where
  "exec_op p (OpCurrent now) = snd (Current now p)"
| "exec_op p (OpAdvance now) = snd (Advance now p)"
| "exec_op p (OpAdvanceAfter h now) = snd (AdvanceAfter h now p)"
| "exec_op p (OpTryAcquire i) = snd (TryAcquire i p)"
| "exec_op p (OpRelease i) = Release i p"
| "exec_op p (OpRecordSuccess i) = RecordSuccess i p"
| "exec_op p (OpRecordRejection i kind) = (case RecordRejection i kind p of None \<Rightarrow> p | Some p' \<Rightarrow> p')"
| "exec_op p (OpDecrement i c) = Decrement i (sint c) p"
| "exec_op p (OpSetCredits i c) = SetCredits i (sint c) p"
| "exec_op p (OpDisable i t) = Disable i t p"
| "exec_op p (OpReenableDue now) = fst (ReenableDue now p)"

abbreviation run_pool :: "pool_op list \<Rightarrow> key_pool \<Rightarrow> key_pool" where
  "run_pool \<equiv> run_ops exec_op"

lemma sint64_le: "sint (c :: 64 word) \<le> MaxInt64"
  using sint_lt [of c] by simp

lemma exec_op_wf: "pool_wf p \<Longrightarrow> pool_wf (exec_op p x)"
  by (cases x) (auto simp: pool_inv sint64_le split: option.split)

text \<open>No operation writes the keys, the thresholds or the concurrency cap.\<close>

definition pool_config :: "key_pool \<Rightarrow> string list \<times> int \<times> int \<times> int" where
  "pool_config p = (keys p, lowThreshold p, stopThreshold p, maxConcurrent p)"

lemma ReenableDue_frame:
  "keys (fst (ReenableDue now p)) = keys p \<and> lowThreshold (fst (ReenableDue now p)) = lowThreshold p \<and>
   stopThreshold (fst (ReenableDue now p)) = stopThreshold p \<and>
   maxConcurrent (fst (ReenableDue now p)) = maxConcurrent p \<and>
   inFlight (fst (ReenableDue now p)) = inFlight p \<and> cursor (fst (ReenableDue now p)) = cursor p \<and>
   cooldownUntil (fst (ReenableDue now p)) = cooldownUntil p"
proof -
  have "keys (fst (fold (reenableKey now) is pn)) = keys (fst pn) \<and>
    lowThreshold (fst (fold (reenableKey now) is pn)) = lowThreshold (fst pn) \<and>
    stopThreshold (fst (fold (reenableKey now) is pn)) = stopThreshold (fst pn) \<and>
    maxConcurrent (fst (fold (reenableKey now) is pn)) = maxConcurrent (fst pn) \<and>
    inFlight (fst (fold (reenableKey now) is pn)) = inFlight (fst pn) \<and>
    cursor (fst (fold (reenableKey now) is pn)) = cursor (fst pn) \<and>
    cooldownUntil (fst (fold (reenableKey now) is pn)) = cooldownUntil (fst pn)" for "is" pn
  proof (induction "is" arbitrary: pn)
    case (Cons i "is")
    then show ?case by (cases pn) (simp add: reenableKey_def)
  qed simp
  then show ?thesis by (simp add: ReenableDue_def)
qed

lemma RecordRejection_frame [pool_frame]:
  "RecordRejection i kind p = Some p' \<Longrightarrow> pool_config p' = pool_config p"
  by (auto simp: RecordRejection_def pool_config_def split: if_splits)

lemma exec_op_config: "pool_config (exec_op p x) = pool_config p"
  by (cases x)
    (auto simp: pool_config_def Current_def Advance_def AdvanceAfter_def TryAcquire_def Release_def
      RecordSuccess_def RecordRejection_def Decrement_def SetCredits_def Disable_def Let_def
      currentLocked_frame ReenableDue_frame split: option.split)

interpretation pool: framed exec_op pool_wf pool_config
  by unfold_locales (simp_all add: exec_op_wf exec_op_config)

text \<open>What \<open>ReenableDue\<close> does to one key.\<close>

lemma reenable_fold_nth:
  assumes "i < length (disabled (fst pn))" and "i < length (disabledUntil (fst pn))"
    and "i < length (remainingCredits (fst pn))"
  shows "let p = fst pn; p' = fst (fold (reenableKey now) is pn); due = i \<in> set is \<and> dueAt now i p in
    length (disabled p') = length (disabled p) \<and>
    disabled p' ! i = (disabled p ! i \<and> \<not> due) \<and>
    disabledUntil p' ! i = (if due then zeroTime else disabledUntil p ! i) \<and>
    remainingCredits p' ! i = (if due then MaxInt64 else remainingCredits p ! i)"
  using assms
proof (induction "is" arbitrary: pn)
  case (Cons k ks)
  obtain p n where pn: "pn = (p, n)" by (cases pn)
  have "i < length (disabled (fst (reenableKey now k pn)))"
    "i < length (disabledUntil (fst (reenableKey now k pn)))"
    "i < length (remainingCredits (fst (reenableKey now k pn)))"
    using Cons.prems by (simp_all add: pn reenableKey_def)
  note IH = Cons.IH [OF this]
  show ?case
    using IH Cons.prems
    by (cases "k = i"; cases "dueAt now k p") (auto simp: pn reenableKey_def dueAt_def Let_def)
qed simp

lemma ReenableDue_nth:
  assumes "pool_wf p" and "i < length (keys p)"
  shows "disabled (fst (ReenableDue now p)) ! i = (disabled p ! i \<and> \<not> dueAt now i p)"
    and "disabledUntil (fst (ReenableDue now p)) ! i = (if dueAt now i p then zeroTime else disabledUntil p ! i)"
    and "remainingCredits (fst (ReenableDue now p)) ! i = (if dueAt now i p then MaxInt64 else remainingCredits p ! i)"
  using reenable_fold_nth [of i "(p, 0)" now "[0..<length (disabled p)]"] assms
  by (simp_all add: ReenableDue_def pool_wf_lengths Let_def)

section \<open>The pool as a slot counter\<close>

definition heldSlots :: "key_pool \<Rightarrow> int \<Rightarrow> int" where
  "heldSlots p i = (if ix_ok i (inFlight p) then inFlight p ! nat i else 0)"

interpretation slots: slot_counter TryAcquire Release heldSlots maxConcurrent pool_wf
proof unfold_locales
  fix p p' :: key_pool and i :: int
  assume wf: "pool_wf p" and lim: "0 < maxConcurrent p"
  note len = pool_wf_lengths [OF wf]
  show "heldSlots p i < maxConcurrent p \<and> heldSlots p' = (heldSlots p)(i := heldSlots p i + 1)"
    if acq: "TryAcquire i p = (True, p')"
  proof -
    from acq lim have i: "0 \<le> i" "i < int (length (keys p))" "inFlight p ! nat i < maxConcurrent p"
      and p': "p' = p\<lparr>inFlight := (inFlight p)[nat i := wrap64 (inFlight p ! nat i + 1)]\<rparr>"
      by (auto simp: TryAcquire_def split: if_splits)
    have "nat i < length (keys p)" using i by simp
    then have "wrap64 (inFlight p ! nat i + 1) = inFlight p ! nat i + 1"
      using pool_wf_inFlight [OF wf, of "nat i"] i wf by (simp add: pool_wf_def Let_def)
    with i p' len show ?thesis
      by (auto simp: heldSlots_def ix_ok_def fun_eq_iff nth_list_update nat_eq_iff)
  qed
  show "heldSlots (Release i p) = (heldSlots p)(i := heldSlots p i - 1)" if "0 < heldSlots p i"
    using that lim len
    by (auto simp: heldSlots_def Release_def ix_ok_def fun_eq_iff nth_list_update nat_eq_iff
        Let_def split: if_splits)
next
  fix p :: key_pool and i :: int
  assume wf: "pool_wf p"
  show "0 \<le> heldSlots p i"
    using pool_wf_inFlight(1) [OF wf, of "nat i"] pool_wf_lengths [OF wf]
    by (auto simp: heldSlots_def ix_ok_def)
qed (auto simp: TryAcquire_def Release_def Let_def split: if_splits
    dest: TryAcquire_wf Release_wf)

section \<open>The pool as a credit account\<close>

definition creditBalance :: "key_pool \<Rightarrow> int \<Rightarrow> int" where
  "creditBalance p i = (if ix_ok i (remainingCredits p) then remainingCredits p ! nat i else 0)"

text \<open>A measured key: a known balance, as after a usage fetch or a seeded budget.\<close>

definition measuredKey :: "key_pool \<Rightarrow> int \<Rightarrow> bool" where
  "measuredKey p i \<longleftrightarrow> pool_wf p \<and> ix_ok i (keys p) \<and> remainingCredits p ! nat i < MaxInt64"

text \<open>The cost is an \<open>int64\<close>, given by its word.\<close>

definition chargeKey :: "int \<Rightarrow> 64 word \<Rightarrow> key_pool \<Rightarrow> key_pool" where
  "chargeKey i c p = Decrement i (sint c) p"

lemma Decrement_exact:
  assumes m: "measuredKey p i" and c: "c \<le> MaxInt64"
  shows "Decrement i c p =
    p\<lparr>remainingCredits := (remainingCredits p)[nat i := max 0 (remainingCredits p ! nat i - max 1 c)]\<rparr>"
proof -
  have i: "0 \<le> i" "i < int (length (keys p))" "nat i < length (keys p)"
    using m by (auto simp: measuredKey_def ix_ok_def)
  have rc: "0 \<le> remainingCredits p ! nat i" "remainingCredits p ! nat i < MaxInt64"
    using m pool_wf_credits [of p "nat i"] i by (auto simp: measuredKey_def)
  have "wrap64 (remainingCredits p ! nat i - max 1 c) = remainingCredits p ! nat i - max 1 c"
    using rc c by simp
  with i rc show ?thesis by (auto simp: Decrement_def Let_def max_def)
qed

interpretation credit: credit_account chargeKey sint creditBalance measuredKey
proof unfold_locales
  fix p :: key_pool and i :: int and c :: "64 word"
  assume m: "measuredKey p i"
  then have i: "nat i < length (remainingCredits p)" "ix_ok i (remainingCredits p)"
    and rc: "0 \<le> remainingCredits p ! nat i" "remainingCredits p ! nat i < MaxInt64"
    using pool_wf_lengths [of p] pool_wf_credits [of p "nat i"]
    by (auto simp: measuredKey_def ix_ok_def)
  note upd = Decrement_exact [OF m sint64_le, of c, folded chargeKey_def]
  have "pool_wf (chargeKey i c p)"
    using m by (simp add: chargeKey_def measuredKey_def Decrement_wf)
  with upd i rc m show "measuredKey (chargeKey i c p) i \<and>
      creditBalance (chargeKey i c p) i = max 0 (creditBalance p i - max 1 (sint c))"
    by (auto simp: measuredKey_def creditBalance_def ix_ok_def)
next
  fix p :: key_pool and i j :: int and c :: "64 word"
  assume "i \<noteq> j"
  then show "creditBalance (chargeKey i c p) j = creditBalance p j"
    by (auto simp: chargeKey_def creditBalance_def Decrement_def Let_def ix_ok_def nth_list_update nat_eq_iff)
qed

end
