(* ===== verification/Slot_Protocol.thy ===== *)
theory Slot_Protocol
  imports Pool_Laws
begin

text \<open>
  The in-flight slots under concurrency (keys.go \<open>TryAcquire\<close>, \<open>Release\<close>, \<open>WaitForSlot\<close>, called by
  \<open>serveOnce\<close> and the queue loop of \<open>ServeHTTP\<close>). A step is one critical section of the pool's
  mutex or one channel operation; \<open>Release\<close> is two of them, the decrement and the send of the token.
  Threads are the requests in flight. Every other pool operation may run between two steps.
\<close>

section \<open>The two halves of Release\<close>

definition releaseSlot :: "int \<Rightarrow> key_pool \<Rightarrow> key_pool" where
  "releaseSlot i p =
     (if 0 \<le> i \<and> i < int (length (keys p)) \<and> 0 < inFlight p ! nat i
      then p\<lparr>inFlight := (inFlight p)[nat i := inFlight p ! nat i - 1]\<rparr> else p)"

definition sendToken :: "key_pool \<Rightarrow> key_pool" where
  "sendToken p = p\<lparr>slotFree := True\<rparr>"

lemma Release_split: "0 < maxConcurrent p \<Longrightarrow> Release i p = sendToken (releaseSlot i p)"
  by (simp add: Release_def releaseSlot_def sendToken_def Let_def)

section \<open>WaitForSlot in one thread\<close>

text \<open>
  What can end a \<open>select\<close>: the token, the timer or the context; \<open>ops\<close> is what the other threads did
  to the pool while this one was blocked. A token event without a token in the channel cannot
  happen and is skipped; the timer always fires, so running out of events is the timer.
\<close>

datatype wakeup = Token | Timer | Done

fun waitLoop :: "(pool_op list \<times> wakeup) list \<Rightarrow> key_pool \<Rightarrow> bool \<times> key_pool" where
  "waitLoop evs p =
     (if anySlotFreeLocked p then (True, p)
      else (case evs of
          [] \<Rightarrow> (False, p)
        | (ops, w) # evs' \<Rightarrow>
            let p' = run_pool ops p in
            (case w of
                Timer \<Rightarrow> (False, p')
              | Done \<Rightarrow> (False, p')
              | Token \<Rightarrow> waitLoop evs' (p'\<lparr>slotFree := False\<rparr>))))"

declare waitLoop.simps [simp del]

definition WaitForSlot :: "(pool_op list \<times> wakeup) list \<Rightarrow> duration \<Rightarrow> key_pool \<Rightarrow> bool \<times> key_pool" where
  "WaitForSlot evs timeout p =
     (if maxConcurrent p \<le> 0 then (True, p)
      else if timeout \<le> 0 then (anySlotFreeLocked p, p)
      else waitLoop evs p)"

lemma slotFree_wf: "pool_wf (p\<lparr>slotFree := b\<rparr>) = pool_wf p"
  by (simp add: pool_wf_def)

lemma waitLoop_wf: "pool_wf p \<Longrightarrow> pool_wf (snd (waitLoop evs p))"
proof (induction evs arbitrary: p)
  case (Cons e es)
  then show ?case
    by (subst waitLoop.simps)
      (auto simp: Let_def slotFree_wf pool.run_inv split: prod.splits wakeup.splits)
qed (subst waitLoop.simps, simp)

lemma WaitForSlot_wf: "pool_wf p \<Longrightarrow> pool_wf (snd (WaitForSlot evs timeout p))"
  by (simp add: WaitForSlot_def waitLoop_wf)

lemma waitLoop_true: "fst (waitLoop evs p) \<Longrightarrow> anySlotFreeLocked (snd (waitLoop evs p))"
proof (induction evs arbitrary: p)
  case (Cons e es)
  from Cons.prems show ?case
    by (subst waitLoop.simps, subst (asm) waitLoop.simps)
      (auto simp: Let_def intro: Cons.IH split: prod.splits wakeup.splits if_splits)
qed (subst waitLoop.simps, subst (asm) waitLoop.simps, simp split: if_splits)

lemma WaitForSlot_true:
  "fst (WaitForSlot evs timeout p) \<Longrightarrow> keys p \<noteq> [] \<Longrightarrow> anySlotFreeLocked (snd (WaitForSlot evs timeout p))"
proof (cases "maxConcurrent p \<le> 0")
  case True
  moreover assume "keys p \<noteq> []"
  ultimately show ?thesis by (auto simp: WaitForSlot_def anySlotFreeLocked_def hasSlotLocked_def list_ex_iff)
next
  case False
  moreover assume "fst (WaitForSlot evs timeout p)"
  ultimately show ?thesis by (auto simp: WaitForSlot_def waitLoop_true split: if_splits)
qed

section \<open>The protocol\<close>

datatype phase =
    Outside
  | Choosing
  | Chosen int
  | Holding int
  | Sending
  | Checking
  | Blocked

record slots_world =
  spool :: key_pool
  threads :: "phase list"

definition atPhase :: "slots_world \<Rightarrow> nat \<Rightarrow> phase \<Rightarrow> bool" where
  "atPhase w t ph \<longleftrightarrow> t < length (threads w) \<and> threads w ! t = ph"

definition goto :: "nat \<Rightarrow> phase \<Rightarrow> key_pool \<Rightarrow> slots_world \<Rightarrow> slots_world" where
  "goto t ph p w = w\<lparr>spool := p, threads := (threads w)[t := ph]\<rparr>"

fun slotOp :: "pool_op \<Rightarrow> bool" where
  "slotOp (OpTryAcquire i) = True"
| "slotOp (OpRelease i) = True"
| "slotOp x = False"

text \<open>
  A thread chooses a key (\<open>Current\<close>), tries to take its slot, holds it while it talks to the
  upstream, and gives it back; refused, it enters \<open>WaitForSlot\<close>: check under the mutex, then the
  select, then check again. A refused request leaves at once in reject mode or when its time in the
  queue is up, and a queued one when its time is up or its client goes away.
\<close>

inductive slot_step :: "slots_world \<Rightarrow> slots_world \<Rightarrow> bool" where
  start: "atPhase w t Outside \<Longrightarrow> slot_step w (goto t Choosing (spool w) w)"
| choose: "atPhase w t Choosing \<Longrightarrow> Current now (spool w) = ((i, k), p) \<Longrightarrow> 0 \<le> i \<Longrightarrow>
    slot_step w (goto t (Chosen i) p w)"
| exhausted: "atPhase w t Choosing \<Longrightarrow> Current now (spool w) = ((i, k), p) \<Longrightarrow> i < 0 \<Longrightarrow>
    slot_step w (goto t Outside p w)"
| acquire: "atPhase w t (Chosen i) \<Longrightarrow> TryAcquire i (spool w) = (True, p) \<Longrightarrow>
    slot_step w (goto t (Holding i) p w)"
| refused: "atPhase w t (Chosen i) \<Longrightarrow> TryAcquire i (spool w) = (False, p) \<Longrightarrow>
    slot_step w (goto t Checking p w)"
| rejected: "atPhase w t (Chosen i) \<Longrightarrow> TryAcquire i (spool w) = (False, p) \<Longrightarrow>
    slot_step w (goto t Outside p w)"
| late: "atPhase w t Checking \<Longrightarrow> slot_step w (goto t Outside (spool w) w)"
| release: "atPhase w t (Holding i) \<Longrightarrow> slot_step w (goto t Sending (releaseSlot i (spool w)) w)"
| send: "atPhase w t Sending \<Longrightarrow> slot_step w (goto t Outside (sendToken (spool w)) w)"
| free: "atPhase w t Checking \<Longrightarrow> anySlotFreeLocked (spool w) \<Longrightarrow>
    slot_step w (goto t Choosing (spool w) w)"
| block: "atPhase w t Checking \<Longrightarrow> \<not> anySlotFreeLocked (spool w) \<Longrightarrow>
    slot_step w (goto t Blocked (spool w) w)"
| wake: "atPhase w t Blocked \<Longrightarrow> slotFree (spool w) \<Longrightarrow>
    slot_step w (goto t Checking ((spool w)\<lparr>slotFree := False\<rparr>) w)"
| give_up: "atPhase w t Blocked \<Longrightarrow> slot_step w (goto t Outside (spool w) w)"
| other: "\<not> slotOp x \<Longrightarrow> slot_step w (w\<lparr>spool := exec_op (spool w) x\<rparr>)"

definition startWorld :: "string list \<Rightarrow> int \<Rightarrow> nat \<Rightarrow> slots_world" where
  "startWorld ks cap n = \<lparr>spool = SetMaxConcurrent cap (NewKeyPool ks), threads = replicate n Outside\<rparr>"

inductive slot_reachable :: "string list \<Rightarrow> int \<Rightarrow> nat \<Rightarrow> slots_world \<Rightarrow> bool" for ks cap n where
  init: "slot_reachable ks cap n (startWorld ks cap n)"
| step: "slot_reachable ks cap n w \<Longrightarrow> slot_step w w' \<Longrightarrow> slot_reachable ks cap n w'"

section \<open>Slots are the threads that hold them\<close>

definition holders :: "slots_world \<Rightarrow> nat \<Rightarrow> nat" where
  "holders w i = count_list (threads w) (Holding (int i))"

fun phase_ok :: "string list \<Rightarrow> phase \<Rightarrow> bool" where
  "phase_ok ks (Chosen i) = ix_ok i ks"
| "phase_ok ks (Holding i) = ix_ok i ks"
| "phase_ok ks ph = True"

definition slots_inv :: "string list \<Rightarrow> int \<Rightarrow> slots_world \<Rightarrow> bool" where
  "slots_inv ks cap w \<longleftrightarrow> pool_wf (spool w) \<and> keys (spool w) = ks \<and> maxConcurrent (spool w) = cap \<and>
     (\<forall>i<length ks. inFlight (spool w) ! i = int (holders w i)) \<and>
     list_all (phase_ok ks) (threads w)"

lemma slots_inv_phase: "slots_inv ks cap w \<Longrightarrow> atPhase w t ph \<Longrightarrow> phase_ok ks ph"
  by (auto simp: slots_inv_def atPhase_def list_all_length)

lemma count_list_update:
  "t < length xs \<Longrightarrow>
   int (count_list (xs[t := y]) x) =
     int (count_list xs x) - (if xs ! t = x then 1 else 0) + (if y = x then 1 else 0)"
  using arg_cong [OF id_take_nth_drop, of t xs "\<lambda>zs. int (count_list zs x)"]
  by (simp add: upd_conv_take_nth_drop)

lemma exec_other_slots:
  "\<not> slotOp x \<Longrightarrow> inFlight (exec_op p x) = inFlight p \<and> slotFree (exec_op p x) = slotFree p"
proof (cases x)
  case (OpReenableDue now)
  have "slotFree (fst (fold (reenableKey now) ks pn)) = slotFree (fst pn)" for ks pn
    by (induction ks arbitrary: pn) (auto simp: reenableKey_def split: prod.splits)
  then show ?thesis using OpReenableDue by (simp add: ReenableDue_frame) (simp add: ReenableDue_def)
qed (auto simp: Current_def Advance_def AdvanceAfter_def RecordSuccess_def RecordRejection_def
    Decrement_def SetCredits_def Disable_def Let_def currentLocked_frame split: option.split)

lemma goto_simps [simp]:
  "spool (goto t ph p w) = p"
  "threads (goto t ph p w) = (threads w)[t := ph]"
  by (simp_all add: goto_def)

lemma holders_goto:
  "t < length (threads w) \<Longrightarrow>
   int (holders (goto t ph p w) i) = int (holders w i)
     - (if threads w ! t = Holding (int i) then 1 else 0) + (if ph = Holding (int i) then 1 else 0)"
  by (simp add: holders_def count_list_update)

text \<open>A move of a thread that neither takes nor gives back a slot.\<close>

lemma slots_inv_move:
  assumes inv: "slots_inv ks cap w" and t: "atPhase w t ph0" and p: "pool_wf p"
    and same: "keys p = keys (spool w)" "maxConcurrent p = maxConcurrent (spool w)"
      "inFlight p = inFlight (spool w)"
    and ph: "\<And>i. ph0 \<noteq> Holding i" "\<And>i. ph \<noteq> Holding i" "phase_ok ks ph"
  shows "slots_inv ks cap (goto t ph p w)"
proof -
  have "holders (goto t ph p w) i = holders w i" for i
    using holders_goto [of t w ph p i] t ph(1,2) by (auto simp: atPhase_def)
  then show ?thesis
    using inv same p ph by (auto simp: slots_inv_def list_all_update)
qed

lemma slots_inv_acquire:
  assumes inv: "slots_inv ks cap w" and t: "atPhase w t (Chosen i)"
    and acq: "TryAcquire i (spool w) = (True, p)" and cap: "0 < cap"
  shows "slots_inv ks cap (goto t (Holding i) p w)"
proof -
  have i: "ix_ok i ks" using slots_inv_phase [OF inv t] by simp
  have wf: "pool_wf (spool w)" using inv by (simp add: slots_inv_def)
  have lim: "0 < maxConcurrent (spool w)" using inv cap by (simp add: slots_inv_def)
  note h = slots.acquire_held [OF wf lim acq] and ok = slots.acquire_ok [OF wf acq]
  have k: "keys p = keys (spool w)" "length (inFlight p) = length (inFlight (spool w))"
    using acq by (auto simp: TryAcquire_def split: if_splits)
  have "inFlight p ! j = int (holders (goto t (Holding i) p w) j)" if j: "j < length ks" for j
  proof -
    have "heldSlots p (int j) = heldSlots (spool w) (int j) + (if int j = i then 1 else 0)"
      using h by simp
    then have "inFlight p ! j = inFlight (spool w) ! j + (if int j = i then 1 else 0)"
      using j inv k pool_wf_lengths [OF wf] by (simp add: heldSlots_def slots_inv_def)
    then show ?thesis
      using holders_goto [of t w "Holding i" p j] t inv j by (auto simp: slots_inv_def atPhase_def)
  qed
  then show ?thesis
    using inv ok k i by (auto simp: slots_inv_def list_all_update)
qed

lemma slots_inv_release:
  assumes inv: "slots_inv ks cap w" and t: "atPhase w t (Holding i)" and cap: "0 < cap"
  shows "slots_inv ks cap (goto t Sending (releaseSlot i (spool w)) w)"
proof -
  let ?p = "releaseSlot i (spool w)"
  have i: "ix_ok i ks" using slots_inv_phase [OF inv t] by simp
  have wf: "pool_wf (spool w)" using inv by (simp add: slots_inv_def)
  have lim: "0 < maxConcurrent (spool w)" using inv cap by (simp add: slots_inv_def)
  have len: "length (inFlight (spool w)) = length ks"
    using pool_wf_lengths [OF wf] inv by (simp add: slots_inv_def)
  have "pool_wf ?p"
    using Release_wf [OF wf, of i] lim by (simp add: Release_split sendToken_def slotFree_wf)
  moreover have "inFlight ?p ! j = int (holders (goto t Sending ?p w) j)" if j: "j < length ks" for j
  proof -
    have held: "inFlight (spool w) ! j = int (holders w j)" using inv j by (simp add: slots_inv_def)
    have "threads w ! t = Holding i" "t < length (threads w)" using t by (simp_all add: atPhase_def)
    then have "1 \<le> holders w j" if "int j = i"
      using that nth_mem [of t "threads w"] count_list_0_iff [of "threads w" "Holding i"]
      by (auto simp: holders_def)
    then have "inFlight ?p ! j = inFlight (spool w) ! j - (if int j = i then 1 else 0)"
      using held j i len inv by (auto simp: releaseSlot_def ix_ok_def slots_inv_def nth_list_update nat_eq_iff)
    then show ?thesis
      using holders_goto [of t w Sending ?p j] t held by (auto simp: atPhase_def)
  qed
  moreover have "keys ?p = ks" "maxConcurrent ?p = cap"
    using inv by (simp_all add: releaseSlot_def slots_inv_def)
  ultimately show ?thesis using inv by (auto simp: slots_inv_def list_all_update)
qed

lemma slots_inv_step:
  assumes "slot_step w w'" and inv: "slots_inv ks cap w" and cap: "0 < cap"
  shows "slots_inv ks cap w'"
  using assms(1)
proof cases
  case (choose t now i k p)
  have wf: "pool_wf (spool w)" using inv by (simp add: slots_inv_def)
  have p: "p = snd (currentLocked now (spool w))" "fst (currentLocked now (spool w)) = (i, k)"
    using choose by (simp_all add: Current_def)
  then have "ix_ok i ks"
    using chosen_range [OF wf, of now] choose inv
    by (auto simp: currentLocked_chosen slots_inv_def split: if_splits)
  then show ?thesis unfolding choose
    by (intro slots_inv_move [OF inv]) (use choose p wf in \<open>auto simp: currentLocked_frame currentLocked_wf\<close>)
next
  case (exhausted t now i k p)
  have wf: "pool_wf (spool w)" using inv by (simp add: slots_inv_def)
  have "p = snd (currentLocked now (spool w))" using exhausted by (simp add: Current_def)
  then show ?thesis unfolding exhausted
    by (intro slots_inv_move [OF inv]) (use exhausted wf in \<open>auto simp: currentLocked_frame currentLocked_wf\<close>)
next
  case (acquire t i p)
  then show ?thesis using slots_inv_acquire [OF inv _ _ cap] by simp
next
  case (refused t i p)
  then have "p = spool w" using slots.acquire_refused by blast
  then show ?thesis unfolding refused
    by (intro slots_inv_move [OF inv]) (use refused inv in \<open>auto simp: slots_inv_def\<close>)
next
  case (rejected t i p)
  then have "p = spool w" using slots.acquire_refused by blast
  then show ?thesis unfolding rejected
    by (intro slots_inv_move [OF inv]) (use rejected inv in \<open>auto simp: slots_inv_def\<close>)
next
  case (release t i)
  then show ?thesis using slots_inv_release [OF inv _ cap] by simp
next
  case (other x)
  then show ?thesis
    using inv exec_op_config [of "spool w" x] exec_op_wf [of "spool w" x] exec_other_slots [of x "spool w"]
    by (simp add: slots_inv_def pool_config_def holders_def)
qed ((hypsubst, rule slots_inv_move [OF inv], assumption;
    use inv in \<open>auto simp: slots_inv_def sendToken_def slotFree_wf\<close>)+)

lemma startWorld_inv: "0 < cap \<Longrightarrow> cap \<le> MaxInt64 \<Longrightarrow> slots_inv ks cap (startWorld ks cap n)"
proof -
  assume cap: "0 < cap" "cap \<le> MaxInt64"
  have "pool_wf (SetMaxConcurrent cap (NewKeyPool ks))"
    using cap NewKeyPool_wf [of ks]
    by (auto simp: pool_wf_def SetMaxConcurrent_def NewKeyPool_def Let_def flight_ok_def list_all_length)
  moreover have "count_list (replicate n Outside) (Holding i) = 0" for i
    by (induction n) simp_all
  ultimately show ?thesis
    using cap by (simp add: slots_inv_def startWorld_def holders_def SetMaxConcurrent_def NewKeyPool_def list_all_length)
qed

lemma slot_reachable_inv:
  assumes "slot_reachable ks cap n w" and "0 < cap" and "cap \<le> MaxInt64"
  shows "slots_inv ks cap w"
  using assms by (induction rule: slot_reachable.induct) (auto intro: startWorld_inv slots_inv_step)

section \<open>Runs\<close>

text \<open>The step relation as a function of the scheduler's choice, to evaluate runs.\<close>

datatype slot_event = Start nat | Choose nat gotime | Try nat | GiveBack nat | Send nat | Check nat | Wake nat

fun fire :: "slot_event \<Rightarrow> slots_world \<Rightarrow> slots_world option" where
  "fire (Start t) w = (if atPhase w t Outside then Some (goto t Choosing (spool w) w) else None)"
| "fire (Choose t now) w =
     (if atPhase w t Choosing
      then (case Current now (spool w) of ((i, k), p) \<Rightarrow>
              Some (goto t (if 0 \<le> i then Chosen i else Outside) p w))
      else None)"
| "fire (Try t) w =
     (if t < length (threads w)
      then (case threads w ! t of
              Chosen i \<Rightarrow> (case TryAcquire i (spool w) of (b, p) \<Rightarrow>
                 Some (goto t (if b then Holding i else Checking) p w))
            | _ \<Rightarrow> None)
      else None)"
| "fire (GiveBack t) w =
     (if t < length (threads w)
      then (case threads w ! t of
              Holding i \<Rightarrow> Some (goto t Sending (releaseSlot i (spool w)) w)
            | _ \<Rightarrow> None)
      else None)"
| "fire (Send t) w = (if atPhase w t Sending then Some (goto t Outside (sendToken (spool w)) w) else None)"
| "fire (Check t) w =
     (if atPhase w t Checking
      then Some (goto t (if anySlotFreeLocked (spool w) then Choosing else Blocked) (spool w) w) else None)"
| "fire (Wake t) w =
     (if atPhase w t Blocked \<and> slotFree (spool w)
      then Some (goto t Checking ((spool w)\<lparr>slotFree := False\<rparr>) w) else None)"

lemma fire_step: "fire e w = Some w' \<Longrightarrow> slot_step w w'"
  by (cases e)
    (auto simp: atPhase_def intro: slot_step.intros [unfolded atPhase_def]
      split: if_splits prod.splits phase.splits)

fun runEvents :: "slot_event list \<Rightarrow> slots_world \<Rightarrow> slots_world option" where
  "runEvents [] w = Some w"
| "runEvents (e # es) w = (case fire e w of None \<Rightarrow> None | Some w' \<Rightarrow> runEvents es w')"

lemma runEvents_reachable:
  "slot_reachable ks cap n w \<Longrightarrow> runEvents es w = Some w' \<Longrightarrow> slot_reachable ks cap n w'"
  by (induction es arbitrary: w) (auto intro: slot_reachable.step dest: fire_step split: option.splits)

section \<open>Properties\<close>

text \<open>
  C2: The concurrency cap is never exceeded: under every interleaving of any number of requests and
  of all other pool operations, the number of requests that hold a slot on a key is exactly the
  pool's counter for it, and at most \<open>FIRECRAWL_MAX_CONCURRENT_PER_KEY\<close>.
\<close>

theorem concurrency_cap:
  assumes "slot_reachable ks cap n w" and "0 < cap" and "cap \<le> MaxInt64" and "i < length ks"
  shows "int (holders w i) = inFlight (spool w) ! i \<and> int (holders w i) \<le> cap"
proof -
  have inv: "slots_inv ks cap w" by (rule slot_reachable_inv [OF assms(1-3)])
  then have "inFlight (spool w) ! i = int (holders w i)" using assms(4) by (simp add: slots_inv_def)
  moreover have "inFlight (spool w) ! i \<le> cap"
    using inv assms(2,4) pool_wf_inFlight(3) [of "spool w" i] by (simp add: slots_inv_def)
  ultimately show ?thesis by simp
qed

definition burst :: "slot_event list" where
  "burst = [Start 0, Start 1, Start 2, Start 3, Choose 0 0, Try 0, Choose 1 0, Try 1,
     Choose 2 0, Try 2, Check 2, Choose 3 0, Try 3, Check 3]"

definition twoReleases :: "slot_event list" where
  "twoReleases = [GiveBack 0, Send 0, GiveBack 1, Send 1, Wake 2, Check 2, Choose 2 0, Try 2]"

theorem concurrency_cap_witness:
  "\<exists>w. runEvents burst (startWorld [''a'', ''b''] 1 4) = Some w \<and>
     int (holders w 0) = inFlight (spool w) ! 0 \<and> int (holders w 0) \<le> 1"
proof -
  have "runEvents burst (startWorld [''a'', ''b''] 1 4) \<noteq> None" by code_simp
  then obtain w where w: "runEvents burst (startWorld [''a'', ''b''] 1 4) = Some w" by blast
  then have "slot_reachable [''a'', ''b''] 1 4 w" by (rule runEvents_reachable [OF slot_reachable.init])
  then show ?thesis using w concurrency_cap [of "[''a'', ''b'']" 1 4 w 0] by auto
qed

definition waitingPhase :: "phase \<Rightarrow> bool" where
  "waitingPhase ph \<longleftrightarrow> ph = Checking \<or> ph = Blocked"

definition loneWaiter :: "slots_world \<Rightarrow> bool" where
  "loneWaiter w \<longleftrightarrow> length (filter waitingPhase (threads w)) \<le> 1"

inductive lone_reachable :: "string list \<Rightarrow> int \<Rightarrow> nat \<Rightarrow> slots_world \<Rightarrow> bool" for ks cap n where
  init: "lone_reachable ks cap n (startWorld ks cap n)"
| step: "lone_reachable ks cap n w \<Longrightarrow> slot_step w w' \<Longrightarrow> loneWaiter w' \<Longrightarrow> lone_reachable ks cap n w'"

definition wakeupPending :: "slots_world \<Rightarrow> bool" where
  "wakeupPending w \<longleftrightarrow> slotFree (spool w) \<or> Sending \<in> set (threads w)"

definition stranded :: "slots_world \<Rightarrow> bool" where
  "stranded w \<longleftrightarrow> Blocked \<in> set (threads w) \<and> anySlotFreeLocked (spool w) \<and> \<not> wakeupPending w"

lemma anySlotFree_acquire:
  assumes "pool_wf p" and "0 < maxConcurrent p" and "TryAcquire i p = (True, p')" and "anySlotFreeLocked p'"
  shows "anySlotFreeLocked p"
proof -
  from assms(2,3) have i: "0 \<le> i" "i < int (length (keys p))" "inFlight p ! nat i < maxConcurrent p"
    by (auto simp: TryAcquire_def split: if_splits)
  then show ?thesis by (auto simp: anySlotFreeLocked_def hasSlotLocked_def list_ex_iff intro!: bexI [of _ "nat i"])
qed

lemma anySlotFree_cong:
  "keys p = keys q \<Longrightarrow> maxConcurrent p = maxConcurrent q \<Longrightarrow> inFlight p = inFlight q \<Longrightarrow>
   anySlotFreeLocked p = anySlotFreeLocked q"
  by (simp add: anySlotFreeLocked_def hasSlotLocked_def list_ex_iff)

text \<open>A move to a phase other than \<open>Blocked\<close> that frees no slot and loses no wakeup strands nobody.\<close>

lemma stranded_move:
  assumes "\<not> stranded w" and "ph \<noteq> Blocked" and "atPhase w t ph0" and "ph0 \<noteq> Sending"
    and "anySlotFreeLocked p \<longrightarrow> anySlotFreeLocked (spool w)" and "slotFree p = slotFree (spool w)"
  shows "\<not> stranded (goto t ph p w)"
proof -
  have "Blocked \<in> set ((threads w)[t := ph]) \<Longrightarrow> Blocked \<in> set (threads w)"
    using assms(2) by (auto dest: set_update_subset_insert [THEN subsetD])
  moreover have "Sending \<in> set (threads w) \<Longrightarrow> Sending \<in> set ((threads w)[t := ph])"
    using assms(3,4) by (auto simp: atPhase_def in_set_conv_nth nth_list_update)
  ultimately show ?thesis using assms(1,5,6) by (auto simp: stranded_def wakeupPending_def)
qed

lemma filter_unique:
  assumes "length (filter P xs) \<le> 1" and "t < length xs" and "P (xs ! t)" and "u < length xs" and "P (xs ! u)"
  shows "t = u"
proof -
  have "\<not> i < j" if "i < length xs" "j < length xs" "P (xs ! i)" "P (xs ! j)" for i j
  proof
    assume "i < j"
    with that have "xs ! i \<in> set (take j xs)" by (auto simp: in_set_conv_nth intro: exI [of _ i])
    moreover have "xs ! j \<in> set (drop j xs)" using that(2) by (metis Cons_nth_drop_Suc list.set_intros(1))
    ultimately have "1 \<le> length (filter P (take j xs))" "1 \<le> length (filter P (drop j xs))"
      using that(3,4) by (simp_all only: Suc_le_eq One_nat_def length_greater_0_conv) (auto simp: filter_empty_conv)
    moreover have "length (filter P xs) = length (filter P (take j xs)) + length (filter P (drop j xs))"
      by (metis append_take_drop_id filter_append length_append)
    ultimately show False using assms(1) by linarith
  qed
  then show ?thesis using assms(2-5) by (metis linorder_neqE_nat)
qed

lemma lone_wake:
  assumes "loneWaiter w" and "atPhase w t Blocked" and "ph \<noteq> Blocked"
  shows "Blocked \<notin> set ((threads w)[t := ph])"
proof
  assume "Blocked \<in> set ((threads w)[t := ph])"
  then obtain u where "u < length (threads w)" "u \<noteq> t" "threads w ! u = Blocked"
    using assms(3) by (metis in_set_conv_nth length_list_update nth_list_update_eq nth_list_update_neq)
  then show False
    using filter_unique [of waitingPhase "threads w" t u] assms(1,2)
    by (simp add: loneWaiter_def atPhase_def waitingPhase_def)
qed

lemma stranded_step:
  assumes "slot_step w w'" and inv: "slots_inv ks cap w" and cap: "0 < cap"
    and lone: "loneWaiter w" and ok: "\<not> stranded w"
  shows "\<not> stranded w'"
  using assms(1)
proof cases
  case (choose t now i k p)
  have "p = snd (currentLocked now (spool w))" using choose by (simp add: Current_def)
  then show ?thesis unfolding choose
    by (intro stranded_move [OF ok _ choose(2)]) (auto simp: currentLocked_frame cong: anySlotFree_cong)
next
  case (exhausted t now i k p)
  have "p = snd (currentLocked now (spool w))" using exhausted by (simp add: Current_def)
  then show ?thesis unfolding exhausted
    by (intro stranded_move [OF ok _ exhausted(2)]) (auto simp: currentLocked_frame cong: anySlotFree_cong)
next
  case (acquire t i p)
  have "anySlotFreeLocked p \<longrightarrow> anySlotFreeLocked (spool w)"
    using anySlotFree_acquire [OF _ _ acquire(3)] inv cap by (auto simp: slots_inv_def)
  moreover have "slotFree p = slotFree (spool w)"
    using acquire(3) by (auto simp: TryAcquire_def split: if_splits)
  ultimately show ?thesis unfolding acquire
    by (intro stranded_move [OF ok _ acquire(2)]) auto
next
  case (refused t i p)
  then have "p = spool w" using slots.acquire_refused by blast
  then show ?thesis unfolding refused by (intro stranded_move [OF ok _ refused(2)]) auto
next
  case (rejected t i p)
  then have "p = spool w" using slots.acquire_refused by blast
  then show ?thesis unfolding rejected by (intro stranded_move [OF ok _ rejected(2)]) auto
next
  case (late t)
  show ?thesis unfolding late by (intro stranded_move [OF ok _ late(2)]) auto
next
  case (release t i)
  then have "Sending \<in> set (threads w')"
    by (simp add: atPhase_def set_update_memI)
  then show ?thesis by (simp add: stranded_def wakeupPending_def)
next
  case (send t)
  then show ?thesis by (simp add: stranded_def wakeupPending_def sendToken_def)
next
  case (block t)
  then show ?thesis by (simp add: stranded_def)
next
  case (wake t)
  then show ?thesis using lone_wake [OF lone wake(2), of Checking] by (simp add: stranded_def)
next
  case (give_up t)
  then show ?thesis using lone_wake [OF lone give_up(2), of Outside] by (simp add: stranded_def)
next
  case (other x)
  have "anySlotFreeLocked (exec_op (spool w) x) = anySlotFreeLocked (spool w)"
    using exec_op_config [of "spool w" x] exec_other_slots [OF other(2), of "spool w"]
    by (intro anySlotFree_cong) (auto simp: pool_config_def)
  then show ?thesis
    using ok exec_other_slots [OF other(2), of "spool w"] by (simp add: other(1) stranded_def wakeupPending_def)
next
  case (start t)
  show ?thesis unfolding start by (intro stranded_move [OF ok _ start(2)]) auto
next
  case (free t)
  show ?thesis unfolding free by (intro stranded_move [OF ok _ free(2)]) auto
qed

lemma lone_startWorld: "loneWaiter (startWorld ks cap n) \<and> \<not> stranded (startWorld ks cap n)"
  by (simp add: loneWaiter_def startWorld_def waitingPhase_def stranded_def)

text \<open>
  C17: No wakeup is lost while at most one request at a time is queued: whenever that request is
  blocked in the select and some key has a free slot, the token is in the channel or the releasing
  request is just about to send it. This is what the re-check under the mutex and the buffered
  channel buy: a release that falls between the check and the select is not missed.
\<close>

theorem lone_waiter_never_stranded:
  assumes "lone_reachable ks cap n w" and "0 < cap" and "cap \<le> MaxInt64"
  shows "\<not> stranded w"
proof -
  have "slots_inv ks cap w \<and> loneWaiter w \<and> \<not> stranded w"
    using assms
  proof (induction rule: lone_reachable.induct)
    case init
    then show ?case by (simp add: lone_startWorld startWorld_inv)
  next
    case (step w w')
    then show ?case using slots_inv_step stranded_step by blast
  qed
  then show ?thesis by blast
qed

definition missedRelease :: "slot_event list" where
  "missedRelease = [Start 0, Start 1, Choose 0 0, Try 0, Choose 1 0, Try 1, Check 1, GiveBack 0]"

fun loneRun :: "slot_event list \<Rightarrow> slots_world \<Rightarrow> bool" where
  "loneRun [] w = True"
| "loneRun (e # es) w = (case fire e w of None \<Rightarrow> False | Some w' \<Rightarrow> loneWaiter w' \<and> loneRun es w')"

lemma loneRun_reachable:
  "lone_reachable ks cap n w \<Longrightarrow> loneRun es w \<Longrightarrow>
   \<exists>w'. runEvents es w = Some w' \<and> lone_reachable ks cap n w'"
  by (induction es arbitrary: w) (auto intro: lone_reachable.step dest: fire_step split: option.splits)

theorem lone_waiter_never_stranded_witness:
  "\<exists>w. runEvents missedRelease (startWorld [''a''] 1 2) = Some w \<and> Blocked \<in> set (threads w) \<and> \<not> stranded w"
proof -
  have "loneRun missedRelease (startWorld [''a''] 1 2)" by code_simp
  then obtain w where w: "runEvents missedRelease (startWorld [''a''] 1 2) = Some w"
    "lone_reachable [''a''] 1 2 w"
    using loneRun_reachable [OF lone_reachable.init] by blast
  have "map_option (\<lambda>w. Blocked \<in> set (threads w)) (runEvents missedRelease (startWorld [''a''] 1 2)) = Some True"
    by code_simp
  then show ?thesis using w lone_waiter_never_stranded [OF w(2)] by simp
qed

text \<open>
  C18: With two queued requests a wakeup is lost: two releases before the first wakeup put one token
  into the size-one channel, the woken request takes one of the two free slots, and the other
  request stays blocked with a usable key idle, no token in the channel and no send to come. The
  comment of \<open>WaitForSlot\<close> ("so no wakeup is lost") does not hold; the queued request may wait until
  its deadline and be answered 503.
\<close>

theorem second_waiter_stranded:
  "\<exists>w. slot_reachable [''a'', ''b''] 1 4 w \<and> atPhase w 3 Blocked \<and> stranded w \<and>
     usable (spool w) 1 \<and> hasSlotLocked (spool w) 1"
proof -
  let ?w = "runEvents (burst @ twoReleases) (startWorld [''a'', ''b''] 1 4)"
  have "map_option (\<lambda>w. atPhase w 3 Blocked \<and> stranded w \<and> usable (spool w) 1 \<and> hasSlotLocked (spool w) 1) ?w
      = Some True"
    by code_simp
  then obtain w where "?w = Some w" and
    "atPhase w 3 Blocked \<and> stranded w \<and> usable (spool w) 1 \<and> hasSlotLocked (spool w) 1"
    by auto
  then show ?thesis using runEvents_reachable [OF slot_reachable.init] by blast
qed

end
