(* ===== verification/Go_Url.thy ===== *)
theory Go_Url
  imports Go_Http "HOL-Library.AList"
begin

text \<open>
  \<open>net/url\<close> as far as the source uses it: \<open>Parse\<close>, \<open>URL.String\<close>, \<open>URL.Query\<close>, \<open>Values.Set\<close>,
  \<open>Values.Encode\<close> and \<open>QueryEscape\<close>. Only the fact of a parse error is kept, not its text. Hosts in
  square brackets are restricted to IPv6 literals without a zone; the limit on the number of query
  parameters is not modelled.
\<close>

section \<open>Escaping\<close>

datatype escMode = EncPath | EncUser | EncHost | EncQuery | EncFragment

definition alnum :: "char \<Rightarrow> bool" where
  "alnum c \<longleftrightarrow> isDigit c \<or> isUpper c \<or> isLower c"

definition shouldEscape :: "escMode \<Rightarrow> char \<Rightarrow> bool" where
  "shouldEscape mode c =
     (if alnum c then False
      else if mode = EncHost \<and> c \<in> set (''!$&()*+,;=:[]<>'' @ [CHR 0x27, CHR 0x22]) then False
      else if c \<in> set ''-_.~'' then False
      else if c \<in> set ''$&+,/:;=?@'' then
        (case mode of
           EncPath \<Rightarrow> c = CHR ''?''
         | EncUser \<Rightarrow> c \<in> set ''@/?:''
         | EncQuery \<Rightarrow> True
         | EncFragment \<Rightarrow> False
         | EncHost \<Rightarrow> True)
      else if mode = EncFragment \<and> c \<in> set ''!()*'' then False
      else True)"

definition hexChar :: "nat \<Rightarrow> char" where
  "hexChar n = (if n < 10 then char_of (48 + n) else char_of (55 + n))"

definition escapeChar :: "escMode \<Rightarrow> char \<Rightarrow> string" where
  "escapeChar mode c =
     (if mode = EncQuery \<and> c = CHR '' '' then ''+''
      else if shouldEscape mode c
      then (let n = of_char c in [CHR ''%'', hexChar (n div 16), hexChar (n mod 16)])
      else [c])"

definition escape :: "escMode \<Rightarrow> string \<Rightarrow> string" where
  "escape mode s = concat (map (escapeChar mode) s)"

definition unhex :: "char \<Rightarrow> nat option" where
  "unhex c = (let n = of_char c in
     if 48 \<le> n \<and> n \<le> 57 then Some (n - 48)
     else if 97 \<le> n \<and> n \<le> 102 then Some (n - 87)
     else if 65 \<le> n \<and> n \<le> 70 then Some (n - 55)
     else None)"

definition hexPair :: "string \<Rightarrow> nat option" where
  "hexPair r = (case r of
     a # b # _ \<Rightarrow> (case (unhex a, unhex b) of (Some x, Some y) \<Rightarrow> Some (16 * x + y) | _ \<Rightarrow> None)
   | _ \<Rightarrow> None)"

text \<open>\<open>None\<close> is an \<open>EscapeError\<close> or an \<open>InvalidHostError\<close>.\<close>

function unescapeUrl :: "escMode \<Rightarrow> string \<Rightarrow> string option" where
  "unescapeUrl mode s = (case s of [] \<Rightarrow> Some [] | c # r \<Rightarrow>
     if c = CHR ''%'' then
       (case hexPair r of
          None \<Rightarrow> None
        | Some n \<Rightarrow>
            if mode = EncHost \<and> n < 128 \<and> n \<noteq> 37 then None
            else map_option ((#) (char_of n)) (unescapeUrl mode (drop 2 r)))
     else if mode = EncHost \<and> (of_char c :: nat) < 128 \<and> shouldEscape EncHost c then None
     else map_option ((#) (if mode = EncQuery \<and> c = CHR ''+'' then CHR '' '' else c)) (unescapeUrl mode r))"
  by auto
termination by (relation "measure (length \<circ> snd)") auto

declare unescapeUrl.simps [simp del]

lemma unescapeUrl_Nil [simp]: "unescapeUrl mode [] = Some []"
  by (simp add: unescapeUrl.simps)

definition QueryEscape :: "string \<Rightarrow> string" where
  "QueryEscape s = escape EncQuery s"

section \<open>Parse\<close>

text \<open>\<open>strings.Cut\<close> and \<open>strings.LastIndex\<close> for one-byte separators.\<close>

fun cutAt :: "char \<Rightarrow> string \<Rightarrow> string \<times> string option" where
  "cutAt c [] = ([], None)"
| "cutAt c (x # xs) = (if x = c then ([], Some xs) else (case cutAt c xs of (a, b) \<Rightarrow> (x # a, b)))"

definition cutRest :: "char \<Rightarrow> string \<Rightarrow> string \<times> string" where
  "cutRest c s = (case cutAt c s of (a, None) \<Rightarrow> (a, []) | (a, Some b) \<Rightarrow> (a, b))"

definition cutLast :: "char \<Rightarrow> string \<Rightarrow> (string \<times> string) option" where
  "cutLast c s = (case cutAt c (rev s) of (a, None) \<Rightarrow> None | (a, Some b) \<Rightarrow> Some (rev b, rev a))"

record url =
  uScheme :: string
  uOpaque :: string
  uUser :: "(string \<times> string option) option"
  uHost :: string
  uPath :: string
  uRawPath :: string
  uOmitHost :: bool
  uForceQuery :: bool
  uRawQuery :: string
  uFragment :: string
  uRawFragment :: string

definition emptyUrl :: url where
  "emptyUrl = \<lparr>uScheme = [], uOpaque = [], uUser = None, uHost = [], uPath = [], uRawPath = [],
     uOmitHost = False, uForceQuery = False, uRawQuery = [], uFragment = [], uRawFragment = []\<rparr>"

fun schemeScan :: "bool \<Rightarrow> string \<Rightarrow> (string \<times> string) option" where
  "schemeScan first [] = None"
| "schemeScan first (c # r) =
     (if isUpper c \<or> isLower c \<or> ((isDigit c \<or> c \<in> set ''+-.'') \<and> \<not> first)
      then map_option (\<lambda>(a, b). (c # a, b)) (schemeScan False r)
      else if c = CHR '':'' then Some ([], r) else None)"

text \<open>\<open>None\<close>: missing protocol scheme.\<close>

definition getScheme :: "string \<Rightarrow> (string \<times> string) option" where
  "getScheme raw = (case schemeScan True raw of
     None \<Rightarrow> Some ([], raw)
   | Some (sch, rest) \<Rightarrow> if sch = [] then None else Some (sch, rest))"

definition validOptionalPort :: "string \<Rightarrow> bool" where
  "validOptionalPort p \<longleftrightarrow> p = [] \<or> (hd p = CHR '':'' \<and> list_all isDigit (tl p))"

fun hexGroups :: "nat \<Rightarrow> bool \<Rightarrow> string list \<Rightarrow> bool" where
  "hexGroups n gap [] \<longleftrightarrow> (if gap then n < 8 else n = 8)"
| "hexGroups n gap (g # gs) \<longleftrightarrow>
     g \<noteq> [] \<and> length g \<le> 4 \<and> list_all (\<lambda>c. unhex c \<noteq> None) g \<and> hexGroups (Suc n) gap gs"

definition ip6Literal :: "string \<Rightarrow> bool" where
  "ip6Literal s = (case indexOf s ''::'' of
     None \<Rightarrow> hexGroups 0 False (splitOn (CHR '':'') s)
   | Some i \<Rightarrow>
       let l = take i s; r = drop (i + 2) s
       in hexGroups 0 True ((if l = [] then [] else splitOn (CHR '':'') l) @
            (if r = [] then [] else splitOn (CHR '':'') r)))"

definition parseHost :: "string \<Rightarrow> string option" where
  "parseHost h =
     (if CHR ''['' \<in> set h then
        (case cutLast (CHR '']'') h of
           None \<Rightarrow> None
         | Some (a, port) \<Rightarrow>
             if hd h = CHR ''['' \<and> ip6Literal (tl a) \<and> validOptionalPort port then Some h else None)
      else
        let (name, port) = cutAt (CHR '':'') h
        in if validOptionalPort (case port of None \<Rightarrow> [] | Some p \<Rightarrow> CHR '':'' # p)
           then unescapeUrl EncHost h else None)"

definition validUserinfo :: "string \<Rightarrow> bool" where
  "validUserinfo s \<longleftrightarrow> list_all (\<lambda>c. alnum c \<or> c \<in> set (''-._:~!$&()*+,;=%@'' @ [CHR 0x27])) s"

definition parseAuthority :: "string \<Rightarrow> ((string \<times> string option) option \<times> string) option" where
  "parseAuthority a = (case cutLast (CHR ''@'') a of
     None \<Rightarrow> map_option (\<lambda>h. (None, h)) (parseHost a)
   | Some (ui, h) \<Rightarrow>
       (case parseHost h of
          None \<Rightarrow> None
        | Some h' \<Rightarrow>
            if \<not> validUserinfo ui then None
            else (case cutAt (CHR '':'') ui of
                (u, None) \<Rightarrow> map_option (\<lambda>u'. (Some (u', None), h')) (unescapeUrl EncUser u)
              | (u, Some pw) \<Rightarrow>
                  (case (unescapeUrl EncUser u, unescapeUrl EncUser pw) of
                     (Some u', Some pw') \<Rightarrow> Some (Some (u', Some pw'), h')
                   | _ \<Rightarrow> None))))"

definition setPath :: "string \<Rightarrow> url \<Rightarrow> url option" where
  "setPath p u = (case unescapeUrl EncPath p of
     None \<Rightarrow> None
   | Some path \<Rightarrow> Some (u\<lparr>uPath := path, uRawPath := (if p = escape EncPath path then [] else p)\<rparr>))"

definition setFragment :: "string \<Rightarrow> url \<Rightarrow> url option" where
  "setFragment f u = (case unescapeUrl EncFragment f of
     None \<Rightarrow> None
   | Some frag \<Rightarrow> Some (u\<lparr>uFragment := frag, uRawFragment := (if f = escape EncFragment frag then [] else f)\<rparr>))"

definition isCtl :: "char \<Rightarrow> bool" where
  "isCtl c \<longleftrightarrow> (of_char c :: nat) < 32 \<or> (of_char c :: nat) = 127"

definition splitQuery :: "string \<Rightarrow> url \<Rightarrow> string \<times> url" where
  "splitQuery rest u =
     (if hasSuffix rest ''?'' \<and> length (filter (\<lambda>c. c = CHR ''?'') rest) = 1
      then (butlast rest, u\<lparr>uForceQuery := True\<rparr>)
      else case cutRest (CHR ''?'') rest of (a, q) \<Rightarrow> (a, u\<lparr>uRawQuery := q\<rparr>))"

definition parseRest :: "string \<Rightarrow> url \<Rightarrow> url option" where
  "parseRest rest u =
     (if \<not> hasPrefix rest ''/'' \<and> uScheme u \<noteq> [] then Some (u\<lparr>uOpaque := rest\<rparr>)
      else if \<not> hasPrefix rest ''/'' \<and> CHR '':'' \<in> set (fst (cutRest (CHR ''/'') rest)) then None
      else if (uScheme u \<noteq> [] \<or> \<not> hasPrefix rest ''///'') \<and> hasPrefix rest ''//'' then
        (let r = drop 2 rest;
             auth = takeWhile (\<lambda>c. c \<noteq> CHR ''/'') r
         in case parseAuthority auth of
              None \<Rightarrow> None
            | Some (user, h) \<Rightarrow> setPath (drop (length auth) r) (u\<lparr>uUser := user, uHost := h\<rparr>))
      else setPath rest (u\<lparr>uOmitHost := (uScheme u \<noteq> [] \<and> hasPrefix rest ''/'')\<rparr>))"

definition parseNoFragment :: "string \<Rightarrow> url option" where
  "parseNoFragment raw =
     (if list_ex isCtl raw then None
      else if raw = ''*'' then Some (emptyUrl\<lparr>uPath := ''*''\<rparr>)
      else (case getScheme raw of
          None \<Rightarrow> None
        | Some (sch, rest) \<Rightarrow>
            (case splitQuery rest (emptyUrl\<lparr>uScheme := toLower sch\<rparr>) of (rest', u) \<Rightarrow> parseRest rest' u)))"

definition urlParse :: "string \<Rightarrow> url option" where
  "urlParse raw = (case cutRest (CHR ''#'') raw of (u, frag) \<Rightarrow>
     (case parseNoFragment u of
        None \<Rightarrow> None
      | Some x \<Rightarrow> if frag = [] then Some x else setFragment frag x))"

section \<open>String\<close>

definition validEncoded :: "escMode \<Rightarrow> string \<Rightarrow> bool" where
  "validEncoded mode s \<longleftrightarrow>
     list_all (\<lambda>c. c \<in> set (''!$&()*+,;=:@[]%'' @ [CHR 0x27]) \<or> \<not> shouldEscape mode c) s"

definition EscapedPath :: "url \<Rightarrow> string" where
  "EscapedPath u =
     (if uRawPath u \<noteq> [] \<and> validEncoded EncPath (uRawPath u) \<and> unescapeUrl EncPath (uRawPath u) = Some (uPath u)
      then uRawPath u
      else if uPath u = ''*'' then ''*'' else escape EncPath (uPath u))"

definition EscapedFragment :: "url \<Rightarrow> string" where
  "EscapedFragment u =
     (if uRawFragment u \<noteq> [] \<and> validEncoded EncFragment (uRawFragment u) \<and>
         unescapeUrl EncFragment (uRawFragment u) = Some (uFragment u)
      then uRawFragment u else escape EncFragment (uFragment u))"

definition userString :: "string \<times> string option \<Rightarrow> string" where
  "userString ui = (case ui of (u, pw) \<Rightarrow>
     if u = [] \<and> pw = None then []
     else escape EncUser u @ (case pw of None \<Rightarrow> [] | Some p \<Rightarrow> CHR '':'' # escape EncUser p))"

definition hostPart :: "url \<Rightarrow> string" where
  "hostPart u =
     (if uScheme u \<noteq> [] \<or> uHost u \<noteq> [] \<or> uUser u \<noteq> None then
        (if uOmitHost u \<and> uHost u = [] \<and> uUser u = None then []
         else (if uHost u \<noteq> [] \<or> uPath u \<noteq> [] \<or> uUser u \<noteq> None then ''//'' else []) @
              (case uUser u of None \<Rightarrow> [] | Some ui \<Rightarrow> userString ui @ ''@'') @
              escape EncHost (uHost u))
      else [])"

definition urlString :: "url \<Rightarrow> string" where
  "urlString u =
     (let sch = (if uScheme u = [] then [] else uScheme u @ '':'');
          path = EscapedPath u;
          body = (if uOpaque u \<noteq> [] then uOpaque u
                  else
                    let pre = hostPart u;
                        slash = (if path \<noteq> [] \<and> hd path \<noteq> CHR ''/'' \<and> uHost u \<noteq> [] then ''/'' else []);
                        dot = (if sch @ pre @ slash = [] \<and> CHR '':'' \<in> set (fst (cutRest (CHR ''/'') path))
                               then ''./'' else [])
                    in pre @ slash @ dot @ path)
      in sch @ body @
         (if uForceQuery u \<or> uRawQuery u \<noteq> [] then CHR ''?'' # uRawQuery u else []) @
         (if uFragment u = [] then [] else CHR ''#'' # EscapedFragment u))"

section \<open>Query\<close>

text \<open>\<open>url.Values\<close>, in the order the keys were met.\<close>

type_synonym urlValues = "(string \<times> string list) list"

definition valuesAdd :: "string \<Rightarrow> string \<Rightarrow> urlValues \<Rightarrow> urlValues" where
  "valuesAdd k v vs = (case map_of vs k of
     None \<Rightarrow> vs @ [(k, [v])]
   | Some ws \<Rightarrow> AList.update k (ws @ [v]) vs)"

definition parsePair :: "string \<Rightarrow> urlValues \<Rightarrow> urlValues" where
  "parsePair s vs =
     (if s = [] \<or> CHR '';'' \<in> set s then vs
      else (case cutRest (CHR ''='') s of (k, v) \<Rightarrow>
        (case (unescapeUrl EncQuery k, unescapeUrl EncQuery v) of
           (Some k', Some v') \<Rightarrow> valuesAdd k' v' vs
         | _ \<Rightarrow> vs)))"

definition parseQuery :: "string \<Rightarrow> urlValues" where
  "parseQuery q = fold parsePair (splitOn (CHR ''&'') q) []"

definition valuesSet :: "string \<Rightarrow> string \<Rightarrow> urlValues \<Rightarrow> urlValues" where
  "valuesSet k v vs = AList.update k [v] vs"

fun bytesLeq :: "string \<Rightarrow> string \<Rightarrow> bool" where
  "bytesLeq [] ys = True"
| "bytesLeq (x # xs) [] = False"
| "bytesLeq (x # xs) (y # ys) =
     ((of_char x :: nat) < of_char y \<or> (x = y \<and> bytesLeq xs ys))"

fun insertKey :: "string \<times> string list \<Rightarrow> urlValues \<Rightarrow> urlValues" where
  "insertKey e [] = [e]"
| "insertKey e (f # fs) = (if bytesLeq (fst e) (fst f) then e # f # fs else f # insertKey e fs)"

definition joinAmp :: "string list \<Rightarrow> string" where
  "joinAmp xs = (case xs of [] \<Rightarrow> [] | y # ys \<Rightarrow> y @ concat (map (\<lambda>s. CHR ''&'' # s) ys))"

definition valuesEncode :: "urlValues \<Rightarrow> string" where
  "valuesEncode vs =
     joinAmp (concat (map (\<lambda>(k, ws). map (\<lambda>w. QueryEscape k @ ''='' @ QueryEscape w) ws) (foldr insertKey vs [])))"

end
