(* ===== verification/Go_Client.thy ===== *)
theory Go_Client
  imports Go_Url Go_Time
begin

text \<open>
  The outside of the program: requests to an upstream, what comes back, and \<open>time.Parse\<close> for the
  RFC 3339 instants in replies. The network itself is a parameter: a function from the number of the
  call and the request to its outcome.
\<close>

section \<open>Requests and outcomes\<close>

record request =
  qMethod :: string
  qUrl :: url
  qHeader :: header
  qHost :: string
  qBody :: string

text \<open>
  A reply's body is what the reader delivers before it ends; \<open>rReadErr\<close> is the error it ends with,
  if it does not end with EOF.
\<close>

record reply =
  rStatus :: int
  rHeader :: header
  rBody :: string
  rReadErr :: "string option"

datatype outcome = Failed string | Answered reply

type_synonym network = "nat \<Rightarrow> request \<Rightarrow> outcome"

definition removeEmptyPort :: "string \<Rightarrow> string" where
  "removeEmptyPort h = (if hasSuffix h '':'' then butlast h else h)"

text \<open>\<open>http.NewRequest\<close>: the method must be a token (empty means GET) and the URL must parse.\<close>

definition NewRequest :: "string \<Rightarrow> string \<Rightarrow> string \<Rightarrow> request option" where
  "NewRequest verb rawUrl body =
     (if \<not> list_all isTokenChar verb then None
      else (case urlParse rawUrl of
          None \<Rightarrow> None
        | Some u \<Rightarrow>
            let u' = u\<lparr>uHost := removeEmptyPort (uHost u)\<rparr> in
            Some \<lparr>qMethod = (if verb = [] then ''GET'' else verb), qUrl = u', qHeader = [],
                  qHost = uHost u', qBody = body\<rparr>))"

definition setHeader :: "string \<Rightarrow> string \<Rightarrow> request \<Rightarrow> request" where
  "setHeader k v q = q\<lparr>qHeader := hdrSet (qHeader q) k v\<rparr>"

text \<open>\<open>io.ReadAll(io.LimitReader(body, n))\<close>: the reader is not asked again once \<open>n\<close> bytes are read.\<close>

definition readLimited :: "nat \<Rightarrow> reply \<Rightarrow> string option" where
  "readLimited n r =
     (if n \<le> length (rBody r) then Some (take n (rBody r))
      else if rReadErr r = None then Some (rBody r) else None)"

section \<open>RFC 3339\<close>

text \<open>A number of a fixed count of digits, and the rest.\<close>

definition digitsN :: "nat \<Rightarrow> string \<Rightarrow> (int \<times> string) option" where
  "digitsN n s =
     (if length s < n \<or> \<not> list_all isDigit (take n s) then None
      else Some (foldl (\<lambda>v c. 10 * v + digitVal c) 0 (take n s), drop n s))"

definition litChar :: "char \<Rightarrow> string \<Rightarrow> string option" where
  "litChar c s = (case s of [] \<Rightarrow> None | x # r \<Rightarrow> if x = c then Some r else None)"

text \<open>The hour may have one digit.\<close>

definition digitsHour :: "string \<Rightarrow> (int \<times> string) option" where
  "digitsHour s = (case digitsN 2 s of Some x \<Rightarrow> Some x | None \<Rightarrow> digitsN 1 s)"

text \<open>An optional fraction after the seconds, in nanoseconds; digits beyond the ninth are dropped.\<close>

definition fraction :: "string \<Rightarrow> int \<times> string" where
  "fraction s = (case s of
     c # d # r \<Rightarrow>
       if (c = CHR ''.'' \<or> c = CHR '','') \<and> isDigit d
       then (let ds = takeWhile isDigit (d # r); k = take 9 ds
             in (foldl (\<lambda>v c. 10 * v + digitVal c) 0 k * 10 ^ (9 - length k), dropWhile isDigit (d # r)))
       else (0, s)
   | _ \<Rightarrow> (0, s))"

text \<open>The zone: \<open>Z\<close> or a signed offset, in seconds east; offsets up to 24:60 are let through.\<close>

definition zone :: "string \<Rightarrow> (int \<times> string) option" where
  "zone s = (case s of
     [] \<Rightarrow> None
   | c # r \<Rightarrow>
       if c = CHR ''Z'' then Some (0, r)
       else if c = CHR ''+'' \<or> c = CHR ''-'' then
         (case digitsN 2 r of None \<Rightarrow> None | Some (h, r1) \<Rightarrow>
          case litChar (CHR '':'') r1 of None \<Rightarrow> None | Some r2 \<Rightarrow>
          case digitsN 2 r2 of None \<Rightarrow> None | Some (m, r3) \<Rightarrow>
            if 24 < h \<or> 60 < m then None
            else Some ((if c = CHR ''-'' then - 1 else 1) * (h * 3600 + m * 60), r3))
       else None)"

definition parseDate :: "string \<Rightarrow> (gotime \<times> string) option" where
  "parseDate s =
     (case digitsN 4 s of None \<Rightarrow> None | Some (y, s1) \<Rightarrow>
      case litChar (CHR ''-'') s1 of None \<Rightarrow> None | Some s2 \<Rightarrow>
      case digitsN 2 s2 of None \<Rightarrow> None | Some (mo, s3) \<Rightarrow>
      case litChar (CHR ''-'') s3 of None \<Rightarrow> None | Some s4 \<Rightarrow>
      case digitsN 2 s4 of None \<Rightarrow> None | Some (d, s5) \<Rightarrow>
        if mo < 1 \<or> 12 < mo then None
        else if d < 1 \<or> daysInMonth y mo < d then None
        else Some (goDate y mo d, s5))"

definition parseClock :: "string \<Rightarrow> (duration \<times> string) option" where
  "parseClock s =
     (case digitsHour s of None \<Rightarrow> None | Some (h, s1) \<Rightarrow>
      case litChar (CHR '':'') s1 of None \<Rightarrow> None | Some s2 \<Rightarrow>
      case digitsN 2 s2 of None \<Rightarrow> None | Some (mi, s3) \<Rightarrow>
      case litChar (CHR '':'') s3 of None \<Rightarrow> None | Some s4 \<Rightarrow>
      case digitsN 2 s4 of None \<Rightarrow> None | Some (sec, s5) \<Rightarrow>
        if 23 < h \<or> 59 < mi \<or> 59 < sec then None
        else (case fraction s5 of (ns, s6) \<Rightarrow> Some (h * Hour + mi * Minute + sec * Second + ns, s6)))"

definition parseRFC3339 :: "string \<Rightarrow> gotime option" where
  "parseRFC3339 s =
     (case parseDate s of None \<Rightarrow> None | Some (day, s1) \<Rightarrow>
      case litChar (CHR ''T'') s1 of None \<Rightarrow> None | Some s2 \<Rightarrow>
      case parseClock s2 of None \<Rightarrow> None | Some (clock, s3) \<Rightarrow>
      case zone s3 of None \<Rightarrow> None | Some (off, s4) \<Rightarrow>
        if s4 = [] then Some (day + clock - off * Second) else None)"

end
