(* ===== verification/Go_Json.thy ===== *)
theory Go_Json
  imports Go_Strings
begin

text \<open>
  \<open>encoding/json\<close> as far as the source uses it: the lexer and the pushdown parser of
  \<open>json.Unmarshal\<close> (nesting limit included), the decoding of string literals (escapes, surrogates,
  invalid UTF-8), and the decoding of values into the fields of Go structs. Objects keep their
  members in order, duplicates included. Strings are Go strings, lists of bytes.
\<close>

section \<open>UTF-8\<close>

definition byteOf :: "char \<Rightarrow> nat" where
  "byteOf c = of_char c"

definition contByte :: "char \<Rightarrow> bool" where
  "contByte c \<longleftrightarrow> 128 \<le> byteOf c \<and> byteOf c \<le> 191"

definition byteIn :: "nat \<Rightarrow> nat \<Rightarrow> char \<Rightarrow> bool" where
  "byteIn lo hi c \<longleftrightarrow> lo \<le> byteOf c \<and> byteOf c \<le> hi"

text \<open>The length of the well-formed UTF-8 sequence at the head, 0 if there is none.\<close>

definition runeLen :: "string \<Rightarrow> nat" where
  "runeLen s = (case s of [] \<Rightarrow> 0 | c # r \<Rightarrow>
     (if byteOf c < 128 then 1
      else (case r of [] \<Rightarrow> 0 | c1 # r1 \<Rightarrow>
        (if byteIn 194 223 c then (if contByte c1 then 2 else 0)
         else (case r1 of [] \<Rightarrow> 0 | c2 # r2 \<Rightarrow>
           (if byteIn 224 239 c
            then (if (if byteOf c = 224 then byteIn 160 191 c1
                      else if byteOf c = 237 then byteIn 128 159 c1 else contByte c1) \<and> contByte c2
                  then 3 else 0)
            else (case r2 of [] \<Rightarrow> 0 | c3 # _ \<Rightarrow>
              (if byteIn 240 244 c \<and>
                  (if byteOf c = 240 then byteIn 144 191 c1
                   else if byteOf c = 244 then byteIn 128 143 c1 else contByte c1) \<and>
                  contByte c2 \<and> contByte c3
               then 4 else 0))))))))"

definition runeError :: string where
  "runeError = [CHR 0xEF, CHR 0xBF, CHR 0xBD]"

function toValidUtf8 :: "string \<Rightarrow> string" where
  "toValidUtf8 s =
     (if s = [] then []
      else if runeLen s = 0 then runeError @ toValidUtf8 (tl s)
      else take (runeLen s) s @ toValidUtf8 (drop (runeLen s) s))"
  by auto
termination by (relation "measure length") auto

declare toValidUtf8.simps [simp del]

lemma toValidUtf8_Nil [simp]: "toValidUtf8 [] = []"
  by (simp add: toValidUtf8.simps)

lemma toValidUtf8_ascii: "\<forall>c\<in>set s. byteOf c < 128 \<Longrightarrow> toValidUtf8 s = s"
  by (induction s) (simp_all add: toValidUtf8.simps [of "_ # _"] runeLen_def)

text \<open>\<open>utf8.EncodeRune\<close> for a code point that is no surrogate.\<close>

definition utf8Encode :: "nat \<Rightarrow> string" where
  "utf8Encode n =
     (if n < 128 then [char_of n]
      else if n < 2048 then [char_of (192 + n div 64), char_of (128 + n mod 64)]
      else if n < 65536 then
        [char_of (224 + n div 4096), char_of (128 + n div 64 mod 64), char_of (128 + n mod 64)]
      else [char_of (240 + n div 262144), char_of (128 + n div 4096 mod 64),
            char_of (128 + n div 64 mod 64), char_of (128 + n mod 64)])"

section \<open>String literals\<close>

definition hexDigit :: "char \<Rightarrow> nat option" where
  "hexDigit c =
     (if isDigit c then Some (byteOf c - 48)
      else if byteIn 97 102 c then Some (byteOf c - 87)
      else if byteIn 65 70 c then Some (byteOf c - 55)
      else None)"

definition hex4 :: "string \<Rightarrow> nat option" where
  "hex4 s =
     (if length s < 4 then None
      else if list_ex (\<lambda>c. hexDigit c = None) (take 4 s) then None
      else Some (foldl (\<lambda>n c. 16 * n + (case hexDigit c of Some d \<Rightarrow> d | None \<Rightarrow> 0)) 0 (take 4 s)))"

definition backslash :: char where
  "backslash = CHR 0x5C"

definition simpleEscapes :: "(char \<times> char) list" where
  "simpleEscapes =
     [(CHR 0x22, CHR 0x22), (CHR 0x5C, CHR 0x5C), (CHR ''/'', CHR ''/''), (CHR ''b'', CHR 0x08),
      (CHR ''f'', CHR 0x0C), (CHR ''n'', CHR 0x0A), (CHR ''r'', CHR 0x0D), (CHR ''t'', CHR 0x09)]"

text \<open>The raw text of a string literal up to its closing quote, and what follows it.\<close>

fun scanString :: "string \<Rightarrow> (string \<times> string) option" where
  "scanString [] = None"
| "scanString (c # r) =
     (if c = CHR 0x22 then Some ([], r)
      else if c = backslash then
        (case r of
           [] \<Rightarrow> None
         | e # r2 \<Rightarrow>
             if map_of simpleEscapes e \<noteq> None \<or> (e = CHR ''u'' \<and> hex4 r2 \<noteq> None)
             then map_option (\<lambda>(raw, rest). (c # e # raw, rest)) (scanString r2)
             else None)
      else if byteOf c < 32 then None
      else map_option (\<lambda>(raw, rest). (c # raw, rest)) (scanString r))"

lemma scanString_shorter: "scanString s = Some (raw, rest) \<Longrightarrow> length rest < length s"
  by (induction s arbitrary: raw rest rule: scanString.induct)
    (fastforce split: if_splits list.splits)+

definition surrogate :: "nat \<Rightarrow> bool" where
  "surrogate n \<longleftrightarrow> 55296 \<le> n \<and> n < 57344"

text \<open>\<open>utf16.DecodeRune\<close>: the code point of a high and a low surrogate.\<close>

definition surrogatePair :: "nat \<Rightarrow> nat \<Rightarrow> nat option" where
  "surrogatePair a b =
     (if 55296 \<le> a \<and> a < 56320 \<and> 56320 \<le> b \<and> b < 57344
      then Some (65536 + (a - 55296) * 1024 + (b - 56320)) else None)"

definition followingUnit :: "string \<Rightarrow> nat option" where
  "followingUnit s = (if hasPrefix s [backslash, CHR ''u''] then hex4 (drop 2 s) else None)"

function unescape :: "string \<Rightarrow> string" where
  "unescape s = (case s of [] \<Rightarrow> [] | c # r \<Rightarrow>
     if c \<noteq> backslash then c # unescape r
     else (case r of [] \<Rightarrow> [] | e # r2 \<Rightarrow>
       (case map_of simpleEscapes e of
          Some d \<Rightarrow> d # unescape r2
        | None \<Rightarrow>
           (case hex4 r2 of
              None \<Rightarrow> []
            | Some u \<Rightarrow>
                if \<not> surrogate u then utf8Encode u @ unescape (drop 4 r2)
                else (case followingUnit (drop 4 r2) of
                    None \<Rightarrow> runeError @ unescape (drop 4 r2)
                  | Some v \<Rightarrow>
                      (case surrogatePair u v of
                         Some n \<Rightarrow> utf8Encode n @ unescape (drop 10 r2)
                       | None \<Rightarrow> runeError @ unescape (drop 4 r2)))))))"
  by auto
termination by (relation "measure length") auto

declare unescape.simps [simp del]

definition unquote :: "string \<Rightarrow> string" where
  "unquote raw = unescape (toValidUtf8 raw)"

section \<open>Tokens\<close>

datatype token =
    TLBrace | TRBrace | TLBrack | TRBrack | TColon | TComma
  | TStr string | TNum string | TBool bool | TNull

definition spanDigits :: "string \<Rightarrow> string \<times> string" where
  "spanDigits s = (takeWhile isDigit s, dropWhile isDigit s)"

definition lexInt :: "string \<Rightarrow> (string \<times> string) option" where
  "lexInt s = (case s of [] \<Rightarrow> None | c # r \<Rightarrow>
     if c = CHR ''0'' then Some (''0'', r)
     else if isDigit c then Some (spanDigits s) else None)"

definition lexFrac :: "string \<Rightarrow> (string \<times> string) option" where
  "lexFrac s = (case s of [] \<Rightarrow> Some ([], []) | c # r \<Rightarrow>
     if c \<noteq> CHR ''.'' then Some ([], s)
     else let (ds, r') = spanDigits r in if ds = [] then None else Some (c # ds, r'))"

definition lexExp :: "string \<Rightarrow> (string \<times> string) option" where
  "lexExp s = (case s of [] \<Rightarrow> Some ([], []) | c # r \<Rightarrow>
     if c \<noteq> CHR ''e'' \<and> c \<noteq> CHR ''E'' then Some ([], s)
     else
       let (sg, r1) = (case r of [] \<Rightarrow> ([], []) | d # r' \<Rightarrow>
             if d = CHR ''+'' \<or> d = CHR ''-'' then ([d], r') else ([], r));
           (ds, r2) = spanDigits r1
       in if ds = [] then None else Some (c # sg @ ds, r2))"

definition lexNumber :: "string \<Rightarrow> (string \<times> string) option" where
  "lexNumber s =
     (let (sg, s1) = (if hasPrefix s ''-'' then (''-'', tl s) else ([], s)) in
      case lexInt s1 of None \<Rightarrow> None | Some (i, s2) \<Rightarrow>
      case lexFrac s2 of None \<Rightarrow> None | Some (f, s3) \<Rightarrow>
      case lexExp s3 of None \<Rightarrow> None | Some (e, s4) \<Rightarrow> Some (sg @ i @ f @ e, s4))"

lemma spanDigits_append: "spanDigits s = (a, b) \<Longrightarrow> s = a @ b"
  by (auto simp: spanDigits_def)

lemma lexNumber_append: "lexNumber s = Some (l, r) \<Longrightarrow> s = l @ r \<and> l \<noteq> []"
proof -
  have i: "lexInt s = Some (a, b) \<Longrightarrow> s = a @ b \<and> a \<noteq> []" for s a b
    by (auto simp: lexInt_def spanDigits_def split: list.splits if_splits)
  have f: "lexFrac s = Some (a, b) \<Longrightarrow> s = a @ b" for s a b
    by (auto simp: lexFrac_def spanDigits_def Let_def split: list.splits if_splits)
  have e: "lexExp s = Some (a, b) \<Longrightarrow> s = a @ b" for s a b
    by (auto simp: lexExp_def spanDigits_def Let_def split: list.splits if_splits)
  assume "lexNumber s = Some (l, r)"
  then show ?thesis
    using hasPrefix_iff [of s "''-''"]
    by (auto simp: lexNumber_def Let_def split: if_splits option.splits prod.splits
        dest!: i f e)
qed

lemma lexNumber_shorter: "lexNumber s = Some (l, r) \<Longrightarrow> length r < length s"
  by (drule lexNumber_append) auto

definition isWs :: "char \<Rightarrow> bool" where
  "isWs c \<longleftrightarrow> c \<in> {CHR '' '', CHR 0x09, CHR 0x0A, CHR 0x0D}"

definition punct :: "(char \<times> token) list" where
  "punct = [(CHR ''{'', TLBrace), (CHR ''}'', TRBrace), (CHR ''['', TLBrack), (CHR '']'', TRBrack),
     (CHR '':'', TColon), (CHR '','', TComma)]"

definition literals :: "(string \<times> token) list" where
  "literals = [(''true'', TBool True), (''false'', TBool False), (''null'', TNull)]"

text \<open>One token that is not preceded by white space, and the rest of the text.\<close>

definition lexOne :: "string \<Rightarrow> (token \<times> string) option" where
  "lexOne s = (case s of [] \<Rightarrow> None | c # r \<Rightarrow>
     (case map_of punct c of Some t \<Rightarrow> Some (t, r) | None \<Rightarrow>
      if c = CHR 0x22 then map_option (\<lambda>(raw, r'). (TStr (unquote raw), r')) (scanString r)
      else (case find (\<lambda>(w, t). hasPrefix s w) literals of
          Some (w, t) \<Rightarrow> Some (t, drop (length w) s)
        | None \<Rightarrow> map_option (\<lambda>(l, r'). (TNum l, r')) (lexNumber s))))"

lemma lexOne_shorter: "lexOne s = Some (t, r) \<Longrightarrow> length r < length s"
  by (auto simp: lexOne_def literals_def split: list.splits option.splits if_splits
      dest!: scanString_shorter lexNumber_shorter)

function lexAll :: "string \<Rightarrow> token list option" where
  "lexAll s =
     (if s = [] then Some []
      else if isWs (hd s) then lexAll (tl s)
      else (case lexOne s of
          None \<Rightarrow> None
        | Some (t, r) \<Rightarrow> map_option ((#) t) (lexAll r)))"
  by auto
termination by (relation "measure length") (auto dest: lexOne_shorter)

declare lexAll.simps [simp del]

section \<open>The parser\<close>

datatype json =
    JNull
  | JBool bool
  | JNum string
  | JStr string
  | JArr "json list"
  | JObj "(string \<times> json) list"

datatype frame =
    FArr "json list"
  | FObj "(string \<times> json) list" string

abbreviation maxNesting :: nat where
  "maxNesting \<equiv> 10000"

text \<open>What the parser expects next: the states of the scanner's pushdown automaton.\<close>

datatype expect = EVal | EFirstElem | EFirstKey | EKey | EColon string | EAfter json

type_synonym config = "frame list \<times> expect"

definition startValue :: "token \<Rightarrow> frame list \<Rightarrow> config option" where
  "startValue t st = (case t of
     TStr s \<Rightarrow> Some (st, EAfter (JStr s))
   | TNum l \<Rightarrow> Some (st, EAfter (JNum l))
   | TBool b \<Rightarrow> Some (st, EAfter (JBool b))
   | TNull \<Rightarrow> Some (st, EAfter JNull)
   | TLBrack \<Rightarrow> if maxNesting \<le> length st then None else Some (FArr [] # st, EFirstElem)
   | TLBrace \<Rightarrow> if maxNesting \<le> length st then None else Some (FObj [] [] # st, EFirstKey)
   | _ \<Rightarrow> None)"

definition jstep :: "token \<Rightarrow> config \<Rightarrow> config option" where
  "jstep t c = (case c of (st, e) \<Rightarrow> (case e of
     EVal \<Rightarrow> startValue t st
   | EFirstElem \<Rightarrow> if t = TRBrack then Some (tl st, EAfter (JArr [])) else startValue t st
   | EFirstKey \<Rightarrow> (case t of
        TRBrace \<Rightarrow> Some (tl st, EAfter (JObj []))
      | TStr k \<Rightarrow> Some (st, EColon k)
      | _ \<Rightarrow> None)
   | EKey \<Rightarrow> (case t of TStr k \<Rightarrow> Some (st, EColon k) | _ \<Rightarrow> None)
   | EColon k \<Rightarrow> (case st of
        FObj ms _ # st' \<Rightarrow> if t = TColon then Some (FObj ms k # st', EVal) else None
      | _ \<Rightarrow> None)
   | EAfter v \<Rightarrow> (case st of
        [] \<Rightarrow> None
      | FArr xs # st' \<Rightarrow>
          if t = TComma then Some (FArr (v # xs) # st', EVal)
          else if t = TRBrack then Some (st', EAfter (JArr (rev (v # xs)))) else None
      | FObj ms k # st' \<Rightarrow>
          if t = TComma then Some (FObj ((k, v) # ms) [] # st', EKey)
          else if t = TRBrace then Some (st', EAfter (JObj (rev ((k, v) # ms)))) else None)))"

fun jrun :: "token list \<Rightarrow> config \<Rightarrow> config option" where
  "jrun [] c = Some c"
| "jrun (t # ts) c = (case jstep t c of None \<Rightarrow> None | Some c' \<Rightarrow> jrun ts c')"

definition parseTokens :: "token list \<Rightarrow> json option" where
  "parseTokens ts = (case jrun ts ([], EVal) of Some ([], EAfter v) \<Rightarrow> Some v | _ \<Rightarrow> None)"

definition parseJson :: "string \<Rightarrow> json option" where
  "parseJson s = (case lexAll s of None \<Rightarrow> None | Some ts \<Rightarrow> parseTokens ts)"

section \<open>The parser accepts exactly the values\<close>

fun commaSep :: "token list list \<Rightarrow> token list" where
  "commaSep [] = []"
| "commaSep [x] = x"
| "commaSep (x # y # zs) = x @ TComma # commaSep (y # zs)"

fun linear :: "json \<Rightarrow> token list" where
  "linear JNull = [TNull]"
| "linear (JBool b) = [TBool b]"
| "linear (JNum l) = [TNum l]"
| "linear (JStr s) = [TStr s]"
| "linear (JArr xs) = TLBrack # commaSep (map linear xs) @ [TRBrack]"
| "linear (JObj ms) = TLBrace # commaSep (map (\<lambda>(k, v). TStr k # TColon # linear v) ms) @ [TRBrace]"

fun nesting :: "json \<Rightarrow> nat" where
  "nesting (JArr xs) = Suc (foldr max (map nesting xs) 0)"
| "nesting (JObj ms) = Suc (foldr max (map (\<lambda>(k, v). nesting v) ms) 0)"
| "nesting _ = 0"

lemma nesting_obj: "nesting (JObj ms) = Suc (foldr max (map (\<lambda>m. nesting (snd m)) ms) 0)"
  by (simp add: case_prod_beta cong: map_cong)

lemma commaSep_snoc: "commaSep (xs @ [y]) = concat (map (\<lambda>x. x @ [TComma]) xs) @ y"
proof (induction xs)
  case (Cons x xs)
  then show ?case by (cases xs) simp_all
qed simp

text \<open>The tokens that lead to a configuration.\<close>

definition pendingKey :: "frame list \<Rightarrow> token list" where
  "pendingKey st = (case st of FObj ms k # _ \<Rightarrow> [TStr k, TColon] | _ \<Rightarrow> [])"

definition member :: "string \<times> json \<Rightarrow> token list" where
  "member m = TStr (fst m) # TColon # linear (snd m)"

fun opened :: "frame list \<Rightarrow> token list" where
  "opened [] = []"
| "opened (FArr xs # st) =
     opened st @ pendingKey st @ TLBrack # concat (map (\<lambda>v. linear v @ [TComma]) (rev xs))"
| "opened (FObj ms k # st) =
     opened st @ pendingKey st @ TLBrace # concat (map (\<lambda>m. member m @ [TComma]) (rev ms))"

fun consumed :: "config \<Rightarrow> token list" where
  "consumed (st, EVal) = opened st @ pendingKey st"
| "consumed (st, EFirstElem) = opened st"
| "consumed (st, EFirstKey) = opened st"
| "consumed (st, EKey) = opened st"
| "consumed (st, EColon k) = opened st @ [TStr k]"
| "consumed (st, EAfter v) = opened st @ pendingKey st @ linear v"

fun frame_values :: "frame \<Rightarrow> json list" where
  "frame_values (FArr xs) = xs"
| "frame_values (FObj ms k) = map snd ms"

fun frames_ok :: "frame list \<Rightarrow> bool" where
  "frames_ok [] = True"
| "frames_ok (f # st) \<longleftrightarrow> frames_ok st \<and> length st < maxNesting \<and>
     list_all (\<lambda>v. nesting v + Suc (length st) \<le> maxNesting) (frame_values f)"

fun config_ok :: "config \<Rightarrow> bool" where
  "config_ok (st, EFirstElem) \<longleftrightarrow> frames_ok st \<and> (\<exists>st'. st = FArr [] # st')"
| "config_ok (st, EFirstKey) \<longleftrightarrow> frames_ok st \<and> (\<exists>st' k. st = FObj [] k # st')"
| "config_ok (st, EKey) \<longleftrightarrow> frames_ok st \<and> (\<exists>st' ms k. st = FObj ms k # st')"
| "config_ok (st, EColon k) \<longleftrightarrow> frames_ok st \<and> (\<exists>st' ms k. st = FObj ms k # st')"
| "config_ok (st, EVal) \<longleftrightarrow> frames_ok st"
| "config_ok (st, EAfter v) \<longleftrightarrow> frames_ok st \<and> nesting v + length st \<le> maxNesting"

lemma nesting_bound:
  "list_all (\<lambda>v. nesting v + Suc n \<le> m) xs \<Longrightarrow> Suc n \<le> m \<Longrightarrow> nesting (JArr xs) + n \<le> m"
  by (induction xs) auto

lemma nesting_bound_obj:
  "list_all (\<lambda>v. nesting v + Suc n \<le> m) (map snd ms) \<Longrightarrow> Suc n \<le> m \<Longrightarrow> nesting (JObj ms) + n \<le> m"
  by (induction ms) auto

lemma linear_arr_rev:
  "linear (JArr (rev xs @ [v])) =
   TLBrack # concat (map (\<lambda>v. linear v @ [TComma]) (rev xs)) @ linear v @ [TRBrack]"
  by (simp add: commaSep_snoc comp_def)

lemma linear_obj: "linear (JObj ms) = TLBrace # commaSep (map member ms) @ [TRBrace]"
  by (simp add: member_def case_prod_beta cong: map_cong)

lemma linear_obj_rev:
  "linear (JObj (rev ms @ [m])) =
   TLBrace # concat (map (\<lambda>m. member m @ [TComma]) (rev ms)) @ member m @ [TRBrace]"
  by (simp only: linear_obj map_append list.map commaSep_snoc map_map comp_def append.simps append_assoc)

lemma frames_ok_length: "frames_ok st \<Longrightarrow> length st \<le> maxNesting"
  by (cases st) auto

lemma startValue_consumed:
  assumes "startValue t st = Some c'" and "frames_ok st"
  shows "consumed c' = opened st @ pendingKey st @ [t] \<and> config_ok c'"
  using assms
  using frames_ok_length [OF assms(2)]
  by (cases t) (auto simp: startValue_def pendingKey_def [of "_ # _"] split: if_splits)

lemma jstep_consumed:
  assumes "jstep t c = Some c'" and "config_ok c"
  shows "consumed c' = consumed c @ [t] \<and> config_ok c'"
proof -
  obtain st e where c: "c = (st, e)" by (cases c)
  show ?thesis
  proof (cases e)
    case EVal
    then show ?thesis using assms c startValue_consumed [of t st c'] by (simp add: jstep_def)
  next
    case EFirstElem
    with assms c obtain st' where st: "st = FArr [] # st'" by auto
    show ?thesis
      using assms startValue_consumed [of t st c'] EFirstElem c st
      by (auto simp: jstep_def pendingKey_def [of "FArr [] # st'"] split: if_splits)
  next
    case EFirstKey
    then show ?thesis using assms c by (auto simp: jstep_def split: token.splits)
  next
    case EKey
    then show ?thesis using assms c by (auto simp: jstep_def split: token.splits)
  next
    case (EColon k)
    then show ?thesis using assms c by (auto simp: jstep_def pendingKey_def split: if_splits)
  next
    case (EAfter v)
    show ?thesis
    proof (cases st)
      case Nil
      then show ?thesis using assms c EAfter by (simp add: jstep_def)
    next
      case (Cons f st')
      show ?thesis
      proof (cases f)
        case (FArr xs)
        have "nesting (JArr (rev xs @ [v])) + length st' \<le> maxNesting"
          using assms(2) c EAfter Cons FArr by (intro nesting_bound) (auto simp: list_all_rev)
        then show ?thesis
          using assms c EAfter Cons FArr
          by (auto simp: jstep_def linear_arr_rev pendingKey_def [of "FArr _ # st'"]
              simp del: linear.simps nesting.simps split: if_splits)
      next
        case (FObj ms k)
        have "nesting (JObj (rev ms @ [(k, v)])) + length st' \<le> maxNesting"
          using assms(2) c EAfter Cons FObj by (intro nesting_bound_obj) (auto simp: list_all_iff)
        then show ?thesis
          using assms c EAfter Cons FObj
          by (auto simp: jstep_def linear_obj_rev pendingKey_def [of "FObj _ _ # st'"] member_def [of "(k, v)"]
              simp del: linear.simps nesting.simps split: if_splits)
      qed
    qed
  qed
qed

lemma jrun_consumed:
  "jrun ts c = Some c' \<Longrightarrow> config_ok c \<Longrightarrow> consumed c' = consumed c @ ts \<and> config_ok c'"
proof (induction ts arbitrary: c)
  case (Cons t ts)
  then show ?case using jstep_consumed [of t c] by (auto split: option.splits)
qed simp

lemma jrun_append: "jrun (xs @ ys) c = (case jrun xs c of None \<Rightarrow> None | Some c' \<Rightarrow> jrun ys c')"
  by (induction xs arbitrary: c) (auto split: option.split)

lemma linear_start: "\<exists>t ts. linear v = t # ts \<and> t \<noteq> TRBrack"
  by (cases v) simp_all

lemma jrun_first_elem:
  "jrun (linear v @ ts) (st, EFirstElem) = jrun (linear v @ ts) (st, EVal)"
  using linear_start [of v] by (auto simp: jstep_def)

lemma jrun_elems:
  assumes "\<And>v st. v \<in> set xs \<Longrightarrow> length st + nesting v \<le> maxNesting \<Longrightarrow>
      jrun (linear v) (st, EVal) = Some (st, EAfter v)"
    and "xs \<noteq> []" and "Suc (length st) + foldr max (map nesting xs) 0 \<le> maxNesting"
  shows "jrun (commaSep (map linear xs) @ [TRBrack]) (FArr acc # st, EVal) =
    Some (st, EAfter (JArr (rev acc @ xs)))"
  using assms
proof (induction xs arbitrary: acc)
  case (Cons x xs)
  have x: "jrun (linear x) (FArr acc # st, EVal) = Some (FArr acc # st, EAfter x)"
    using Cons.prems(3) by (intro Cons.prems(1)) auto
  show ?case
  proof (cases xs)
    case Nil
    then show ?thesis using x by (simp add: jrun_append jstep_def)
  next
    case (Cons y ys)
    have "jrun (commaSep (map linear xs) @ [TRBrack]) (FArr (x # acc) # st, EVal) =
      Some (st, EAfter (JArr (rev (x # acc) @ xs)))"
      using Cons.prems Cons by (intro Cons.IH) auto
    then show ?thesis using x Cons by (simp add: jrun_append jstep_def)
  qed
qed simp

lemma jrun_members:
  assumes "\<And>m st. m \<in> set ms \<Longrightarrow> length st + nesting (snd m) \<le> maxNesting \<Longrightarrow>
      jrun (linear (snd m)) (st, EVal) = Some (st, EAfter (snd m))"
    and "ms \<noteq> []" and "Suc (length st) + foldr max (map (\<lambda>m. nesting (snd m)) ms) 0 \<le> maxNesting"
    and "e = EKey \<or> e = EFirstKey"
  shows "jrun (commaSep (map member ms) @ [TRBrace]) (FObj acc k0 # st, e) =
    Some (st, EAfter (JObj (rev acc @ ms)))"
  using assms
proof (induction ms arbitrary: acc k0 e)
  case (Cons m ms)
  obtain k v where m: "m = (k, v)" by (cases m)
  have "jrun (linear v) (FObj acc k # st, EVal) = Some (FObj acc k # st, EAfter v)"
    using Cons.prems(1) [of m "FObj acc k # st"] Cons.prems(3) by (auto simp: m)
  then have x: "jrun (member m) (FObj acc k0 # st, e) = Some (FObj acc k # st, EAfter v)"
    using Cons.prems(4) by (auto simp: m member_def jstep_def)
  show ?case
  proof (cases ms)
    case Nil
    then show ?thesis using x by (simp add: jrun_append jstep_def m)
  next
    case (Cons m' ms')
    have "jrun (commaSep (map member ms) @ [TRBrace]) (FObj ((k, v) # acc) [] # st, EKey) =
      Some (st, EAfter (JObj (rev ((k, v) # acc) @ ms)))"
      using Cons.prems Cons by (intro Cons.IH) auto
    then show ?thesis using x Cons by (simp add: jrun_append jstep_def m)
  qed
qed simp

lemma jrun_linear:
  "length st + nesting v \<le> maxNesting \<Longrightarrow> jrun (linear v) (st, EVal) = Some (st, EAfter v)"
proof (induction v arbitrary: st)
  case (JArr xs)
  then have len: "length st < maxNesting" by simp
  show ?case
  proof (cases xs)
    case Nil
    then show ?thesis using len by (simp add: jstep_def startValue_def)
  next
    case (Cons y ys)
    have "jrun (commaSep (map linear xs) @ [TRBrack]) (FArr [] # st, EVal) =
        Some (st, EAfter (JArr (rev [] @ xs)))"
      using JArr Cons by (intro jrun_elems) auto
    moreover have "\<exists>ts. commaSep (map linear xs) @ [TRBrack] = linear y @ ts"
      using Cons by (cases ys) auto
    ultimately have "jrun (commaSep (map linear xs) @ [TRBrack]) (FArr [] # st, EFirstElem) =
        Some (st, EAfter (JArr xs))"
      using jrun_first_elem [of y] by auto
    then show ?thesis using len by (simp add: jstep_def startValue_def)
  qed
next
  case (JObj ms)
  then have len: "length st < maxNesting" by simp
  show ?case
  proof (cases "ms = []")
    case True
    then show ?thesis using len by (simp add: jstep_def startValue_def)
  next
    case False
    have "jrun (commaSep (map member ms) @ [TRBrace]) (FObj [] [] # st, EFirstKey) =
        Some (st, EAfter (JObj (rev [] @ ms)))"
      using JObj False
      by (intro jrun_members) (auto simp: nesting_obj snds.simps simp del: nesting.simps)
    then show ?thesis using len by (simp only: linear_obj) (simp add: jstep_def startValue_def)
  qed
qed (simp_all add: jstep_def startValue_def)

text \<open>The parser returns a value exactly when the tokens are that value's, nested within the limit.\<close>

lemma parseTokens_iff: "parseTokens ts = Some v \<longleftrightarrow> ts = linear v \<and> nesting v \<le> maxNesting"
proof
  assume "parseTokens ts = Some v"
  then have "jrun ts ([], EVal) = Some ([], EAfter v)"
    by (auto simp: parseTokens_def split: option.splits list.splits expect.splits)
  from jrun_consumed [OF this] show "ts = linear v \<and> nesting v \<le> maxNesting"
    by (simp add: pendingKey_def)
next
  assume "ts = linear v \<and> nesting v \<le> maxNesting"
  then show "parseTokens ts = Some v"
    using jrun_linear [of "[]" v] by (simp add: parseTokens_def)
qed

section \<open>Decoding into Go values\<close>

text \<open>
  A field of a struct is found by its name, ASCII case and the two non-ASCII letters that fold to
  ASCII ones disregarded; unknown members are skipped, the last duplicate wins, \<open>null\<close> leaves a value
  of a non-pointer type as it is. \<open>None\<close> is an \<open>UnmarshalTypeError\<close>: every use in the source drops the
  whole value on an error.
\<close>

fun foldName :: "string \<Rightarrow> string" where
  "foldName (a # b # c # r) =
     (if [a, b, c] = [CHR 0xE2, CHR 0x84, CHR 0xAA] then CHR ''K'' # foldName r
      else if [a, b] = [CHR 0xC5, CHR 0xBF] then CHR ''S'' # foldName (c # r)
      else upperChar a # foldName (b # c # r))"
| "foldName [a, b] = (if [a, b] = [CHR 0xC5, CHR 0xBF] then ''S'' else [upperChar a, upperChar b])"
| "foldName [a] = [upperChar a]"
| "foldName [] = []"

type_synonym 's fields = "(string \<times> (json \<Rightarrow> 's \<Rightarrow> 's option)) list"

definition decodeMember :: "'s fields \<Rightarrow> string \<times> json \<Rightarrow> 's option \<Rightarrow> 's option" where
  "decodeMember fs m acc = (case acc of None \<Rightarrow> None | Some s \<Rightarrow>
     (case find (\<lambda>(n, f). foldName n = foldName (fst m)) fs of
        None \<Rightarrow> Some s
      | Some (n, f) \<Rightarrow> f (snd m) s))"

definition decodeStruct :: "'s fields \<Rightarrow> json \<Rightarrow> 's \<Rightarrow> 's option" where
  "decodeStruct fs v s = (case v of
     JNull \<Rightarrow> Some s
   | JObj ms \<Rightarrow> fold (decodeMember fs) ms (Some s)
   | _ \<Rightarrow> None)"

definition decodeInt64 :: "json \<Rightarrow> int \<Rightarrow> int option" where
  "decodeInt64 v old = (case v of JNull \<Rightarrow> Some old | JNum l \<Rightarrow> parseInt64 l | _ \<Rightarrow> None)"

definition decodeBool :: "json \<Rightarrow> bool \<Rightarrow> bool option" where
  "decodeBool v old = (case v of JNull \<Rightarrow> Some old | JBool b \<Rightarrow> Some b | _ \<Rightarrow> None)"

definition decodeStr :: "json \<Rightarrow> string \<Rightarrow> string option" where
  "decodeStr v old = (case v of JNull \<Rightarrow> Some old | JStr t \<Rightarrow> Some t | _ \<Rightarrow> None)"

text \<open>A pointer: \<open>null\<close> makes it nil, anything else is decoded into what it points to.\<close>

definition decodePtr :: "(json \<Rightarrow> 'a \<Rightarrow> 'a option) \<Rightarrow> 'a \<Rightarrow> json \<Rightarrow> 'a option \<Rightarrow> 'a option option" where
  "decodePtr f zero v old =
     (if v = JNull then Some None
      else map_option Some (f v (case old of None \<Rightarrow> zero | Some x \<Rightarrow> x)))"

text \<open>\<open>json.Unmarshal\<close> into a struct: the whole text is checked first.\<close>

definition unmarshal :: "(json \<Rightarrow> 's \<Rightarrow> 's option) \<Rightarrow> 's \<Rightarrow> string \<Rightarrow> 's option" where
  "unmarshal f s body = (case parseJson body of None \<Rightarrow> None | Some v \<Rightarrow> f v s)"

end
