(* ===== verification/Rotate.thy ===== *)
theory Rotate
  imports Go_Json
begin

text \<open>
  rotate.go: which replies of an upstream are failures of the key, and which statuses are transient.
  The regular expressions are alternations of literals under \<open>(?i)\<close>; Go folds case by Unicode, so
  the letter s also matches U+017F and the letter k U+212A, given here by their UTF-8 bytes.
\<close>

section \<open>Case-insensitive literals\<close>

fun litRest :: "string \<Rightarrow> string \<Rightarrow> string option" where
  "litRest [] s = Some s"
| "litRest (p # ps) s =
     (case s of
        [] \<Rightarrow> None
      | c # r \<Rightarrow>
          if lowerChar c = p then litRest ps r
          else if p = CHR ''s'' \<and> hasPrefix s [CHR 0xC5, CHR 0xBF] then litRest ps (drop 2 s)
          else if p = CHR ''k'' \<and> hasPrefix s [CHR 0xE2, CHR 0x84, CHR 0xAA] then litRest ps (drop 3 s)
          else None)"

definition litMatches :: "string \<Rightarrow> string \<Rightarrow> bool" where
  "litMatches s lit \<longleftrightarrow> litRest lit s \<noteq> None"

text \<open>\<open>Find\<close>: the leftmost position, and there the first alternative that matches.\<close>

fun findLits :: "string list \<Rightarrow> string \<Rightarrow> string option" where
  "findLits lits s =
     (case find (litMatches s) lits of
        Some lit \<Rightarrow> map_option (\<lambda>rest. take (length s - length rest) s) (litRest lit s)
      | None \<Rightarrow> (case s of [] \<Rightarrow> None | c # r \<Rightarrow> findLits lits r))"

declare findLits.simps [simp del]

definition matchLits :: "string list \<Rightarrow> string \<Rightarrow> bool" where
  "matchLits lits s \<longleftrightarrow> findLits lits s \<noteq> None"

lemma findLits_Some_iff:
  "findLits lits s \<noteq> None \<longleftrightarrow> (\<exists>pre post. s = pre @ post \<and> (\<exists>lit\<in>set lits. litMatches post lit))"
proof (induction s)
  case Nil
  show ?case
  proof (cases "find (litMatches []) lits")
    case None
    then have "\<forall>lit\<in>set lits. \<not> litMatches [] lit" by (simp add: find_None_iff)
    then show ?thesis using None by (simp add: findLits.simps)
  next
    case (Some lit)
    then have "lit \<in> set lits" "litMatches [] lit" by (auto simp: find_Some_iff)
    then show ?thesis using Some by (auto simp: findLits.simps litMatches_def)
  qed
next
  case (Cons c r)
  have tail: "(\<exists>pre post. c # r = pre @ post \<and> (\<exists>lit\<in>set lits. litMatches post lit)) \<longleftrightarrow>
      (\<exists>lit\<in>set lits. litMatches (c # r) lit) \<or>
      (\<exists>pre post. r = pre @ post \<and> (\<exists>lit\<in>set lits. litMatches post lit))"
    by (auto simp: Cons_eq_append_conv)
  show ?case
  proof (cases "find (litMatches (c # r)) lits")
    case None
    then have "\<forall>lit\<in>set lits. \<not> litMatches (c # r) lit" by (simp add: find_None_iff)
    then show ?thesis unfolding tail using Cons.IH None by (simp add: findLits.simps [of _ "c # r"])
  next
    case (Some lit)
    then have "lit \<in> set lits" "litMatches (c # r) lit" by (auto simp: find_Some_iff)
    then show ?thesis unfolding tail using Some by (auto simp: findLits.simps [of _ "c # r"] litMatches_def)
  qed
qed

lemma matchLits_mono: "set lits \<subseteq> set lits' \<Longrightarrow> matchLits lits s \<Longrightarrow> matchLits lits' s"
  unfolding matchLits_def findLits_Some_iff by blast

lemma matchLits_append: "matchLits lits s \<Longrightarrow> matchLits lits (l @ s)"
  unfolding matchLits_def findLits_Some_iff by (metis append_assoc)

section \<open>The patterns\<close>

text \<open>\<open>insufficient credits?\<close> is greedy: the plural is tried first.\<close>

definition rejectDenylist :: "string list" where
  "rejectDenylist = [''insufficient credits'', ''insufficient credit'', ''rate limit'', ''exceeded'',
     ''payment required'', ''unauthorized'', ''forbidden'']"

definition creditExhaustedPattern :: "string list" where
  "creditExhaustedPattern = [''insufficient credits'', ''insufficient credit'', ''payment required'', ''exceeded'']"

text \<open>\<open>concurr\w*\<close> matches wherever \<open>concurr\<close> does; the code only asks whether there is a match.\<close>

definition concurrency429Pattern :: "string list" where
  "concurrency429Pattern = [''concurr'', ''browser limit'']"

definition isConcurrency429 :: "string \<Rightarrow> bool" where
  "isConcurrency429 body \<longleftrightarrow> matchLits concurrency429Pattern body"

section \<open>Failures\<close>

definition successField :: "json \<Rightarrow> bool option \<Rightarrow> bool option option" where
  "successField v s = decodeStruct [(''success'', decodePtr decodeBool False)] v s"

definition firecrawlFailure :: "int \<Rightarrow> string \<Rightarrow> bool" where
  "firecrawlFailure status body =
     (if 400 \<le> status \<and> status < 500 then True
      else (case unmarshal successField None body of
          Some (Some b) \<Rightarrow> \<not> b
        | _ \<Rightarrow> False))"

definition shouldRetry :: "int \<Rightarrow> bool \<Rightarrow> bool" where
  "shouldRetry status networkErr =
     (if networkErr then True else status \<in> {403, 408, 500, 502, 503, 504})"

lemma credit_text_is_denied: "matchLits creditExhaustedPattern s \<Longrightarrow> matchLits rejectDenylist s"
  by (rule matchLits_mono) (auto simp: creditExhaustedPattern_def rejectDenylist_def)

end
