(* ===== verification/Go_Float.thy ===== *)
theory Go_Float
  imports Complex_Main Go_Json
begin

text \<open>
  \<open>float64\<close> as the source uses it: parsing a decimal literal, product, difference, comparison,
  \<open>math.Round\<close> and the conversion to \<open>int64\<close>. A finite value is \<open>m * 2 ^ e\<close> over the integers (the
  sign of zero, which nothing below observes, is not kept); rounding is to nearest, ties to even,
  with the exponent range of binary64. Every definition computes over \<open>int\<close>.
\<close>

datatype f64 = Finite int int | Infinite bool | NotANumber

function bitlen :: "int \<Rightarrow> int" where
  "bitlen n = (if n \<le> 0 then 0 else 1 + bitlen (n div 2))"
  by auto
termination by (relation "measure nat") auto

declare bitlen.simps [simp del]

section \<open>Rounding a ratio\<close>

definition divRNE :: "int \<Rightarrow> int \<Rightarrow> int" where
  "divRNE x y =
     (let q = x div y; r = x mod y in if y < 2 * r \<or> (y = 2 * r \<and> odd q) then q + 1 else q)"

definition scaleNum :: "int \<Rightarrow> int \<Rightarrow> int" where
  "scaleNum a e = (if e < 0 then a * 2 ^ nat (- e) else a)"

definition scaleDen :: "int \<Rightarrow> int \<Rightarrow> int" where
  "scaleDen d e = (if e < 0 then d else d * 2 ^ nat e)"

definition ratioExp :: "int \<Rightarrow> int \<Rightarrow> int" where
  "ratioExp a d =
     (let e0 = max (bitlen a - bitlen d - 53) (- 1074)
      in if scaleNum a e0 div scaleDen d e0 < 2 ^ 53 then e0 else e0 + 1)"

text \<open>The double nearest to \<open>n / d\<close>, for \<open>d > 0\<close>.\<close>

definition roundRatio :: "int \<Rightarrow> int \<Rightarrow> f64" where
  "roundRatio n d =
     (if n = 0 then Finite 0 0
      else
        let a = \<bar>n\<bar>; e = ratioExp a d; m = divRNE (scaleNum a e) (scaleDen d e)
        in if 971 < e \<or> (e = 971 \<and> m = 2 ^ 53) then Infinite (n < 0) else Finite (sgn n * m) e)"

definition roundScaled :: "int \<Rightarrow> int \<Rightarrow> f64" where
  "roundScaled m e = roundRatio (m * 2 ^ nat e) (2 ^ nat (- e))"

section \<open>Operations\<close>

definition isNeg :: "f64 \<Rightarrow> bool" where
  "isNeg x = (case x of Finite m e \<Rightarrow> m < 0 | Infinite s \<Rightarrow> s | NotANumber \<Rightarrow> False)"

definition isZeroF :: "f64 \<Rightarrow> bool" where
  "isZeroF x = (case x of Finite m e \<Rightarrow> m = 0 | _ \<Rightarrow> False)"

definition fmul :: "f64 \<Rightarrow> f64 \<Rightarrow> f64" where
  "fmul x y = (case (x, y) of
     (Finite m e, Finite n f) \<Rightarrow> roundScaled (m * n) (e + f)
   | (NotANumber, _) \<Rightarrow> NotANumber
   | (_, NotANumber) \<Rightarrow> NotANumber
   | _ \<Rightarrow> if isZeroF x \<or> isZeroF y then NotANumber else Infinite (isNeg x \<noteq> isNeg y))"

definition fsub :: "f64 \<Rightarrow> f64 \<Rightarrow> f64" where
  "fsub x y = (case (x, y) of
     (Finite m e, Finite n f) \<Rightarrow>
       let g = min e f in roundScaled (m * 2 ^ nat (e - g) - n * 2 ^ nat (f - g)) g
   | (NotANumber, _) \<Rightarrow> NotANumber
   | (_, NotANumber) \<Rightarrow> NotANumber
   | (Infinite s, Infinite t) \<Rightarrow> if s = t then NotANumber else Infinite s
   | (Infinite s, Finite _ _) \<Rightarrow> Infinite s
   | (Finite _ _, Infinite t) \<Rightarrow> Infinite (\<not> t))"

text \<open>\<open>x <= 0\<close> and \<open>x < 0\<close>; a NaN compares false.\<close>

definition fle0 :: "f64 \<Rightarrow> bool" where
  "fle0 x = (case x of Finite m e \<Rightarrow> m \<le> 0 | Infinite s \<Rightarrow> s | NotANumber \<Rightarrow> False)"

definition fint :: "int \<Rightarrow> f64" where
  "fint n = roundRatio n 1"

text \<open>\<open>math.Round\<close>: to the nearest integer, halves away from zero.\<close>

definition mathRound :: "f64 \<Rightarrow> f64" where
  "mathRound x = (case x of
     Finite m e \<Rightarrow>
       if 0 \<le> e then x
       else let d = 2 ^ nat (- e) in Finite (sgn m * ((2 * \<bar>m\<bar> + d) div (2 * d))) 0
   | _ \<Rightarrow> x)"

text \<open>
  The conversion \<open>int64(x)\<close>: truncation; out of range and NaN are implementation-defined in Go, and
  the smallest \<open>int64\<close> on amd64.
\<close>

definition toInt64 :: "f64 \<Rightarrow> int" where
  "toInt64 x = (case x of
     Finite m e \<Rightarrow>
       let t = (if 0 \<le> e then m * 2 ^ nat e else sgn m * (\<bar>m\<bar> div 2 ^ nat (- e)))
       in if in64 t then t else MinInt64
   | _ \<Rightarrow> MinInt64)"

section \<open>Decimal literals\<close>

definition digitsNat :: "string \<Rightarrow> int" where
  "digitsNat ds = foldl (\<lambda>n c. 10 * n + digitVal c) 0 ds"

text \<open>The exponent stops growing once it has five digits.\<close>

definition expNat :: "string \<Rightarrow> int" where
  "expNat ds = foldl (\<lambda>e c. if e < 10000 then 10 * e + digitVal c else e) 0 ds"

definition decimalValue :: "bool \<Rightarrow> int \<Rightarrow> int \<Rightarrow> nat \<Rightarrow> f64" where
  "decimalValue neg D E nd =
     (let s = (if neg then - 1 else 1) in
      if D = 0 then Finite 0 0
      else if 310 < E + int nd then Infinite neg
      else if E + int nd < - 330 then Finite 0 0
      else if 0 \<le> E then roundRatio (s * D * 10 ^ nat E) 1
      else roundRatio (s * D) (10 ^ nat (- E)))"

text \<open>
  \<open>strconv.ParseFloat(l, 64)\<close> of a literal of the JSON grammar; \<open>None\<close> is its range error. \<open>nd\<close> counts
  the digits of the integer part and the fraction, leading zeros not.
\<close>

definition parseFloatLit :: "string \<Rightarrow> f64 option" where
  "parseFloatLit l =
     (let neg = hasPrefix l ''-'';
          s = (if neg then tl l else l);
          ip = takeWhile isDigit s; s1 = dropWhile isDigit s;
          fp = (if hasPrefix s1 ''.'' then takeWhile isDigit (tl s1) else []);
          s2 = (if hasPrefix s1 ''.'' then dropWhile isDigit (tl s1) else s1);
          es = (if s2 = [] then [] else tl s2);
          eneg = hasPrefix es ''-'';
          ed = (if eneg \<or> hasPrefix es ''+'' then tl es else es);
          E = (if eneg then - expNat ed else expNat ed);
          nd = length (dropWhile (\<lambda>c. c = CHR ''0'') (ip @ fp));
          x = decimalValue neg (digitsNat (ip @ fp)) (E - int (length fp)) nd
      in case x of Infinite _ \<Rightarrow> None | _ \<Rightarrow> Some x)"

definition decodeFloat :: "json \<Rightarrow> f64 \<Rightarrow> f64 option" where
  "decodeFloat v old = (case v of JNull \<Rightarrow> Some old | JNum l \<Rightarrow> parseFloatLit l | _ \<Rightarrow> None)"

section \<open>Rounding error\<close>

definition fval :: "int \<Rightarrow> int \<Rightarrow> real" where
  "fval m e = real_of_int m * 2 powi e"

lemma divRNE_err:
  assumes "0 < y"
  shows "\<bar>real_of_int (divRNE x y) - real_of_int x / real_of_int y\<bar> \<le> 1 / 2"
proof -
  have x: "x = y * (x div y) + x mod y" by simp
  have r: "0 \<le> x mod y" "x mod y < y" using assms by simp_all
  have "real_of_int x = real_of_int y * real_of_int (x div y) + real_of_int (x mod y)"
    by (metis x of_int_add of_int_mult)
  then have "real_of_int x / real_of_int y = real_of_int (x div y) + real_of_int (x mod y) / real_of_int y"
    using assms by (simp add: field_simps)
  moreover have "0 \<le> real_of_int (x mod y) / real_of_int y" "real_of_int (x mod y) / real_of_int y < 1"
    using r assms by simp_all
  moreover have "real_of_int (x mod y) / real_of_int y \<le> 1 / 2 \<longleftrightarrow> 2 * (x mod y) \<le> y"
    using assms by (simp add: field_simps) linarith
  moreover have "1 / 2 \<le> real_of_int (x mod y) / real_of_int y \<longleftrightarrow> y \<le> 2 * (x mod y)"
    using assms by (simp add: field_simps) linarith
  ultimately show ?thesis
    by (auto simp: divRNE_def Let_def abs_if)
qed

lemma bitlen_bounds:
  "0 < n \<Longrightarrow> 1 \<le> bitlen n \<and> 2 ^ nat (bitlen n - 1) \<le> n \<and> n < 2 ^ nat (bitlen n)"
proof (induction n rule: bitlen.induct)
  case (1 n)
  show ?case
  proof (cases "n = 1")
    case True
    then show ?thesis by (simp add: bitlen.simps)
  next
    case False
    with 1 have n: "0 < n div 2" by simp
    have b: "bitlen n = 1 + bitlen (n div 2)" using 1(2) by (simp add: bitlen.simps [of n])
    have IH: "1 \<le> bitlen (n div 2)" "2 ^ nat (bitlen (n div 2) - 1) \<le> n div 2" "n div 2 < 2 ^ nat (bitlen (n div 2))"
      using 1(1) [OF _ n] 1(2) by auto
    have "nat (bitlen n - 1) = Suc (nat (bitlen (n div 2) - 1))" "nat (bitlen n) = Suc (nat (bitlen (n div 2)))"
      using IH(1) b by auto
    then have "(2::int) ^ nat (bitlen n - 1) = 2 * 2 ^ nat (bitlen (n div 2) - 1)"
      "(2::int) ^ nat (bitlen n) = 2 * 2 ^ nat (bitlen (n div 2))" by simp_all
    moreover have "2 * (n div 2) \<le> n" "n \<le> 2 * (n div 2) + 1" by simp_all
    moreover have "1 \<le> bitlen n" using b IH(1) by simp
    ultimately show ?thesis using IH by linarith
  qed
qed

lemma powi_nat: "0 \<le> k \<Longrightarrow> (2::real) powi k = of_int (2 ^ nat k)"
  by (simp add: power_int_def)

lemma bitlen_real:
  assumes "0 < n"
  shows "2 powi (bitlen n - 1) \<le> real_of_int n" "real_of_int n < 2 powi bitlen n"
  using bitlen_bounds [OF assms] by (simp_all add: powi_nat del: of_int_power)

lemma scale_ratio:
  "0 < d \<Longrightarrow> real_of_int (scaleNum a e) / real_of_int (scaleDen d e) = real_of_int a / real_of_int d * 2 powi (- e)"
  by (simp add: scaleNum_def scaleDen_def power_int_def field_simps)

lemma scaleDen_pos: "0 < d \<Longrightarrow> 0 < scaleDen d e"
  by (simp add: scaleDen_def)

lemma floor_lt: "0 < y \<Longrightarrow> x div y < (k::int) \<longleftrightarrow> real_of_int x / real_of_int y < of_int k"
  by (simp add: floor_divide_of_int_eq [symmetric, where ?'a = real] floor_less_iff)

text \<open>The exponent puts the scaled ratio between \<open>2 ^ 52\<close> and \<open>2 ^ 53\<close>.\<close>

lemma ratioExp_normal:
  assumes a: "0 < a" and d: "0 < d" and normal: "- 1000 \<le> bitlen a - bitlen d"
  shows "2 ^ 52 \<le> real_of_int a / real_of_int d * 2 powi (- ratioExp a d) \<and>
    real_of_int a / real_of_int d * 2 powi (- ratioExp a d) < 2 ^ 53 \<and>
    ratioExp a d \<le> bitlen a - bitlen d - 52"
proof -
  define x where "x = real_of_int a / real_of_int d"
  define e0 where "e0 = bitlen a - bitlen d - 53"
  have e0: "max (bitlen a - bitlen d - 53) (- 1074) = e0" using normal by (simp add: e0_def)
  have x_pos: "0 < x" using a d by (simp add: x_def)
  have "x * 2 powi bitlen d \<ge> real_of_int a" 
    using bitlen_real(2) [OF d] a d by (simp add: x_def field_simps)
  then have lo: "2 powi (bitlen a - 1) \<le> x * 2 powi bitlen d"
    using bitlen_real(1) [OF a] by linarith
  have "x * 2 powi (bitlen d - 1) \<le> real_of_int a"
    using bitlen_real(1) [OF d] a d by (simp add: x_def field_simps)
  then have hi: "x * 2 powi (bitlen d - 1) < 2 powi bitlen a"
    using bitlen_real(2) [OF a] by linarith
  have sp: "(2::real) powi (m + n) = 2 powi m * 2 powi n" for m n by (simp add: power_int_add)
  have "x * 2 powi (- e0) = x * 2 powi bitlen d * 2 powi (53 - bitlen a)"
    using sp [of "bitlen d" "53 - bitlen a"] by (simp add: e0_def algebra_simps)
  moreover have "2 powi (bitlen a - 1) * (2::real) powi (53 - bitlen a) = 2 ^ 52"
    using sp [of "bitlen a - 1" "53 - bitlen a"] by (simp add: power_int_def)
  ultimately have lo': "2 ^ 52 \<le> x * 2 powi (- e0)"
    using x_pos mult_right_mono [OF lo, of "2 powi (53 - bitlen a)"] by simp
  have "x * 2 powi (- e0) = x * 2 powi (bitlen d - 1) * 2 powi (54 - bitlen a)"
    using sp [of "bitlen d - 1" "54 - bitlen a"] by (simp add: e0_def algebra_simps)
  moreover have "2 powi bitlen a * (2::real) powi (54 - bitlen a) = 2 ^ 54"
    using sp [of "bitlen a" "54 - bitlen a"] by (simp add: power_int_def)
  ultimately have hi': "x * 2 powi (- e0) < 2 ^ 54"
    using x_pos mult_strict_right_mono [OF hi, of "2 powi (54 - bitlen a)"] by simp
  have test: "scaleNum a e0 div scaleDen d e0 < 2 ^ 53 \<longleftrightarrow> x * 2 powi (- e0) < 2 ^ 53"
    using floor_lt [OF scaleDen_pos [OF d], of "scaleNum a e0" e0 "2 ^ 53"] scale_ratio [OF d, of a e0] by (simp add: x_def)
  show ?thesis
  proof (cases "x * 2 powi (- e0) < 2 ^ 53")
    case True
    then have "ratioExp a d = e0" using test by (simp add: ratioExp_def e0 Let_def)
    with True lo' show ?thesis by (simp add: e0_def flip: x_def)
  next
    case False
    then have r: "ratioExp a d = e0 + 1" using test by (simp add: ratioExp_def e0 Let_def)
    have half: "x * 2 powi (- (e0 + 1)) = x * 2 powi (- e0) / 2"
      using sp [of "- e0" "- 1"] by (simp add: power_int_def [of 2 "- 1"] field_simps)
    have "2 ^ 52 \<le> x * 2 powi (- (e0 + 1)) \<and> x * 2 powi (- (e0 + 1)) < 2 ^ 53"
      unfolding half using False hi' by simp
    moreover have "e0 + 1 \<le> bitlen a - bitlen d - 52" by (simp add: e0_def)
    ultimately show ?thesis unfolding r x_def by blast
  qed
qed

lemma roundRatio_err:
  assumes a: "0 < a" and d: "0 < d" and lo: "- 1000 \<le> bitlen a - bitlen d" and hi: "bitlen a - bitlen d \<le> 1000"
  shows "\<exists>m e. roundRatio a d = Finite m e \<and> 0 < m \<and>
    \<bar>fval m e - real_of_int a / real_of_int d\<bar> \<le> real_of_int a / real_of_int d / 2 ^ 53"
proof -
  define e where "e = ratioExp a d"
  define m where "m = divRNE (scaleNum a e) (scaleDen d e)"
  let ?x = "real_of_int a / real_of_int d" 
  note n = ratioExp_normal [OF a d lo, folded e_def]
  have err: "\<bar>real_of_int m - ?x * 2 powi (- e)\<bar> \<le> 1 / 2"
    using divRNE_err [OF scaleDen_pos [OF d], of "scaleNum a e" e] scale_ratio [OF d, of a e] by (simp add: m_def)
  then have "2 ^ 52 - 1 \<le> real_of_int m" using n by linarith
  then have m: "0 < m" by simp
  have inv: "(2::real) powi (- e) * 2 powi e = 1" by (simp add: power_int_minus)
  have "fval m e - ?x = (real_of_int m - ?x * 2 powi (- e)) * 2 powi e"
    using inv by (simp add: fval_def algebra_simps)
  then have "\<bar>fval m e - ?x\<bar> \<le> 1 / 2 * 2 powi e"
    using err by (simp add: abs_mult mult_right_mono)
  also have "\<dots> \<le> ?x / 2 ^ 53"
  proof -
    have "2 ^ 52 * 2 powi e \<le> ?x * 2 powi (- e) * 2 powi e"
      using n by (intro mult_right_mono) auto
    then have "2 ^ 52 * 2 powi e \<le> ?x" using inv by (simp add: algebra_simps)
    then show ?thesis by simp
  qed
  finally have b: "\<bar>fval m e - ?x\<bar> \<le> ?x / 2 ^ 53" .
  have "roundRatio a d = Finite m e"
    using a n hi by (simp add: roundRatio_def Let_def e_def m_def)
  with m b show ?thesis by blast
qed

text \<open>
  A price of \<open>k\<close> millionths of a dollar, written as any decimal literal of that value, comes out of
  \<open>int64(math.Round(x * 1_000_000))\<close> as \<open>k\<close>.
\<close>

definition microOf :: "f64 \<Rightarrow> int" where
  "microOf x = toInt64 (mathRound (fmul x (fint 1000000)))"

lemma mathRound_toInt64:
  assumes "\<bar>fval m e - of_int k\<bar> < 1 / 2" and "0 < m" and "0 \<le> k" and "k \<le> MaxInt64"
  shows "toInt64 (mathRound (Finite m e)) = k"
proof (cases "0 \<le> e")
  case True
  then have "fval m e = of_int (m * 2 ^ nat e)" by (simp add: fval_def powi_nat)
  then have "\<bar>m * 2 ^ nat e - k\<bar> < 1" using assms(1) by linarith
  then show ?thesis using True assms by (simp add: mathRound_def toInt64_def in64_def)
next
  case False
  define d :: int where "d = 2 ^ nat (- e)"
  have d: "0 < d" by (simp add: d_def)
  have "fval m e = of_int m / of_int d"
    using False by (simp add: fval_def power_int_def d_def field_simps)
  then have "(fval m e - of_int k) * of_int d = of_int m - of_int k * of_int d"
    using d by (simp add: field_simps)
  moreover have "\<bar>(fval m e - of_int k) * of_int d\<bar> < 1 / 2 * of_int d"
    using assms(1) d by (simp add: abs_mult)
  ultimately have "\<bar>of_int m - of_int k * of_int d\<bar> < (of_int d :: real) / 2" by simp
  then have "of_int m - of_int k * of_int d < (of_int d :: real) / 2"
    "- (of_int m - of_int k * of_int d) < (of_int d :: real) / 2"
    by (simp_all only: abs_less_iff)
  then have "real_of_int (2 * m - 2 * (k * d)) < real_of_int d" "real_of_int (2 * (k * d) - 2 * m) < real_of_int d"
    by simp_all
  then have "2 * m - 2 * (k * d) < d" "2 * (k * d) - 2 * m < d" by (simp_all only: of_int_less_iff)
  then have "(2 * m + d) div (2 * d) = k"
    using d by (intro int_div_pos_eq [where r = "2 * m + d - 2 * d * k"]) (auto simp: algebra_simps)
  then show ?thesis using False assms by (simp add: mathRound_def toInt64_def in64_def d_def Let_def)
qed

lemma fval_pos: "0 < m \<Longrightarrow> 0 < fval m e"
  by (simp add: fval_def)

lemma fint_million: "\<exists>n f. fint 1000000 = Finite n f \<and> 0 < n \<and> fval n f = 1000000 \<and> - 100 \<le> f \<and> f \<le> 100"
proof -
  have "fint 1000000 = Finite 8589934592000000 (- 33)" by code_simp
  moreover have "fval 8589934592000000 (- 33) = 1000000" by (simp add: fval_def power_int_def power_divide)
  ultimately show ?thesis by auto
qed

lemma powi_less_cancel: "(2::real) powi m < 2 powi n \<Longrightarrow> m < n"
  using power_int_increasing [of n m "2::real"] by (cases "n \<le> m") auto

lemma powi_le_cancel: "(2::real) powi m \<le> 2 powi n \<Longrightarrow> m \<le> n"
  using power_int_strict_increasing [of n m "2::real"] by (cases "n < m") auto

lemma bitlen_diff:
  assumes a: "0 < a" and d: "0 < d" and "2 powi lo \<le> real_of_int a / real_of_int d"
    and "real_of_int a / real_of_int d \<le> 2 powi hi"
  shows "lo \<le> bitlen a - bitlen d" "bitlen a - bitlen d \<le> hi + 1"
proof -
  define x where "x = real_of_int a / real_of_int d"
  have pos: "(0::real) < 2 powi k" for k by simp
  have ax: "real_of_int a = x * real_of_int d" using d by (simp add: x_def)
  have "2 powi lo * 2 powi (bitlen d - 1) \<le> x * real_of_int d"
    using assms(3) bitlen_real(1) [OF d] by (intro mult_mono) (auto simp: x_def a d less_imp_le)
  then have "2 powi (lo + (bitlen d - 1)) < (2::real) powi bitlen a"
    using bitlen_real(2) [OF a] by (simp add: power_int_add ax)
  then have "lo + (bitlen d - 1) < bitlen a" by (rule powi_less_cancel)
  then show "lo \<le> bitlen a - bitlen d" by simp
  have "x * real_of_int d \<le> 2 powi hi * 2 powi bitlen d"
    using assms(4) bitlen_real(2) [OF d] by (intro mult_mono) (auto simp: x_def d less_imp_le)
  then have "2 powi (bitlen a - 1) \<le> (2::real) powi (hi + bitlen d)"
    using bitlen_real(1) [OF a] by (simp add: power_int_add ax)
  then have "bitlen a - 1 \<le> hi + bitlen d" by (rule powi_le_cancel)
  then show "bitlen a - bitlen d \<le> hi + 1" by simp
qed

lemma roundScaled_err:
  assumes m: "0 < m" and "2 powi (- 900) \<le> fval m e" and "fval m e \<le> 2 powi 900"
  shows "\<exists>n f. roundScaled m e = Finite n f \<and> 0 < n \<and> \<bar>fval n f - fval m e\<bar> \<le> fval m e / 2 ^ 53"
proof -
  let ?a = "m * 2 ^ nat e" and ?d = "2 ^ nat (- e) :: int"
  have v: "real_of_int ?a / real_of_int ?d = fval m e"
    by (cases "0 \<le> e") (auto simp: fval_def power_int_def field_simps)
  have pos: "0 < ?a" "0 < ?d" using m by simp_all
  note b = bitlen_diff [OF pos, of "- 900" 900]
  have "- 900 \<le> bitlen ?a - bitlen ?d \<and> bitlen ?a - bitlen ?d \<le> 900 + 1"
    using b assms(2,3) unfolding v by blast
  then have "- 1000 \<le> bitlen ?a - bitlen ?d" "bitlen ?a - bitlen ?d \<le> 1000" by linarith+
  from roundRatio_err [OF pos this] show ?thesis unfolding v roundScaled_def .
qed

lemma microOf_exact:
  assumes k: "0 < k" "k \<le> 2 ^ 50" and a: "0 < a" and d: "0 < d" and eq: "a * 1000000 = k * d"
  shows "microOf (roundRatio a d) = k"
proof -
  have x: "real_of_int a / real_of_int d = of_int k / 1000000"
    using arg_cong [OF eq, of real_of_int] d by (simp add: field_simps)
  have kr: "1 \<le> real_of_int k" "real_of_int k \<le> 2 ^ 50"
    using k by simp (metis k(2) of_int_le_iff of_int_numeral of_int_power)
  have "2 powi (- 20) \<le> real_of_int a / real_of_int d" "real_of_int a / real_of_int d \<le> 2 powi 50"
    unfolding x using kr by (simp_all add: power_int_def power_divide)
  note b = bitlen_diff [OF a d this]
  obtain m e where r: "roundRatio a d = Finite m e" "0 < m"
    and err: "\<bar>fval m e - of_int k / 1000000\<bar> \<le> of_int k / 1000000 / 2 ^ 53"
    using roundRatio_err [OF a d] b x by auto
  obtain n f where mil: "fint 1000000 = Finite n f" "0 < n" "fval n f = 1000000" using fint_million by blast
  have prod: "fval (m * n) (e + f) = fval m e * 1000000"
    using mil(3) by (simp add: fval_def power_int_add) 
  define P where "P = fval (m * n) (e + f)"
  have P: "\<bar>P - of_int k\<bar> \<le> of_int k / 2 ^ 53"
    using err unfolding P_def prod by (simp add: abs_le_iff field_simps)
  moreover have "of_int k / 2 ^ 53 \<le> (1 / 8 :: real)" using kr by simp
  ultimately have Pb: "1 / 2 \<le> P" "P \<le> 2 ^ 50 + 1 / 8" using kr by linarith+
  have "2 powi (- 900) \<le> P" "P \<le> 2 powi 900"
  proof -
    have "(2::real) powi (- 900) \<le> 2 powi (- 1)" by (intro power_int_increasing) auto
    then show "2 powi (- 900) \<le> P" using Pb by (simp add: power_int_def [of 2 "- 1"])
    have "(2::real) powi 51 \<le> 2 powi 900" by (intro power_int_increasing) auto
    then show "P \<le> 2 powi 900" using Pb by (simp add: power_int_def [of 2 51])
  qed
  then obtain n' f' where y: "roundScaled (m * n) (e + f) = Finite n' f'" "0 < n'" "\<bar>fval n' f' - P\<bar> \<le> P / 2 ^ 53"
    using roundScaled_err [of "m * n" "e + f"] r mil by (auto simp: P_def)
  have "\<bar>fval n' f' - of_int k\<bar> < 1 / 2"
  proof -
    have "\<bar>fval n' f' - of_int k\<bar> \<le> P / 2 ^ 53 + of_int k / 2 ^ 53" using y P by linarith
    also have "\<dots> \<le> (2 ^ 50 + 1 / 8) / 2 ^ 53 + 2 ^ 50 / 2 ^ 53"
      using Pb kr by (intro add_mono divide_right_mono) auto
    also have "\<dots> < 1 / 2" by simp
    finally show ?thesis .
  qed
  then have "toInt64 (mathRound (Finite n' f')) = k"
    using y k by (intro mathRound_toInt64) auto
  then show ?thesis using r mil y by (simp add: microOf_def fmul_def)
qed

end
