(* ===== verification/Profile.thy ===== *)
theory Profile
  imports Rotate Go_Float Pool_Laws
begin

text \<open>
  profile.go and the configuration records of config.go: one upstream provider's settings, its
  rotation policy (\<open>shouldRotate\<close>, \<open>isCreditExhausted\<close>), the resolution of a request path to a
  provider, and the construction of the providers with their key pools. A \<open>*Profile\<close> is its static
  record; its pool is kept beside it.
\<close>

section \<open>Configuration records\<close>

record TavilyConfig =
  tvAPIKeys :: "string list"
  tvUpstream :: string
  tvRoutePrefix :: string
  tvLowCredit :: int
  tvStopCredit :: int
  tvRetries403 :: int

record ExaConfig =
  exAPIKeys :: "string list"
  exUpstream :: string
  exRoutePrefix :: string
  exBudgetMicro :: int
  exLowMicro :: int
  exStopMicro :: int

record ApifyConfig =
  apAPIKeys :: "string list"
  apUpstream :: string
  apRoutePrefix :: string
  apTimeoutSec :: int
  apFreeCreditUsd :: f64
  apLowCreditCents :: int
  apStopCreditCents :: int

text \<open>\<open>FMPConfig\<close>, \<open>AlphaVantageConfig\<close> and \<open>MarketauxConfig\<close> have the same fields.\<close>

record FinanceConfig =
  fnAPIKeys :: "string list"
  fnUpstream :: string
  fnRoutePrefix :: string
  fnDailyBudget :: int
  fnLowCredit :: int
  fnStopCredit :: int

record Config =
  APIKeys :: "string list"
  cfgUpstream :: string
  cfgUpstreamHost :: string
  Port :: string
  Host :: string
  MaxPasses :: int
  MaxBodyBytes :: int
  ProxyBaseURL :: string
  UpstreamProxy :: string
  LogLevel :: string
  cfgCreditResetDay :: int
  LowCreditThreshold :: int
  StopCreditThreshold :: int
  CreditRefreshSec :: int
  FirecrawlMaxConcurrentPerKey :: int
  FirecrawlConcurrencySaturation :: string
  FirecrawlConcurrencyQueueMs :: int
  Firecrawl403Retries :: int
  FirecrawlRoutePrefix :: string
  FirecrawlLegacyFallback :: bool
  Tavily :: TavilyConfig
  Apify :: ApifyConfig
  Exa :: ExaConfig
  FMP :: FinanceConfig
  AlphaVantage :: FinanceConfig
  Marketaux :: FinanceConfig

section \<open>Profiles\<close>

record Profile =
  Name :: string
  RoutePrefix :: string
  Upstream :: string
  UpstreamHost :: string
  CreditResetDay :: int
  RewriteNext :: bool
  KeepPrefix :: bool
  AuthQueryParam :: string
  AuthHeader :: string
  UpstreamTimeout :: duration
  ApifyFreeCreditUsd :: f64
  ConcurrencySaturation :: string
  ConcurrencyQueue :: duration
  Max403Retries :: int

text \<open>The zero value of the struct.\<close>

definition zeroProfile :: Profile where
  "zeroProfile = \<lparr>Name = [], RoutePrefix = [], Upstream = [], UpstreamHost = [], CreditResetDay = 0,
     RewriteNext = False, KeepPrefix = False, AuthQueryParam = [], AuthHeader = [], UpstreamTimeout = 0,
     ApifyFreeCreditUsd = Finite 0 0, ConcurrencySaturation = [], ConcurrencyQueue = 0, Max403Retries = 0\<rparr>"

definition hostOf :: "string \<Rightarrow> string" where
  "hostOf upstream = (case indexOf upstream ''://'' of None \<Rightarrow> upstream | Some i \<Rightarrow> drop (i + 3) upstream)"

text \<open>\<open>SetCredits\<close> of every key of a pool at its starting budget.\<close>

definition seedCredits :: "int \<Rightarrow> key_pool \<Rightarrow> key_pool" where
  "seedCredits budget p = fold (\<lambda>i. SetCredits (int i) budget) [0..<length (keys p)] p"

definition firecrawlProfile :: "Config \<Rightarrow> Profile \<times> key_pool" where
  "firecrawlProfile cfg =
     (zeroProfile\<lparr>Name := ''firecrawl'', RoutePrefix := FirecrawlRoutePrefix cfg, Upstream := cfgUpstream cfg,
        UpstreamHost := cfgUpstreamHost cfg, CreditResetDay := cfgCreditResetDay cfg, RewriteNext := True,
        ConcurrencySaturation := FirecrawlConcurrencySaturation cfg,
        ConcurrencyQueue := durMul (FirecrawlConcurrencyQueueMs cfg) Millisecond,
        Max403Retries := Firecrawl403Retries cfg\<rparr>,
      SetMaxConcurrent (FirecrawlMaxConcurrentPerKey cfg)
        (SetThresholds (LowCreditThreshold cfg) (StopCreditThreshold cfg) (NewKeyPool (APIKeys cfg))))"

definition tavilyProfile :: "Config \<Rightarrow> Profile \<times> key_pool" where
  "tavilyProfile cfg = (let t = Tavily cfg in
     (zeroProfile\<lparr>Name := ''tavily'', RoutePrefix := tvRoutePrefix t, Upstream := tvUpstream t,
        UpstreamHost := hostOf (tvUpstream t), CreditResetDay := cfgCreditResetDay cfg,
        Max403Retries := tvRetries403 t\<rparr>,
      SetThresholds (tvLowCredit t) (tvStopCredit t) (NewKeyPool (tvAPIKeys t))))"

definition exaProfile :: "Config \<Rightarrow> Profile \<times> key_pool" where
  "exaProfile cfg = (let t = Exa cfg in
     (zeroProfile\<lparr>Name := ''exa'', RoutePrefix := exRoutePrefix t, Upstream := exUpstream t,
        UpstreamHost := hostOf (exUpstream t), CreditResetDay := cfgCreditResetDay cfg,
        AuthHeader := ''x-api-key''\<rparr>,
      seedCredits (exBudgetMicro t) (SetThresholds (exLowMicro t) (exStopMicro t) (NewKeyPool (exAPIKeys t)))))"

definition apifyProfile :: "Config \<Rightarrow> Profile \<times> key_pool" where
  "apifyProfile cfg = (let t = Apify cfg in
     (zeroProfile\<lparr>Name := ''apify'', RoutePrefix := apRoutePrefix t, Upstream := apUpstream t,
        UpstreamHost := hostOf (apUpstream t), CreditResetDay := cfgCreditResetDay cfg,
        AuthQueryParam := ''token'', UpstreamTimeout := durMul (apTimeoutSec t) Second,
        ApifyFreeCreditUsd := apFreeCreditUsd t\<rparr>,
      SetThresholds (apLowCreditCents t) (apStopCreditCents t) (NewKeyPool (apAPIKeys t))))"

definition financeProfile :: "string \<Rightarrow> string \<Rightarrow> Config \<Rightarrow> FinanceConfig \<Rightarrow> Profile \<times> key_pool" where
  "financeProfile name param cfg t =
     (zeroProfile\<lparr>Name := name, RoutePrefix := fnRoutePrefix t, Upstream := fnUpstream t,
        UpstreamHost := hostOf (fnUpstream t), CreditResetDay := cfgCreditResetDay cfg,
        AuthQueryParam := param\<rparr>,
      seedCredits (fnDailyBudget t) (SetThresholds (fnLowCredit t) (fnStopCredit t) (NewKeyPool (fnAPIKeys t))))"

definition buildProfiles :: "Config \<Rightarrow> (Profile \<times> key_pool) list" where
  "buildProfiles cfg =
     [firecrawlProfile cfg] @
     (if tvAPIKeys (Tavily cfg) = [] then [] else [tavilyProfile cfg]) @
     (if exAPIKeys (Exa cfg) = [] then [] else [exaProfile cfg]) @
     (if apAPIKeys (Apify cfg) = [] then [] else [apifyProfile cfg]) @
     (if fnAPIKeys (FMP cfg) = [] then [] else [financeProfile ''fmp'' ''apikey'' cfg (FMP cfg)]) @
     (if fnAPIKeys (AlphaVantage cfg) = [] then []
      else [financeProfile ''alphavantage'' ''apikey'' cfg (AlphaVantage cfg)]) @
     (if fnAPIKeys (Marketaux cfg) = [] then []
      else [financeProfile ''marketaux'' ''api_token'' cfg (Marketaux cfg)])"

section \<open>Rotation policy\<close>

definition isDailyCappedFinance :: "Profile \<Rightarrow> bool" where
  "isDailyCappedFinance p \<longleftrightarrow> Name p = ''fmp'' \<or> Name p = ''alphavantage'' \<or> Name p = ''marketaux''"

definition fmpIsRestrictedEndpoint :: "string \<Rightarrow> bool" where
  "fmpIsRestrictedEndpoint body \<longleftrightarrow> hasPrefix body ''Restricted Endpoint: This endpoint is not available''"

definition alphaVantageIsExhausted :: "string \<Rightarrow> bool" where
  "alphaVantageIsExhausted body \<longleftrightarrow>
     containsStr body ([CHR 0x22] @ ''Note'' @ [CHR 0x22]) \<or>
     containsStr body ([CHR 0x22] @ ''Information'' @ [CHR 0x22])"

text \<open>The switch of the status-only profiles: rotate, and why.\<close>

definition rotateOn :: "int list \<Rightarrow> int \<Rightarrow> bool \<times> string" where
  "rotateOn codes status = (if status \<in> set codes then (True, ''status '' @ itoa status) else (False, []))"

definition shouldRotate :: "Profile \<Rightarrow> int \<Rightarrow> string \<Rightarrow> bool \<times> string" where
  "shouldRotate p status body =
     (if Name p = ''tavily'' then rotateOn [401, 429, 432, 433] status
      else if Name p = ''apify'' then rotateOn [401, 402, 429] status
      else if Name p = ''exa'' then rotateOn [401, 402, 429] status
      else if Name p = ''fmp'' then
        (if status = 402 \<and> fmpIsRestrictedEndpoint body then (False, []) else rotateOn [401, 402, 429] status)
      else if Name p = ''alphavantage'' then
        (if status = 200 \<and> alphaVantageIsExhausted body then (True, ''body:rate-limit Note'')
         else rotateOn [401] status)
      else if Name p = ''marketaux'' then rotateOn [401, 402, 429] status
      else if status \<in> {402, 429, 401} then (True, ''status '' @ itoa status)
      else if \<not> firecrawlFailure status body then (False, [])
      else (case findLits rejectDenylist body of
          Some m \<Rightarrow> (True, ''body:'' @ m)
        | None \<Rightarrow> (False, [])))"

definition isCreditExhausted :: "Profile \<Rightarrow> int \<Rightarrow> string \<Rightarrow> bool" where
  "isCreditExhausted p status body =
     (if Name p = ''tavily'' then status = 432 \<or> status = 433
      else if Name p = ''apify'' then status = 402
      else if Name p = ''exa'' then status = 402
      else if Name p = ''fmp'' then status = 429
      else if Name p = ''alphavantage'' then status = 200 \<and> alphaVantageIsExhausted body
      else if Name p = ''marketaux'' then status = 402
      else if status = 402 then True
      else if status = 429 then False
      else if firecrawlFailure status body then matchLits creditExhaustedPattern body
      else False)"

section \<open>Routing\<close>

text \<open>The loop over the profiles, with the two candidates it remembers.\<close>

fun matchLoop :: "string \<Rightarrow> bool \<Rightarrow> Profile option \<Rightarrow> Profile option \<Rightarrow> Profile list \<Rightarrow> (Profile \<times> string) option" where
  "matchLoop path legacy def firecrawl [] =
     (case def of
        Some d \<Rightarrow> Some (d, path)
      | None \<Rightarrow> (case firecrawl of Some f \<Rightarrow> if legacy then Some (f, path) else None | None \<Rightarrow> None))"
| "matchLoop path legacy def firecrawl (p # ps) =
     (if RoutePrefix p = [] then matchLoop path legacy (Some p) firecrawl ps
      else
        let fc = (if Name p = ''firecrawl'' then Some p else firecrawl) in
        if path = RoutePrefix p then Some (p, if KeepPrefix p then path else ''/'')
        else if hasPrefix path (RoutePrefix p @ ''/'')
        then Some (p, if KeepPrefix p then path else drop (length (RoutePrefix p)) path)
        else matchLoop path legacy def fc ps)"

definition matchProfile :: "Profile list \<Rightarrow> string \<Rightarrow> bool \<Rightarrow> (Profile \<times> string) option" where
  "matchProfile profiles path legacyFallback = matchLoop path legacyFallback None None profiles"

end
