(* ===== verification/Credit_Usage.thy ===== *)
theory Credit_Usage
  imports Go_Client Profile
begin

text \<open>
  creditusage.go: reading a key's balance from its provider, with the retry loops, the decoding of
  the three usage replies, the accounting of exa's prices, and the disabling of a key until its
  billing reset. The reason strings keep the prefixes the retry decision reads; the text of a build,
  parse or read error is left out. \<open>net\<close> is the network; \<open>sent\<close> is the trace of the requests given to
  it, whose length is the number of the next call.
\<close>

section \<open>Results and retries\<close>

record usage =
  remaining :: int
  periodEnd :: gotime
  hasEnd :: bool
  isOk :: bool

definition zeroUsage :: usage where
  "zeroUsage = \<lparr>remaining = 0, periodEnd = zeroTime, hasEnd = False, isOk = False\<rparr>"

text \<open>\<open>usageBackoff\<close> as the init function stores it.\<close>

definition usageBackoff :: "duration list" where
  "usageBackoff = [500 * Millisecond, 1 * Second, 2 * Second]"

definition usageRetryable :: "int \<Rightarrow> bool" where
  "usageRetryable status \<longleftrightarrow> status \<in> {408, 500, 502, 503, 504}"

definition shouldRetryUsage :: "string \<Rightarrow> bool" where
  "shouldRetryUsage reason =
     (if hasPrefix reason ''net:'' then True
      else if hasPrefix reason ''status:'' then
        (case atoi (drop (length ''status:'') reason) of None \<Rightarrow> False | Some code \<Rightarrow> usageRetryable code)
      else False)"

text \<open>The loop shared by the three providers, over the number of retries left.\<close>

fun fetchLoop :: "(request list \<Rightarrow> (usage \<times> string) \<times> request list) \<Rightarrow> request list \<Rightarrow> nat \<Rightarrow> usage \<times> request list" where
  "fetchLoop once sent left =
     (let ((u, reason), sent') = once sent in
      if isOk u then (u, sent')
      else if \<not> shouldRetryUsage reason \<or> left = 0 then (zeroUsage, sent')
      else fetchLoop once sent' (left - 1))"

declare fetchLoop.simps [simp del]

section \<open>Firecrawl\<close>

record creditEnv =
  ceSuccess :: bool
  ceRemaining :: int
  ceBillingEnd :: string

definition creditEnvFields :: "json \<Rightarrow> creditEnv \<Rightarrow> creditEnv option" where
  "creditEnvFields v s = decodeStruct
     [(''success'', \<lambda>v s. map_option (\<lambda>x. s\<lparr>ceSuccess := x\<rparr>) (decodeBool v (ceSuccess s))),
      (''data'', decodeStruct
         [(''remainingCredits'', \<lambda>v s. map_option (\<lambda>x. s\<lparr>ceRemaining := x\<rparr>) (decodeInt64 v (ceRemaining s))),
          (''billingPeriodEnd'', \<lambda>v s. map_option (\<lambda>x. s\<lparr>ceBillingEnd := x\<rparr>) (decodeStr v (ceBillingEnd s)))])] v s"

definition withEnd :: "string \<Rightarrow> usage \<Rightarrow> usage" where
  "withEnd s u =
     (if s = [] then u
      else (case parseRFC3339 s of None \<Rightarrow> u | Some t \<Rightarrow> u\<lparr>periodEnd := t, hasEnd := True\<rparr>))"

definition usageOf :: "string \<Rightarrow> usage \<times> string" where
  "usageOf body =
     (case unmarshal creditEnvFields \<lparr>ceSuccess = False, ceRemaining = 0, ceBillingEnd = []\<rparr> body of
        None \<Rightarrow> (zeroUsage, ''parse:'')
      | Some env \<Rightarrow> (withEnd (ceBillingEnd env) (zeroUsage\<lparr>remaining := ceRemaining env, isOk := True\<rparr>), []))"

text \<open>What the three single requests do with the outcome, given the body limit and the decoder.\<close>

definition usageAnswer :: "nat \<Rightarrow> (string \<Rightarrow> usage \<times> string) \<Rightarrow> outcome \<Rightarrow> usage \<times> string" where
  "usageAnswer cap decode out = (case out of
     Failed err \<Rightarrow> (zeroUsage, ''net:'' @ err)
   | Answered r \<Rightarrow>
       if rStatus r \<noteq> 200 then (zeroUsage, ''status:'' @ itoa (rStatus r))
       else (case readLimited cap r of
           None \<Rightarrow> (zeroUsage, ''read:'')
         | Some body \<Rightarrow> decode body))"

definition usageRequest :: "string \<Rightarrow> string \<Rightarrow> request option" where
  "usageRequest rawUrl key =
     map_option (\<lambda>q. setHeader ''Accept'' ''application/json'' (setHeader ''Authorization'' (''Bearer '' @ key) q))
       (NewRequest ''GET'' rawUrl [])"

text \<open>One request and what is made of its outcome.\<close>

definition usageCall :: "network \<Rightarrow> request option \<Rightarrow> (outcome \<Rightarrow> usage \<times> string) \<Rightarrow> request list
    \<Rightarrow> (usage \<times> string) \<times> request list" where
  "usageCall net q answer sent = (case q of
     None \<Rightarrow> ((zeroUsage, ''build:''), sent)
   | Some x \<Rightarrow> (answer (net (length sent) x), sent @ [x]))"

definition fetchUsageOnce :: "network \<Rightarrow> string \<Rightarrow> string \<Rightarrow> request list \<Rightarrow> (usage \<times> string) \<times> request list" where
  "fetchUsageOnce net upstream key =
     usageCall net (usageRequest (upstream @ ''/v2/team/credit-usage'') key) (usageAnswer (64 * 1024) usageOf)"

definition fetchUsage :: "network \<Rightarrow> string \<Rightarrow> string \<Rightarrow> request list \<Rightarrow> usage \<times> request list" where
  "fetchUsage net upstream key sent = fetchLoop (fetchUsageOnce net upstream key) sent (length usageBackoff)"

section \<open>Tavily\<close>

definition layerRemaining :: "int option \<times> int option \<Rightarrow> int \<Rightarrow> int" where
  "layerRemaining l b = (case l of
     (Some used, Some limit) \<Rightarrow>
       let rem0 = wrap64 (limit - used); rem = (if rem0 < 0 then 0 else rem0)
       in if b < 0 \<or> rem < b then rem else b
   | _ \<Rightarrow> b)"

definition tavilyRemaining :: "int option \<Rightarrow> int option \<Rightarrow> int option \<Rightarrow> int option \<Rightarrow> int option \<Rightarrow> int option
    \<Rightarrow> int \<times> bool" where
  "tavilyRemaining keyUsage keyLimit planUsage planLimit paygoUsage paygoLimit =
     (let b = fold layerRemaining [(keyUsage, keyLimit), (planUsage, planLimit), (paygoUsage, paygoLimit)] (-1)
      in if b < 0 then (0, False) else (b, True))"

record tavilyEnv =
  teKeyUsage :: "int option"
  teKeyLimit :: "int option"
  tePlanUsage :: "int option"
  tePlanLimit :: "int option"
  tePaygoUsage :: "int option"
  tePaygoLimit :: "int option"

abbreviation ptrInt :: "json \<Rightarrow> int option \<Rightarrow> int option option" where
  "ptrInt \<equiv> decodePtr decodeInt64 0"

definition tavilyEnvFields :: "json \<Rightarrow> tavilyEnv \<Rightarrow> tavilyEnv option" where
  "tavilyEnvFields v s = decodeStruct
     [(''key'', decodeStruct
         [(''usage'', \<lambda>v s. map_option (\<lambda>x. s\<lparr>teKeyUsage := x\<rparr>) (ptrInt v (teKeyUsage s))),
          (''limit'', \<lambda>v s. map_option (\<lambda>x. s\<lparr>teKeyLimit := x\<rparr>) (ptrInt v (teKeyLimit s)))]),
      (''account'', decodeStruct
         [(''plan_usage'', \<lambda>v s. map_option (\<lambda>x. s\<lparr>tePlanUsage := x\<rparr>) (ptrInt v (tePlanUsage s))),
          (''plan_limit'', \<lambda>v s. map_option (\<lambda>x. s\<lparr>tePlanLimit := x\<rparr>) (ptrInt v (tePlanLimit s))),
          (''paygo_usage'', \<lambda>v s. map_option (\<lambda>x. s\<lparr>tePaygoUsage := x\<rparr>) (ptrInt v (tePaygoUsage s))),
          (''paygo_limit'', \<lambda>v s. map_option (\<lambda>x. s\<lparr>tePaygoLimit := x\<rparr>) (ptrInt v (tePaygoLimit s)))])] v s"

definition tavilyUsageOf :: "string \<Rightarrow> usage \<times> string" where
  "tavilyUsageOf body =
     (case unmarshal tavilyEnvFields \<lparr>teKeyUsage = None, teKeyLimit = None, tePlanUsage = None,
         tePlanLimit = None, tePaygoUsage = None, tePaygoLimit = None\<rparr> body of
        None \<Rightarrow> (zeroUsage, ''parse:'')
      | Some e \<Rightarrow>
          (case tavilyRemaining (teKeyUsage e) (teKeyLimit e) (tePlanUsage e) (tePlanLimit e)
             (tePaygoUsage e) (tePaygoLimit e) of (rem, found) \<Rightarrow>
             if found then (zeroUsage\<lparr>remaining := rem, isOk := True\<rparr>, []) else (zeroUsage, ''parse:no limit layers'')))"

definition fetchTavilyUsageOnce :: "network \<Rightarrow> string \<Rightarrow> string \<Rightarrow> request list \<Rightarrow> (usage \<times> string) \<times> request list" where
  "fetchTavilyUsageOnce net upstream key =
     usageCall net (usageRequest (upstream @ ''/usage'') key) (usageAnswer (64 * 1024) tavilyUsageOf)"

definition fetchTavilyUsage :: "network \<Rightarrow> string \<Rightarrow> string \<Rightarrow> request list \<Rightarrow> usage \<times> request list" where
  "fetchTavilyUsage net upstream key sent =
     fetchLoop (fetchTavilyUsageOnce net upstream key) sent (length usageBackoff)"

section \<open>Apify\<close>

record apifyEnv =
  aeStartAt :: string
  aeEndAt :: string
  aeMaxMonthly :: f64
  aeMonthlyUsage :: f64

definition apifyEnvFields :: "json \<Rightarrow> apifyEnv \<Rightarrow> apifyEnv option" where
  "apifyEnvFields v s = decodeStruct
     [(''data'', decodeStruct
        [(''monthlyUsageCycle'', decodeStruct
            [(''startAt'', \<lambda>v s. map_option (\<lambda>x. s\<lparr>aeStartAt := x\<rparr>) (decodeStr v (aeStartAt s))),
             (''endAt'', \<lambda>v s. map_option (\<lambda>x. s\<lparr>aeEndAt := x\<rparr>) (decodeStr v (aeEndAt s)))]),
         (''limits'', decodeStruct
            [(''maxMonthlyUsageUsd'', \<lambda>v s. map_option (\<lambda>x. s\<lparr>aeMaxMonthly := x\<rparr>) (decodeFloat v (aeMaxMonthly s)))]),
         (''current'', decodeStruct
            [(''monthlyUsageUsd'', \<lambda>v s. map_option (\<lambda>x. s\<lparr>aeMonthlyUsage := x\<rparr>) (decodeFloat v (aeMonthlyUsage s)))])])] v s"

definition apifyCents :: "f64 \<Rightarrow> f64 \<Rightarrow> f64 \<Rightarrow> int" where
  "apifyCents override maxMonthly used =
     (let credit = (if fle0 override then maxMonthly else override);
          remCents = toInt64 (mathRound (fmul (fsub credit used) (fint 100)))
      in if remCents < 0 then 0 else remCents)"

definition apifyUsageOf :: "f64 \<Rightarrow> string \<Rightarrow> usage \<times> string" where
  "apifyUsageOf override body =
     (case unmarshal apifyEnvFields \<lparr>aeStartAt = [], aeEndAt = [], aeMaxMonthly = Finite 0 0,
         aeMonthlyUsage = Finite 0 0\<rparr> body of
        None \<Rightarrow> (zeroUsage, ''parse:'')
      | Some e \<Rightarrow>
          (withEnd (aeEndAt e)
             (zeroUsage\<lparr>remaining := apifyCents override (aeMaxMonthly e) (aeMonthlyUsage e), isOk := True\<rparr>), []))"

definition apifyRequest :: "Profile \<Rightarrow> string \<Rightarrow> request option" where
  "apifyRequest p key = map_option (setHeader ''Accept'' ''application/json'')
     (NewRequest ''GET'' (Upstream p @ ''/v2/users/me/limits?token='' @ QueryEscape key) [])"

definition fetchApifyUsageOnce :: "network \<Rightarrow> Profile \<Rightarrow> string \<Rightarrow> request list \<Rightarrow> (usage \<times> string) \<times> request list" where
  "fetchApifyUsageOnce net p key =
     usageCall net (apifyRequest p key) (usageAnswer (256 * 1024) (apifyUsageOf (ApifyFreeCreditUsd p)))"

definition fetchApifyUsage :: "network \<Rightarrow> Profile \<Rightarrow> string \<Rightarrow> request list \<Rightarrow> usage \<times> request list" where
  "fetchApifyUsage net p key sent = fetchLoop (fetchApifyUsageOnce net p key) sent (length usageBackoff)"

section \<open>Dispatch\<close>

definition fetchUsageFor :: "network \<Rightarrow> Profile \<Rightarrow> string \<Rightarrow> request list \<Rightarrow> usage \<times> request list" where
  "fetchUsageFor net p key sent =
     (if Name p = ''tavily'' then fetchTavilyUsage net (Upstream p) key sent
      else if Name p = ''apify'' then fetchApifyUsage net p key sent
      else if Name p = ''exa'' then (zeroUsage, sent)
      else if Name p = ''fmp'' \<or> Name p = ''alphavantage'' \<or> Name p = ''marketaux'' then (zeroUsage, sent)
      else fetchUsage net (Upstream p) key sent)"

section \<open>Exa prices\<close>

definition costFields :: "json \<Rightarrow> f64 option option \<Rightarrow> f64 option option option" where
  "costFields v s = decodeStruct
     [(''costDollars'', decodePtr (\<lambda>v t. decodeStruct [(''total'', decodePtr decodeFloat (Finite 0 0))] v t) None)] v s"

definition extractExaCostMicro :: "string \<Rightarrow> int" where
  "extractExaCostMicro body =
     (case unmarshal costFields None body of
        Some (Some (Some tot)) \<Rightarrow>
          let micro = toInt64 (mathRound (fmul tot (fint 1000000))) in if micro < 0 then -1 else micro
      | _ \<Rightarrow> -1)"

section \<open>Applying a balance, disabling a key\<close>

text \<open>\<open>refreshKey\<close>: the fetched balance or -1, the pool, and the trace.\<close>

definition refreshKey :: "network \<Rightarrow> Profile \<Rightarrow> int \<Rightarrow> string \<Rightarrow> key_pool \<times> request list
    \<Rightarrow> int \<times> key_pool \<times> request list" where
  "refreshKey net p index key w = (case w of (pool, sent) \<Rightarrow>
     (case fetchUsageFor net p key sent of (u, sent') \<Rightarrow>
        if \<not> isOk u then (-1, pool, sent') else (remaining u, SetCredits index (remaining u) pool, sent')))"

definition hasPeriodEnd :: "string \<Rightarrow> bool" where
  "hasPeriodEnd name \<longleftrightarrow> name \<notin> {''tavily'', ''exa'', ''fmp'', ''alphavantage'', ''marketaux''}"

text \<open>config.go: the next occurrence of the reset day, at 00:00 UTC.\<close>

definition fallbackReset :: "gotime \<Rightarrow> int \<Rightarrow> gotime" where
  "fallbackReset now resetDay = (case dateOf now of (y, m, _) \<Rightarrow>
     let t = goDate y m resetDay in if \<not> now < t then addDate t 0 1 0 else t)"

definition resetInstant :: "usage \<Rightarrow> gotime \<Rightarrow> int \<Rightarrow> gotime" where
  "resetInstant u now resetDay =
     (if isOk u \<and> hasEnd u \<and> \<not> periodEnd u < now \<and> \<not> addDate now 1 0 0 < periodEnd u
      then periodEnd u else fallbackReset now resetDay)"

definition disableUntilReset :: "network \<Rightarrow> Profile \<Rightarrow> int \<Rightarrow> string \<Rightarrow> gotime \<Rightarrow> key_pool \<times> request list
    \<Rightarrow> key_pool \<times> request list" where
  "disableUntilReset net p index key now w = (case w of (pool, sent) \<Rightarrow>
     if hasPeriodEnd (Name p) then
       (case fetchUsageFor net p key sent of (u, sent') \<Rightarrow>
          (Disable index (resetInstant u now (CreditResetDay p)) pool, sent'))
     else (Disable index (fallbackReset now (CreditResetDay p)) pool, sent))"

end
