(* ===== verification/Profile_Properties.thy ===== *)
theory Profile_Properties
  imports Profile
begin

text \<open>
  What profile.go and rotate.go guarantee: which replies rotate or disable a key, how a path finds
  its provider, and what the built providers start from.
\<close>

section \<open>Properties of the rotation policy\<close>

text \<open>The reply of a Firecrawl-style upstream that is not a failure envelope.\<close>

definition successReply :: "int \<Rightarrow> string \<Rightarrow> bool" where
  "successReply status body \<longleftrightarrow>
     status < 400 \<and> unmarshal successField None body \<noteq> Some (Some False)"

definition scansBodies :: "Profile \<Rightarrow> bool" where
  "scansBodies p \<longleftrightarrow> Name p = ''alphavantage''"

lemma findLits_case: "fst (case findLits lits b of Some m \<Rightarrow> (True, f m) | None \<Rightarrow> (False, [])) = matchLits lits b"
  by (simp add: matchLits_def split: option.split)

lemmas rotation_simps = isCreditExhausted_def shouldRotate_def rotateOn_def findLits_case

text \<open>
  C32: No exhaustion signal is dropped: whatever the profile, the status and the body, a reply that means
  the key's credits are gone is also one that rotates, so the handler, which asks
  \<open>isCreditExhausted\<close> only after \<open>shouldRotate\<close>, disables every such key.
\<close>

theorem exhausted_replies_rotate:
  "isCreditExhausted p status body \<longrightarrow> fst (shouldRotate p status body)"
  using credit_text_is_denied [of body] by (auto simp: rotation_simps)

theorem exhausted_replies_rotate_witness:
  "fst (shouldRotate (zeroProfile\<lparr>Name := ''tavily''\<rparr>) 432 [])"
proof -
  have "isCreditExhausted (zeroProfile\<lparr>Name := ''tavily''\<rparr>) 432 []"
    by (simp add: isCreditExhausted_def zeroProfile_def)
  then show ?thesis using exhausted_replies_rotate by blast
qed

text \<open>
  Scraped content never costs a key: a successful reply (status below 400 without
  \<open>"success": false\<close>) neither rotates nor disables, whatever words its body contains, for every
  profile but alphavantage, which reports its daily cap in a 200 body.
\<close>

theorem success_never_rotates:
  assumes "successReply status body" and "\<not> scansBodies p"
  shows "\<not> fst (shouldRotate p status body) \<and> \<not> isCreditExhausted p status body"
proof -
  have "\<not> firecrawlFailure status body"
    using assms(1) by (auto simp: firecrawlFailure_def successReply_def split: option.split)
  then show ?thesis using assms by (auto simp: rotation_simps successReply_def scansBodies_def)
qed

definition scrapedPage :: string where
  "scrapedPage = quoted ''{~success~: true, ~data~: ~rate limit exceeded, payment required~}''"

theorem success_never_rotates_witness:
  "findLits rejectDenylist scrapedPage \<noteq> None \<and> \<not> fst (shouldRotate zeroProfile 200 scrapedPage)"
proof
  show "findLits rejectDenylist scrapedPage \<noteq> None" by code_simp
  have "successReply 200 scrapedPage" by code_simp
  moreover have "\<not> scansBodies zeroProfile" by (simp add: scansBodies_def zeroProfile_def)
  ultimately show "\<not> fst (shouldRotate zeroProfile 200 scrapedPage)" using success_never_rotates by blast
qed

text \<open>
  Firecrawl's 4xx replies are classified by words alone: any 4xx other than 429 whose body
  contains "exceeded", "payment required" or "insufficient credit" rotates and disables the key until
  its billing reset. A 401, or a 400 caused by the client's own request, takes a good key offline,
  against the comments ("auth never disables") and the README.
\<close>

theorem firecrawl_client_error_disables:
  assumes "Name p = ''firecrawl''" and "400 \<le> status" and "status < 500" and "status \<noteq> 429"
    and "matchLits creditExhaustedPattern body"
  shows "fst (shouldRotate p status body) \<and> isCreditExhausted p status body"
  using assms credit_text_is_denied [of body] by (auto simp: rotation_simps firecrawlFailure_def)

definition badRequest :: string where
  "badRequest = quoted ''{~success~: false, ~error~: ~Bad Request: maximum url length exceeded~}''"

theorem firecrawl_client_error_disables_witness:
  "isCreditExhausted (zeroProfile\<lparr>Name := ''firecrawl''\<rparr>) 400 badRequest"
proof -
  have "matchLits creditExhaustedPattern badRequest" by code_simp
  then show ?thesis
    using firecrawl_client_error_disables [of "zeroProfile\<lparr>Name := ''firecrawl''\<rparr>" 400 badRequest] by simp
qed

section \<open>Properties of routing\<close>

text \<open>A profile claims a path at a segment boundary; what it forwards.\<close>

definition claims :: "string \<Rightarrow> Profile \<Rightarrow> bool" where
  "claims path p \<longleftrightarrow> RoutePrefix p \<noteq> [] \<and>
     (path = RoutePrefix p \<or> (\<exists>rest. path = RoutePrefix p @ ''/'' @ rest))"

definition forwarded :: "string \<Rightarrow> Profile \<Rightarrow> string" where
  "forwarded path p =
     (if KeepPrefix p then path
      else if path = RoutePrefix p then ''/'' else drop (length (RoutePrefix p)) path)"

definition lastWith :: "('a \<Rightarrow> bool) \<Rightarrow> 'a list \<Rightarrow> 'a option" where
  "lastWith P xs = find P (rev xs)"

lemma lastWith_Cons: "lastWith P (x # xs) =
    (case lastWith P xs of Some y \<Rightarrow> Some y | None \<Rightarrow> if P x then Some x else None)"
proof -
  have "find P (ys @ [x]) = (case find P ys of Some y \<Rightarrow> Some y | None \<Rightarrow> if P x then Some x else None)" for ys
    by (induction ys) auto
  then show ?thesis by (simp add: lastWith_def)
qed

definition fallbackRoute :: "string \<Rightarrow> bool \<Rightarrow> Profile option \<Rightarrow> Profile option \<Rightarrow> (Profile \<times> string) option" where
  "fallbackRoute path legacy def fc =
     (case def of
        Some d \<Rightarrow> Some (d, path)
      | None \<Rightarrow> if legacy then map_option (\<lambda>f. (f, path)) fc else None)"

definition orElse :: "'a option \<Rightarrow> 'a option \<Rightarrow> 'a option" where
  "orElse a b = (case a of Some x \<Rightarrow> Some x | None \<Rightarrow> b)"

lemma matchLoop_spec:
  "matchLoop path legacy def fc ps =
     (case find (claims path) ps of
        Some p \<Rightarrow> Some (p, forwarded path p)
      | None \<Rightarrow> fallbackRoute path legacy (orElse (lastWith (\<lambda>p. RoutePrefix p = []) ps) def)
          (orElse (lastWith (\<lambda>p. RoutePrefix p \<noteq> [] \<and> Name p = ''firecrawl'') ps) fc))"
proof (induction ps arbitrary: def fc)
  case Nil
  show ?case by (simp add: fallbackRoute_def orElse_def lastWith_def split: option.split)
next
  case (Cons p ps)
  have c: "claims path p \<longleftrightarrow> RoutePrefix p \<noteq> [] \<and> (path = RoutePrefix p \<or> hasPrefix path (RoutePrefix p @ ''/''))"
    by (auto simp: claims_def hasPrefix_iff)
  show ?case
    by (cases "claims path p")
      (auto simp: c Cons.IH Let_def forwarded_def orElse_def lastWith_Cons split: option.split)
qed

lemma matchProfile_by_claims:
  "matchProfile ps path legacy =
     (case find (claims path) ps of
        Some p \<Rightarrow> Some (p, forwarded path p)
      | None \<Rightarrow> fallbackRoute path legacy (lastWith (\<lambda>p. RoutePrefix p = []) ps)
          (lastWith (\<lambda>p. RoutePrefix p \<noteq> [] \<and> Name p = ''firecrawl'') ps))"
  by (simp add: matchProfile_def matchLoop_spec orElse_def split: option.split)

text \<open>
  C33: Routing is first match by segment: the first profile in order whose prefix is the path or a whole
  leading segment sequence of it gets the request, with the prefix stripped (the bare prefix becomes
  "/"), so "/tavilyfoo" never reaches "/tavily". Only when no prefix claims the path do the
  catch-all (empty prefix) and then, under the legacy fallback, firecrawl get it, with the path as it
  came; otherwise there is no match.
\<close>

theorem matchProfile_spec:
  "matchProfile ps path legacy =
     (case find (claims path) ps of
        Some p \<Rightarrow> Some (p, forwarded path p)
      | None \<Rightarrow> fallbackRoute path legacy (lastWith (\<lambda>p. RoutePrefix p = []) ps)
          (lastWith (\<lambda>p. RoutePrefix p \<noteq> [] \<and> Name p = ''firecrawl'') ps))"
  by (rule matchProfile_by_claims)

text \<open>
  C34: Stripping loses nothing: without \<open>KeepPrefix\<close>, the matched prefix followed by the forwarded path
  is the request's path (up to the "/" a bare prefix gains), and the forwarded path of a matched
  prefix always starts with "/", so the upstream URL is well formed.
\<close>

theorem stripped_path_roundtrip:
  assumes "find (claims path) ps = Some p" and "\<not> KeepPrefix p"
    and "matchProfile ps path legacy = Some (q, stripped)"
  shows "q = p \<and> hasPrefix stripped ''/'' \<and>
    (RoutePrefix p @ stripped = path \<or> (path = RoutePrefix p \<and> stripped = ''/''))"
proof -
  have "claims path p" using assms(1) by (auto simp: find_Some_iff)
  moreover have "q = p" "stripped = forwarded path p" using assms by (auto simp: matchProfile_by_claims)
  ultimately show ?thesis using assms(2) by (auto simp: claims_def forwarded_def)
qed

definition routeDemo :: "Profile list" where
  "routeDemo = [zeroProfile\<lparr>Name := ''firecrawl'', RoutePrefix := ''/firecrawl''\<rparr>,
     zeroProfile\<lparr>Name := ''tavily'', RoutePrefix := ''/tavily''\<rparr>]"

theorem stripped_path_roundtrip_witness:
  "''/tavily'' @ ''/search'' = ''/tavily/search'' \<and>
   matchProfile routeDemo ''/tavilyfoo'' False = None \<and>
   map_option snd (matchProfile routeDemo ''/tavily/search'' False) = Some ''/search''"
proof -
  define p where "p = routeDemo ! 1"
  have m: "matchProfile routeDemo ''/tavily/search'' False = Some (p, ''/search'')"
    by (simp add: matchProfile_def routeDemo_def p_def zeroProfile_def)
  have "find (claims ''/tavily/search'') routeDemo = Some p"
    by (simp add: routeDemo_def p_def claims_def zeroProfile_def)
  from stripped_path_roundtrip [OF this _ m] m show ?thesis
    by (simp add: p_def routeDemo_def zeroProfile_def matchProfile_def)
qed

section \<open>Properties of the built profiles\<close>

definition config_ranges :: "Config \<Rightarrow> bool" where
  "config_ranges cfg \<longleftrightarrow> APIKeys cfg \<noteq> [] \<and> FirecrawlMaxConcurrentPerKey cfg \<le> MaxInt64 \<and>
     exBudgetMicro (Exa cfg) \<le> MaxInt64 \<and> fnDailyBudget (FMP cfg) \<le> MaxInt64 \<and>
     fnDailyBudget (AlphaVantage cfg) \<le> MaxInt64 \<and> fnDailyBudget (Marketaux cfg) \<le> MaxInt64"

lemma pool_wf_SetThresholds: "pool_wf (SetThresholds l s p) = pool_wf p"
  by (simp add: pool_wf_def SetThresholds_def)

lemma NewKeyPool_SetMax_wf: "c \<le> MaxInt64 \<Longrightarrow> pool_wf (SetMaxConcurrent c (SetThresholds l s (NewKeyPool ks)))"
  using NewKeyPool_wf [of ks]
  by (auto simp: pool_wf_def SetMaxConcurrent_def SetThresholds_def NewKeyPool_def Let_def flight_ok_def list_all_length)

lemma seedCredits_fold:
  assumes "pool_wf p" and "b \<le> MaxInt64" and "n \<le> length (keys p)"
  shows "pool_wf (fold (\<lambda>i. SetCredits (int i) b) [0..<n] p) \<and>
    keys (fold (\<lambda>i. SetCredits (int i) b) [0..<n] p) = keys p \<and>
    (\<forall>i<n. remainingCredits (fold (\<lambda>i. SetCredits (int i) b) [0..<n] p) ! i = max 0 b)"
  using assms(3)
proof (induction n)
  case 0
  show ?case using assms(1) by simp
next
  case (Suc n)
  let ?q = "fold (\<lambda>i. SetCredits (int i) b) [0..<n] p"
  have IH: "pool_wf ?q" "keys ?q = keys p" "\<forall>i<n. remainingCredits ?q ! i = max 0 b"
    using Suc by simp_all
  then have "length (remainingCredits ?q) = length (keys p)" using pool_wf_lengths [of ?q] by simp
  then have "keys (SetCredits (int n) b ?q) = keys p"
    "\<forall>i<Suc n. remainingCredits (SetCredits (int n) b ?q) ! i = max 0 b"
    using IH Suc.prems by (auto simp: SetCredits_def nth_list_update less_Suc_eq)
  with SetCredits_wf [OF IH(1) assms(2)] show ?case by simp
qed

lemma seedCredits_props:
  assumes "pool_wf p" and "b \<le> MaxInt64"
  shows "pool_wf (seedCredits b p)" "keys (seedCredits b p) = keys p"
    "\<forall>i<length (keys p). remainingCredits (seedCredits b p) ! i = max 0 b"
  using seedCredits_fold [OF assms order_refl] by (simp_all add: seedCredits_def)

definition accountedProfile :: "Profile \<Rightarrow> bool" where
  "accountedProfile p \<longleftrightarrow> Name p = ''exa'' \<or> isDailyCappedFinance p"

lemma built_pools:
  assumes "config_ranges cfg"
  shows "list_all (\<lambda>(p, pool). pool_wf pool \<and> keys pool \<noteq> [] \<and> (accountedProfile p \<longrightarrow>
        (\<exists>b\<ge>0. remainingCredits pool = replicate (length (keys pool)) b))) (buildProfiles cfg)"
proof -
  have fin: "pool_wf (seedCredits b (SetThresholds l s (NewKeyPool ks))) \<and>
      keys (seedCredits b (SetThresholds l s (NewKeyPool ks))) = ks \<and>
      (\<exists>c\<ge>0. remainingCredits (seedCredits b (SetThresholds l s (NewKeyPool ks))) = replicate (length ks) c)"
    if "b \<le> MaxInt64" for b l s ks
  proof -
    let ?p = "SetThresholds l s (NewKeyPool ks)"
    have wf: "pool_wf ?p" by (simp add: pool_wf_SetThresholds NewKeyPool_wf)
    note sp = seedCredits_props [OF wf that]
    have k: "keys ?p = ks" by (simp add: SetThresholds_def NewKeyPool_def)
    have "remainingCredits (seedCredits b ?p) = replicate (length ks) (max 0 b)"
      using sp k pool_wf_lengths(4) [OF sp(1)] by (intro nth_equalityI) auto
    then show ?thesis using sp k by (intro conjI exI [of _ "max 0 b"]) auto
  qed
  have plain: "pool_wf (SetThresholds l s (NewKeyPool ks))" "keys (SetThresholds l s (NewKeyPool ks)) = ks" for l s ks
    by (simp_all add: pool_wf_SetThresholds NewKeyPool_wf) (simp add: SetThresholds_def NewKeyPool_def)
  have fc: "keys (SetMaxConcurrent c (SetThresholds l s (NewKeyPool ks))) = ks" for c l s ks
    by (simp add: SetMaxConcurrent_def SetThresholds_def NewKeyPool_def)
  show ?thesis
    using assms fin
    by (auto simp: buildProfiles_def firecrawlProfile_def tavilyProfile_def exaProfile_def apifyProfile_def
        financeProfile_def Let_def zeroProfile_def config_ranges_def plain fc NewKeyPool_SetMax_wf
        accountedProfile_def isDailyCappedFinance_def)
qed

lemma built_names:
  "Name (fst (hd (buildProfiles cfg))) = ''firecrawl'' \<and> distinct (map (Name \<circ> fst) (buildProfiles cfg))"
  by (auto simp: buildProfiles_def firecrawlProfile_def tavilyProfile_def exaProfile_def apifyProfile_def
      financeProfile_def Let_def zeroProfile_def)

text \<open>
  The profiles are built as the handler relies on: firecrawl first, names distinct, every pool
  well formed with at least one key, and every key of a profile without a usage endpoint (exa and the
  daily-capped ones) already holds its budget.
\<close>

theorem buildProfiles_invariant:
  assumes "config_ranges cfg"
  shows "Name (fst (hd (buildProfiles cfg))) = ''firecrawl'' \<and>
    distinct (map (Name \<circ> fst) (buildProfiles cfg)) \<and>
    list_all (\<lambda>(p, pool). pool_wf pool \<and> keys pool \<noteq> []) (buildProfiles cfg) \<and>
    list_all (\<lambda>(p, pool). accountedProfile p \<longrightarrow>
        (\<exists>b\<ge>0. remainingCredits pool = replicate (length (keys pool)) b)) (buildProfiles cfg)"
  using built_pools [OF assms] built_names [of cfg] by (auto simp: list_all_iff)

definition noFinance :: FinanceConfig where
  "noFinance = \<lparr>fnAPIKeys = [], fnUpstream = [], fnRoutePrefix = [], fnDailyBudget = 0, fnLowCredit = 0, fnStopCredit = 0\<rparr>"

definition demoConfig :: Config where
  "demoConfig = \<lparr>APIKeys = [''fc-1'', ''fc-2''], cfgUpstream = ''https://api.firecrawl.dev'',
     cfgUpstreamHost = ''api.firecrawl.dev'', Port = ''8788'', Host = ''0.0.0.0'', MaxPasses = 2,
     MaxBodyBytes = 16777216, ProxyBaseURL = [], UpstreamProxy = [], LogLevel = ''info'',
     cfgCreditResetDay = 1, LowCreditThreshold = 10, StopCreditThreshold = 2, CreditRefreshSec = 300,
     FirecrawlMaxConcurrentPerKey = 1, FirecrawlConcurrencySaturation = ''queue'',
     FirecrawlConcurrencyQueueMs = 15000, Firecrawl403Retries = 1, FirecrawlRoutePrefix = ''/firecrawl'',
     FirecrawlLegacyFallback = True,
     Tavily = \<lparr>tvAPIKeys = [''tv-1''], tvUpstream = ''https://api.tavily.com'', tvRoutePrefix = ''/tavily'',
       tvLowCredit = 10, tvStopCredit = 2, tvRetries403 = 1\<rparr>,
     Apify = \<lparr>apAPIKeys = [], apUpstream = [], apRoutePrefix = [], apTimeoutSec = 180,
       apFreeCreditUsd = Finite 0 0, apLowCreditCents = 10, apStopCreditCents = 5\<rparr>,
     Exa = \<lparr>exAPIKeys = [''ex-1'', ''ex-2''], exUpstream = ''https://api.exa.ai'', exRoutePrefix = ''/exa'',
       exBudgetMicro = 10000000, exLowMicro = 500000, exStopMicro = 100000\<rparr>,
     FMP = \<lparr>fnAPIKeys = [''fmp-1''], fnUpstream = ''https://financialmodelingprep.com'', fnRoutePrefix = ''/fmp'',
       fnDailyBudget = 250, fnLowCredit = 10, fnStopCredit = 1\<rparr>,
     AlphaVantage = noFinance, Marketaux = noFinance\<rparr>"

theorem buildProfiles_invariant_witness:
  "map (Name \<circ> fst) (buildProfiles demoConfig) = [''firecrawl'', ''tavily'', ''exa'', ''fmp''] \<and>
   list_all (\<lambda>(p, pool). pool_wf pool \<and> keys pool \<noteq> []) (buildProfiles demoConfig)"
proof -
  have "config_ranges demoConfig" by (simp add: config_ranges_def demoConfig_def noFinance_def)
  moreover have "map (Name \<circ> fst) (buildProfiles demoConfig) = [''firecrawl'', ''tavily'', ''exa'', ''fmp'']"
    by (simp add: buildProfiles_def demoConfig_def firecrawlProfile_def tavilyProfile_def exaProfile_def
        financeProfile_def Let_def zeroProfile_def noFinance_def)
  ultimately show ?thesis using buildProfiles_invariant by blast
qed

end
