(* ===== verification/Pool_Properties.thy ===== *)
theory Pool_Properties
  imports Pool_Laws
begin

text \<open>
  What the key pool of keys.go guarantees: selection, cooldowns, disabling and re-enabling, credit
  accounting, and what it shows to clients.
\<close>

section \<open>Selection\<close>

lemma pool_wf_nonneg: "pool_wf p \<Longrightarrow> \<forall>i<length (keys p). 0 \<le> remainingCredits p ! i"
  by (simp add: pool_wf_credits)

lemma AnyUsable_iff: "AnyUsable p \<longleftrightarrow> (\<exists>i<length (keys p). usable p i)"
  by (auto simp: AnyUsable_def usable_def list_ex_iff)

lemma currentLocked_none_iff:
  assumes "pool_wf p"
  shows "fst (fst (currentLocked now p)) = -1 \<longleftrightarrow> \<not> AnyUsable p"
  using chosen_none [OF pool_wf_nonneg [OF assms], of now] chosen_range [OF assms, of now]
  by (cases "0 \<le> chosen p now") (auto simp: currentLocked_chosen AnyUsable_iff)

lemma currentLocked_some:
  assumes "pool_wf p" and "fst (fst (currentLocked now p)) = k" and "k \<noteq> -1"
  shows "ix_ok k (keys p)" "usable p (nat k)" "snd (fst (currentLocked now p)) = keys p ! nat k"
proof -
  have c: "0 \<le> chosen p now" "k = chosen p now" and s: "snd (fst (currentLocked now p)) = keys p ! nat k"
    using assms(2,3) by (auto simp: currentLocked_chosen split: if_splits)
  then obtain j where "j < length (keys p)" "chosen p now = int j" "usable p j"
    using chosen_range [OF assms(1)] by blast
  with c s show "ix_ok k (keys p)" "usable p (nat k)" "snd (fst (currentLocked now p)) = keys p ! nat k"
    by simp_all
qed

definition demoPool :: key_pool where
  "demoPool = (NewKeyPool [''alpha'', ''bravo'', ''charlie''])
     \<lparr>remainingCredits := [40, 90, 90], stopThreshold := 2, lowThreshold := 10, maxConcurrent := 1\<rparr>"

lemma demoPool_wf: "pool_wf demoPool"
  by (simp add: demoPool_def pool_wf_def NewKeyPool_def Let_def stat_ok_def zeroStat_def credits_ok_def
      flight_ok_def in64_def numeral_eq_Suc)

text \<open>
  C1: \<open>Current\<close> returns exactly the key its comment promises: among the usable keys (not disabled,
  credits at least the stop threshold) the best tier (free slot and not cooling down, then free slot,
  then any), in that tier the most credits, and among equals the lowest index; \<open>(-1, "")\<close> when no
  key is usable. The single pass with three running maxima refines the maximum of a linear order,
  and the call writes nothing but the cursor.
\<close>

theorem Current_selects_best:
  assumes "pool_wf p"
  shows "Current now p =
    (let k = selectSpec p now
     in if k < 0 then ((-1, []), p) else ((k, keys p ! nat k), p\<lparr>cursor := k\<rparr>))"
  using chosen_spec [OF pool_wf_nonneg [OF assms], of now]
  by (auto simp: Current_def currentLocked_chosen Let_def)

theorem Current_selects_best_witness:
  "pool_wf demoPool \<and> fst (Current 0 demoPool) = (1, ''bravo'')"
proof -
  have "Current 0 demoPool =
    (let k = selectSpec demoPool 0
     in if k < 0 then ((-1, []), demoPool) else ((k, keys demoPool ! nat k), demoPool\<lparr>cursor := k\<rparr>))"
    by (rule Current_selects_best [OF demoPool_wf])
  moreover have "selectSpec demoPool 0 = 1" by code_simp
  ultimately show ?thesis using demoPool_wf by (simp add: demoPool_def NewKeyPool_def)
qed

section \<open>Cooldowns\<close>

lemma AnyUsable_cooldown [simp]: "AnyUsable (p\<lparr>cooldownUntil := ts\<rparr>) = AnyUsable p"
  by (simp add: AnyUsable_def)

text \<open>
  C39: A cooldown is only a deprioritisation. However long the \<open>Retry-After\<close> header asks for, rotating
  off a key leaves the pool without a key to serve from exactly when no key is usable at all, so a
  cooldown never turns a working pool into a 503.
\<close>

theorem AdvanceAfter_never_empties:
  assumes "pool_wf p"
  shows "fst (fst (AdvanceAfter h now p)) = -1 \<longleftrightarrow> \<not> AnyUsable p"
  unfolding AdvanceAfter_def
  by (subst currentLocked_none_iff) (simp_all add: assms pool_wf_cooldown Let_def)

theorem AdvanceAfter_never_empties_witness:
  "AnyUsable demoPool \<and>
   fst (fst (AdvanceAfter [(''Retry-After'', [''3000''])] 0 demoPool)) \<noteq> -1"
proof -
  have "AnyUsable demoPool" by code_simp
  then show ?thesis using AdvanceAfter_never_empties [OF demoPool_wf] by blast
qed

lemma retryAfterSeconds_bounds: "0 \<le> retryAfterSeconds h" "retryAfterSeconds h \<le> 3600"
  by (auto simp: retryAfterSeconds_def Let_def split: option.split)

text \<open>
  Rotating off a key cools exactly the key under the cursor, for the longer of 30 seconds and the
  \<open>Retry-After\<close> seconds, never more than an hour whatever the header says, and touches no other
  key's cooldown. The duration product does not overflow.
\<close>

theorem AdvanceAfter_cooldown:
  assumes "pool_wf p" and "keys p \<noteq> []"
  shows "cooldownUntil (snd (AdvanceAfter h now p)) =
      (cooldownUntil p)[nat (cursor p) := now + max (30 * Second) (retryAfterSeconds h * Second)] \<and>
    now + 30 * Second \<le> cooldownUntil (snd (AdvanceAfter h now p)) ! nat (cursor p) \<and>
    cooldownUntil (snd (AdvanceAfter h now p)) ! nat (cursor p) \<le> now + Hour"
proof -
  have c: "0 \<le> cursor p" "cursor p < int (length (cooldownUntil p))"
    using assms by (simp_all add: pool_wf_def Let_def)
  have "durMul (retryAfterSeconds h) Second = retryAfterSeconds h * Second"
    using retryAfterSeconds_bounds [of h] by simp
  then show ?thesis
    using c retryAfterSeconds_bounds [of h]
    by (auto simp: AdvanceAfter_def currentLocked_frame rotateCooldown_def Let_def max_def)
qed

theorem AdvanceAfter_cooldown_witness:
  "cooldownUntil (snd (AdvanceAfter [(''Retry-After'', [''60''])] 5 demoPool)) ! 0 = 5 + 60 * Second"
proof -
  have "keys demoPool \<noteq> []" by (simp add: demoPool_def NewKeyPool_def)
  note * = AdvanceAfter_cooldown [OF demoPool_wf this, of "[(''Retry-After'', [''60''])]" 5]
  have "retryAfterSeconds [(''Retry-After'', [''60''])] = 60" by code_simp
  with * show ?thesis by (simp add: demoPool_def NewKeyPool_def)
qed

section \<open>Interleavings\<close>

text \<open>
  C20: Whatever requests and background loops do to a pool, in whatever order their calls are
  serialised by the mutex, its parallel slices keep one length, every balance stays between 0 and
  \<open>math.MaxInt64\<close>, every in-flight count between 0 and the cap, the cursor inside the pool, and the
  keys, thresholds and cap are those it was configured with.
\<close>

theorem pool_run_invariant:
  assumes "pool_wf p"
  shows "pool_wf (run_pool ops p) \<and> pool_config (run_pool ops p) = pool_config p"
  using pool.run_inv [OF assms, of ops] pool.run_view [of ops p] by simp

theorem pool_run_invariant_witness:
  "pool_wf (run_pool [OpCurrent 0, OpTryAcquire 1, OpDecrement 1 7, OpRelease 1, OpDisable 1 9] demoPool)"
  using pool_run_invariant [OF demoPool_wf] by blast

definition keyOff :: "nat \<Rightarrow> gotime \<Rightarrow> key_pool \<Rightarrow> bool" where
  "keyOff i t p \<longleftrightarrow> pool_wf p \<and> i < length (keys p) \<and> disabled p ! i \<and> disabledUntil p ! i = t"

definition earlyOp :: "nat \<Rightarrow> gotime \<Rightarrow> pool_op \<Rightarrow> bool" where
  "earlyOp i t x \<longleftrightarrow> (\<forall>now. x = OpReenableDue now \<longrightarrow> now < t) \<and> (\<forall>t'. x \<noteq> OpDisable (int i) t')"

lemma keyOff_step:
  assumes "earlyOp i t x" and off: "keyOff i t p"
  shows "keyOff i t (exec_op p x)"
proof -
  have wf: "pool_wf (exec_op p x)" and cfg: "pool_config (exec_op p x) = pool_config p"
    using off by (auto simp: keyOff_def exec_op_wf exec_op_config)
  have len: "length (disabled p) = length (keys p)" "length (disabledUntil p) = length (keys p)"
    using off by (auto simp: keyOff_def pool_wf_lengths)
  have "disabled (exec_op p x) ! i \<and> disabledUntil (exec_op p x) ! i = t"
  proof (cases x)
    case (OpReenableDue now)
    then have "\<not> dueAt now i p"
      using assms by (auto simp: earlyOp_def keyOff_def dueAt_def)
    then show ?thesis
      using off by (simp add: OpReenableDue keyOff_def ReenableDue_nth)
  next
    case (OpDisable k t')
    then have "k \<noteq> int i" using assms(1) by (auto simp: earlyOp_def)
    then show ?thesis
      using off len by (auto simp: OpDisable keyOff_def Disable_def Let_def nth_list_update nat_eq_iff)
  qed (use off in \<open>auto simp: keyOff_def Current_def Advance_def AdvanceAfter_def TryAcquire_def Release_def
        RecordSuccess_def RecordRejection_def Decrement_def SetCredits_def Let_def currentLocked_frame
        split: option.split\<close>)
  with wf cfg off show ?thesis by (simp add: keyOff_def pool_config_def)
qed

lemma keyOff_not_chosen:
  assumes "keyOff i t p"
  shows "fst (fst (currentLocked now p)) \<noteq> int i"
  using currentLocked_some [of p now "int i"] assms by (auto simp: keyOff_def usable_def)

text \<open>
  C25: A credit-disabled key stays out until its own reset instant: after \<open>Disable(i, t)\<close>, through any
  interleaving of operations in which the reset loop has not yet run at or after \<open>t\<close>, the key is
  still disabled until \<open>t\<close> and no selection returns it.
\<close>

theorem disabled_key_not_selected:
  assumes "pool_wf p" and "i < length (keys p)"
    and "\<forall>x\<in>set ops. earlyOp i t x"
  shows "disabled (run_pool ops (Disable (int i) t p)) ! i \<and>
    disabledUntil (run_pool ops (Disable (int i) t p)) ! i = t \<and>
    fst (fst (Current now (run_pool ops (Disable (int i) t p)))) \<noteq> int i"
proof -
  have "keyOff i t (Disable (int i) t p)"
    using assms(1,2) by (auto simp: keyOff_def Disable_wf) (auto simp: Disable_def Let_def pool_wf_lengths)
  then have "keyOff i t (run_pool ops (Disable (int i) t p))"
    by (rule run_ops_inv_on [rotated]) (use assms(3) in \<open>blast intro: keyOff_step\<close>)
  then show ?thesis using keyOff_not_chosen by (auto simp: keyOff_def Current_def)
qed

theorem disabled_key_not_selected_witness:
  "fst (fst (Current 0 (run_pool [OpReenableDue 99, OpSetCredits 1 500, OpRecordSuccess 1]
     (Disable (int 1) 100 demoPool)))) \<noteq> int 1"
proof -
  have "\<forall>x\<in>set [OpReenableDue 99, OpSetCredits 1 500, OpRecordSuccess 1]. earlyOp 1 100 x"
    by (simp add: earlyOp_def)
  moreover have "1 < length (keys demoPool)" by (simp add: demoPool_def NewKeyPool_def)
  ultimately show ?thesis using disabled_key_not_selected [OF demoPool_wf] by blast
qed

section \<open>Credit accounting\<close>

lemma run_pool_charges: "run_pool (map (OpDecrement i) cs) p = credit.charges i cs p"
  by (induction cs arbitrary: p) (simp_all add: credit.charges_def chargeKey_def)

text \<open>
  C23: Local accounting is exact: charging a measured key any sequence of \<open>int64\<close> costs leaves
  \<open>max 0 (balance - total)\<close>, where a cost below 1 counts as 1, without wrap-around and without
  touching another key's balance.
\<close>

theorem Decrement_accounts_exactly:
  assumes "measuredKey p i"
  shows "creditBalance (run_pool (map (OpDecrement i) cs) p) i =
      max 0 (creditBalance p i - sum_list (map (\<lambda>c. max 1 (sint c)) cs)) \<and>
    (\<forall>j. j \<noteq> i \<longrightarrow> creditBalance (run_pool (map (OpDecrement i) cs) p) j = creditBalance p j)"
proof -
  have "0 \<le> creditBalance p i"
    using assms pool_wf_credits(1) [of p "nat i"] pool_wf_lengths [of p]
    by (auto simp: measuredKey_def creditBalance_def ix_ok_def)
  from credit.charges_balance [OF assms this, of cs] show ?thesis
    using credit.charges_other [of i _ cs p] by (auto simp: run_pool_charges credit.total_def)
qed

theorem Decrement_accounts_exactly_witness:
  "creditBalance (run_pool (map (OpDecrement 1) [5, 0, - 3]) demoPool) 1 = 83"
proof -
  have "measuredKey demoPool 1"
    using demoPool_wf by (simp add: measuredKey_def demoPool_def NewKeyPool_def ix_ok_def)
  from Decrement_accounts_exactly [OF this, of "[5, 0, - 3]"] show ?thesis
    by (simp add: creditBalance_def demoPool_def NewKeyPool_def ix_ok_def)
qed



definition notSetCredits :: "nat \<Rightarrow> pool_op \<Rightarrow> bool" where
  "notSetCredits i x \<longleftrightarrow> (\<forall>c. x \<noteq> OpSetCredits (int i) c)"

definition unmeasuredKey :: "nat \<Rightarrow> key_pool \<Rightarrow> bool" where
  "unmeasuredKey i p \<longleftrightarrow> pool_wf p \<and> i < length (keys p) \<and> remainingCredits p ! i = MaxInt64"

lemma unmeasured_step:
  assumes "notSetCredits i x" and u: "unmeasuredKey i p"
  shows "unmeasuredKey i (exec_op p x)"
proof -
  have wf: "pool_wf (exec_op p x)" and cfg: "pool_config (exec_op p x) = pool_config p"
    using u by (auto simp: unmeasuredKey_def exec_op_wf exec_op_config)
  have len: "length (remainingCredits p) = length (keys p)"
    using u by (auto simp: unmeasuredKey_def pool_wf_lengths)
  have "remainingCredits (exec_op p x) ! i = MaxInt64"
  proof (cases x)
    case (OpReenableDue now)
    then show ?thesis using u by (simp add: unmeasuredKey_def ReenableDue_nth)
  next
    case (OpSetCredits k c)
    then have "k \<noteq> int i" using assms(1) by (auto simp: notSetCredits_def)
    then show ?thesis using u len
      by (auto simp: OpSetCredits unmeasuredKey_def SetCredits_def nth_list_update nat_eq_iff)
  qed (use u len in \<open>auto simp: unmeasuredKey_def Current_def Advance_def AdvanceAfter_def TryAcquire_def
        Release_def RecordSuccess_def RecordRejection_def Decrement_def Disable_def Let_def
        currentLocked_frame nth_list_update nat_eq_iff split: option.split\<close>)
  with wf cfg u show ?thesis by (simp add: unmeasuredKey_def pool_config_def)
qed

text \<open>
  C27: Re-enabling a key at its reset instant forgets its balance, and nothing but a fetched balance
  brings it back: after \<open>ReenableDue\<close> has re-enabled key \<open>i\<close>, any interleaving of operations without a
  \<open>SetCredits\<close> on it, any number of charges and disables included, leaves the key unmeasured. The
  profiles whose usage endpoint never answers (exa and the daily-capped finance ones) seed their
  budget once at startup, so for them the stop floor holds only until the first re-enable.
\<close>

theorem reenabled_key_stays_unmeasured:
  assumes "pool_wf p" and "i < length (keys p)" and "dueAt now i p"
    and "\<forall>x\<in>set ops. notSetCredits i x"
  shows "remainingCredits (run_pool ops (fst (ReenableDue now p))) ! i = MaxInt64"
proof -
  have "unmeasuredKey i (fst (ReenableDue now p))"
    using assms(1-3) by (simp add: unmeasuredKey_def ReenableDue_wf ReenableDue_frame ReenableDue_nth)
  then have "unmeasuredKey i (run_pool ops (fst (ReenableDue now p)))"
    by (rule run_ops_inv_on [rotated]) (use assms(4) in \<open>blast intro: unmeasured_step\<close>)
  then show ?thesis by (simp add: unmeasuredKey_def)
qed

theorem reenabled_key_stays_unmeasured_witness:
  "remainingCredits (run_pool [OpDecrement 0 40, OpDecrement 0 40, OpDisable 0 70]
     (fst (ReenableDue 60 (Disable 0 50 demoPool)))) ! 0 = MaxInt64"
proof (rule reenabled_key_stays_unmeasured)
  show "pool_wf (Disable 0 50 demoPool)" by (rule Disable_wf [OF demoPool_wf])
  show "0 < length (keys (Disable 0 50 demoPool))" "dueAt 60 0 (Disable 0 50 demoPool)"
    by (simp_all add: demoPool_def NewKeyPool_def Disable_def Let_def dueAt_def isZero_def zeroTime_def)
qed (simp add: notSetCredits_def)

section \<open>The low threshold\<close>

lemma low_update_commutes:
  "p\<lparr>lowThreshold := l, cursor := c\<rparr> = p\<lparr>cursor := c, lowThreshold := l\<rparr>"
  "p\<lparr>lowThreshold := l, cooldownUntil := t\<rparr> = p\<lparr>cooldownUntil := t, lowThreshold := l\<rparr>"
  "p\<lparr>lowThreshold := l, inFlight := f\<rparr> = p\<lparr>inFlight := f, lowThreshold := l\<rparr>"
  "p\<lparr>lowThreshold := l, slotFree := b\<rparr> = p\<lparr>slotFree := b, lowThreshold := l\<rparr>"
  "p\<lparr>lowThreshold := l, stats := st\<rparr> = p\<lparr>stats := st, lowThreshold := l\<rparr>"
  "p\<lparr>lowThreshold := l, remainingCredits := r\<rparr> = p\<lparr>remainingCredits := r, lowThreshold := l\<rparr>"
  "p\<lparr>lowThreshold := l, disabled := d\<rparr> = p\<lparr>disabled := d, lowThreshold := l\<rparr>"
  "p\<lparr>lowThreshold := l, disabledUntil := u\<rparr> = p\<lparr>disabledUntil := u, lowThreshold := l\<rparr>"
  by (cases p; simp)+

lemma low_unused_chosen [simp]: "chosen (p\<lparr>lowThreshold := l\<rparr>) now = chosen p now"
proof -
  have "usable (p\<lparr>lowThreshold := l\<rparr>) = usable p" "cooling (p\<lparr>lowThreshold := l\<rparr>) = cooling p"
    "hasSlotLocked (p\<lparr>lowThreshold := l\<rparr>) = hasSlotLocked p"
    by (simp_all add: fun_eq_iff usable_def cooling_def hasSlotLocked_def)
  then show ?thesis by (simp add: chosen_def Let_def)
qed

lemma low_unused_current:
  "currentLocked now (p\<lparr>lowThreshold := l\<rparr>) =
   (fst (currentLocked now p), (snd (currentLocked now p))\<lparr>lowThreshold := l\<rparr>)"
  by (simp add: currentLocked_chosen low_update_commutes)

lemma low_unused_reenable:
  "fst (ReenableDue now (p\<lparr>lowThreshold := l\<rparr>)) = (fst (ReenableDue now p))\<lparr>lowThreshold := l\<rparr>"
proof -
  let ?set = "\<lambda>(p, n). (p\<lparr>lowThreshold := l\<rparr>, n)"
  have "reenableKey now i (?set pn) = ?set (reenableKey now i pn)" for i and pn :: "key_pool \<times> int"
    by (cases pn) (simp add: reenableKey_def dueAt_def low_update_commutes)
  then have "fold (reenableKey now) ks (?set pn) = ?set (fold (reenableKey now) ks pn)" for ks pn
    by (rule fold_commute_view [symmetric, OF sym])
  from this [of _ "(p, 0)"] show ?thesis by (simp add: ReenableDue_def case_prod_beta)
qed

lemma low_unused_op: "exec_op (p\<lparr>lowThreshold := l\<rparr>) x = (exec_op p x)\<lparr>lowThreshold := l\<rparr>"
  by (cases x)
    (auto simp: Current_def Advance_def AdvanceAfter_def low_unused_current low_unused_reenable
      TryAcquire_def Release_def RecordSuccess_def RecordRejection_def Decrement_def SetCredits_def
      Disable_def Let_def low_update_commutes split: option.split)

text \<open>
  C40: The low threshold never influences the pool: changing it changes no selection and no state
  component other than itself, through any interleaving of operations. (The README's configuration
  table says a key is switched off when its balance drops to \<open>LOW_CREDIT_THRESHOLD\<close>; only the stop
  threshold does that.)
\<close>

theorem low_threshold_has_no_effect:
  "run_pool ops (p\<lparr>lowThreshold := l\<rparr>) = (run_pool ops p)\<lparr>lowThreshold := l\<rparr> \<and>
   fst (Current now (run_pool ops (p\<lparr>lowThreshold := l\<rparr>))) = fst (Current now (run_pool ops p))"
proof -
  have "run_pool ops (p\<lparr>lowThreshold := l\<rparr>) = (run_pool ops p)\<lparr>lowThreshold := l\<rparr>"
    by (rule run_ops_commute [where f = "\<lambda>p. p\<lparr>lowThreshold := l\<rparr>"]) (rule low_unused_op)
  then show ?thesis by (simp add: Current_def low_unused_current)
qed

section \<open>What clients see\<close>

text \<open>
  A snapshot (the body of /status) shows no more than the last four bytes of a key, and all of it
  only when the key has at most four; an unmeasured balance is shown as -1, a measured one as it is,
  so -1 is never a real balance.
\<close>

theorem Snapshot_masks:
  assumes "pool_wf p" and "i < length (keys p)"
  shows "length (sLast4 (Keys (Snapshot p) ! i)) = min 4 (length (keys p ! i)) \<and>
    hasSuffix (keys p ! i) (sLast4 (Keys (Snapshot p) ! i)) \<and>
    (sRemainingCredits (Keys (Snapshot p) ! i) = -1 \<longleftrightarrow> remainingCredits p ! i = MaxInt64) \<and>
    (remainingCredits p ! i \<noteq> MaxInt64 \<longrightarrow>
       sRemainingCredits (Keys (Snapshot p) ! i) = remainingCredits p ! i)"
proof -
  have "hasSuffix k (maskKey k)" for k
  proof -
    have "k = take (length k - 4) k @ drop (length k - 4) k" by simp
    then have "hasSuffix k (drop (length k - 4) k)" unfolding hasSuffix_iff by blast
    then show ?thesis by (simp add: maskKey_def hasSuffix_def)
  qed
  then show ?thesis
    using assms pool_wf_credits(1) [OF assms]
    by (simp add: Snapshot_def snapshotKey_def) (auto simp: maskKey_def)
qed

theorem Snapshot_masks_witness:
  "length (sLast4 (Keys (Snapshot demoPool) ! 2)) = min 4 (length ''charlie'')"
proof -
  have "2 < length (keys demoPool)" by (simp add: demoPool_def NewKeyPool_def)
  from Snapshot_masks [OF demoPool_wf this] show ?thesis
    by (simp add: demoPool_def NewKeyPool_def)
qed

end
