(* ===== verification/Usage_Properties.thy ===== *)
theory Usage_Properties
  imports Credit_Usage Profile_Properties Pool_Properties
begin

text \<open>
  What creditusage.go guarantees: the retry contract its three endpoints share, tavily's balance,
  exa's prices, and the instant at which a disabled key comes back.
\<close>

section \<open>The retry contract of a usage endpoint\<close>

definition transient :: "outcome option \<Rightarrow> bool" where
  "transient a = (case a of
     None \<Rightarrow> False
   | Some (Failed e) \<Rightarrow> True
   | Some (Answered r) \<Rightarrow> usageRetryable (rStatus r))"

lemma retry_status: "in64 s \<Longrightarrow> shouldRetryUsage (''status:'' @ itoa s) = usageRetryable s"
  by (simp add: shouldRetryUsage_def)

lemma retry_net: "shouldRetryUsage (''net:'' @ e)"
  by (simp add: shouldRetryUsage_def)

lemmas retry_simps = retry_status [simplified] retry_net [simplified]

lemma retry_final: "\<not> shouldRetryUsage ''build:''" "\<not> shouldRetryUsage ''read:''"
  by (simp_all add: shouldRetryUsage_def)

text \<open>What call \<open>m\<close> would bring back (\<open>None\<close>: the request cannot be built), and the requests of \<open>k\<close> calls.\<close>

definition askWith :: "network \<Rightarrow> request option \<Rightarrow> nat \<Rightarrow> outcome option" where
  "askWith net q m = map_option (net m) q"

definition traffic :: "request option \<Rightarrow> nat \<Rightarrow> request list" where
  "traffic q k = (case q of None \<Rightarrow> [] | Some x \<Rightarrow> replicate k x)"

lemma traffic_set: "x \<in> set (traffic q k) \<Longrightarrow> q = Some x"
  by (auto simp: traffic_def split: option.splits)

lemma traffic_length: "length (traffic q k) \<le> k"
  by (simp add: traffic_def split: option.split)

text \<open>\<open>once\<close> is the provider's single request, \<open>answer\<close> what it makes of the outcome.\<close>

locale usage_endpoint =
  fixes once :: "request list \<Rightarrow> (usage \<times> string) \<times> request list"
    and net :: network
    and query :: "request option"
    and answer :: "outcome \<Rightarrow> usage \<times> string"
  assumes call: "once sent = usageCall net query answer sent"
    and failed: "answer (Failed e) = (zeroUsage, ''net:'' @ e)"
    and refused: "rStatus r \<noteq> 200 \<Longrightarrow> answer (Answered r) = (zeroUsage, ''status:'' @ itoa (rStatus r))"
    and answered: "rStatus r = 200 \<Longrightarrow>
      isOk (fst (answer (Answered r))) \<or> \<not> shouldRetryUsage (snd (answer (Answered r)))"
begin

lemma unbuilt_ends: "query = None \<Longrightarrow> fetchLoop once sent left = (zeroUsage, sent)"
  by (subst fetchLoop.simps) (simp add: call usageCall_def zeroUsage_def retry_final)

lemma loop_step:
  assumes "query = Some x"
  shows "fetchLoop once sent left =
    (case answer (net (length sent) x) of (u, reason) \<Rightarrow>
       if isOk u then (u, sent @ [x])
       else if \<not> shouldRetryUsage reason \<or> left = 0 then (zeroUsage, sent @ [x])
       else fetchLoop once (sent @ [x]) (left - 1))"
  by (subst fetchLoop.simps) (simp add: call usageCall_def assms split: prod.split)

lemma transient_retries: "transient (Some out) \<Longrightarrow> \<not> isOk (fst (answer out)) \<and> shouldRetryUsage (snd (answer out))"
proof (cases out)
  case (Failed e)
  then show ?thesis using failed [of e] by (simp add: retry_simps zeroUsage_def)
next
  case (Answered r)
  assume "transient (Some out)"
  then have "usageRetryable (rStatus r)" using Answered by (simp add: transient_def)
  then have "rStatus r \<noteq> 200" "in64 (rStatus r)" by (auto simp: usageRetryable_def in64_def)
  then show ?thesis
    using refused [of r] Answered \<open>usageRetryable (rStatus r)\<close> by (simp add: retry_simps zeroUsage_def)
qed

lemma permanent_stops:
  assumes "\<not> transient (Some out)" and "\<forall>r. out = Answered r \<longrightarrow> in64 (rStatus r)"
  shows "isOk (fst (answer out)) \<or> \<not> shouldRetryUsage (snd (answer out))"
proof (cases out)
  case (Failed e)
  then show ?thesis using assms(1) by (simp add: transient_def)
next
  case (Answered r)
  then show ?thesis
    using answered [of r] refused [of r] assms by (cases "rStatus r = 200") (auto simp: retry_simps transient_def)
qed

lemma calls_bound: "\<exists>k. 0 < k \<and> k \<le> left + 1 \<and> snd (fetchLoop once sent left) = sent @ traffic query k"
proof (cases query)
  case None
  then show ?thesis by (intro exI [of _ 1]) (simp add: unbuilt_ends traffic_def)
next
  case (Some x)
  have "\<exists>k. 0 < k \<and> k \<le> left + 1 \<and> snd (fetchLoop once sent left) = sent @ replicate k x"
  proof (induction left arbitrary: sent)
    case 0
    show ?case by (intro exI [of _ 1]) (simp add: loop_step [OF Some] split: prod.split)
  next
    case (Suc left)
    obtain k where "0 < k" "k \<le> left + 1" "snd (fetchLoop once (sent @ [x]) left) = (sent @ [x]) @ replicate k x"
      using Suc [of "sent @ [x]"] by blast
    then show ?case
      using loop_step [OF Some, of sent "Suc left"]
      by (cases "answer (net (length sent) x)")
        (auto intro: exI [of _ "Suc 0"] exI [of _ "Suc k"])
  qed
  then show ?thesis by (simp add: Some traffic_def)
qed

text \<open>What call \<open>m\<close> would be read as.\<close>

definition reading :: "nat \<Rightarrow> usage \<times> string" where
  "reading m = (case askWith net query m of None \<Rightarrow> (zeroUsage, ''build:'') | Some out \<Rightarrow> answer out)"

text \<open>After \<open>k\<close> transient outcomes comes one that is not: it is the loop's result.\<close>

lemma settles:
  assumes "k \<le> left" and "\<forall>j<k. transient (askWith net query (length sent + j))"
    and "\<not> transient (askWith net query (length sent + k))"
    and "\<forall>r. askWith net query (length sent + k) = Some (Answered r) \<longrightarrow> in64 (rStatus r)"
  shows "fetchLoop once sent left =
    (if isOk (fst (reading (length sent + k))) then fst (reading (length sent + k)) else zeroUsage, sent @ traffic query (k + 1))"
proof (cases query)
  case None
  then show ?thesis unfolding reading_def askWith_def by (simp add: unbuilt_ends traffic_def zeroUsage_def)
next
  case (Some x)
  have "fetchLoop once sent left =
    (if isOk (fst (answer (net (length sent + k) x))) then fst (answer (net (length sent + k) x)) else zeroUsage,
     sent @ replicate (k + 1) x)"
    using assms
  proof (induction k arbitrary: sent left)
    case 0
    then show ?case
      using permanent_stops [of "net (length sent) x"] loop_step [OF Some, of sent left]
      by (cases "answer (net (length sent) x)") (auto simp: askWith_def Some)
  next
    case (Suc k)
    then have "transient (Some (net (length sent) x))" by (auto simp: askWith_def Some dest: spec [of _ 0])
    note r = transient_retries [OF this]
    have "fetchLoop once (sent @ [x]) (left - 1) =
      (if isOk (fst (answer (net (length (sent @ [x]) + k) x))) then fst (answer (net (length (sent @ [x]) + k) x)) else zeroUsage,
       (sent @ [x]) @ replicate (k + 1) x)"
      using Suc.prems by (intro Suc.IH) (auto dest: spec [of _ "Suc _"])
    then show ?case
      using r Suc.prems(1) loop_step [OF Some, of sent left] by (cases "answer (net (length sent) x)") auto
  qed
  then show ?thesis unfolding reading_def askWith_def by (simp add: Some traffic_def)
qed

lemma gives_up:
  assumes "\<forall>j\<le>left. transient (askWith net query (length sent + j))"
  shows "fetchLoop once sent left = (zeroUsage, sent @ traffic query (left + 1))"
proof (cases query)
  case None
  then show ?thesis using assms by (auto simp: askWith_def transient_def)
next
  case (Some x)
  have "fetchLoop once sent left = (zeroUsage, sent @ replicate (left + 1) x)"
    using assms
  proof (induction left arbitrary: sent)
    case 0
    then have "transient (Some (net (length sent) x))" by (simp add: askWith_def Some)
    then show ?case
      using transient_retries [of "net (length sent) x"] loop_step [OF Some, of sent 0]
      by (cases "answer (net (length sent) x)") auto
  next
    case (Suc left)
    then have "transient (Some (net (length sent) x))" by (auto simp: askWith_def Some dest: spec [of _ 0])
    note r = transient_retries [OF this]
    have "fetchLoop once (sent @ [x]) left = (zeroUsage, (sent @ [x]) @ replicate (left + 1) x)"
      using Suc.prems by (intro Suc.IH) (auto dest: spec [of _ "Suc _"])
    then show ?case
      using r loop_step [OF Some, of sent "Suc left"] by (cases "answer (net (length sent) x)") auto
  qed
  then show ?thesis by (simp add: Some traffic_def)
qed

end

text \<open>No decoder produces a reason that is retried.\<close>

lemma withEnd_ok [simp]: "isOk (withEnd s u) = isOk u" "remaining (withEnd s u) = remaining u"
  by (auto simp: withEnd_def split: option.split)

lemma decode_final:
  "isOk (fst (usageOf b)) \<or> \<not> shouldRetryUsage (snd (usageOf b))"
  "isOk (fst (tavilyUsageOf b)) \<or> \<not> shouldRetryUsage (snd (tavilyUsageOf b))"
  "isOk (fst (apifyUsageOf c b)) \<or> \<not> shouldRetryUsage (snd (apifyUsageOf c b))"
  by (auto simp: usageOf_def tavilyUsageOf_def apifyUsageOf_def shouldRetryUsage_def split: option.split prod.split)

lemma usage_endpointI:
  assumes "\<And>b. isOk (fst (decode b)) \<or> \<not> shouldRetryUsage (snd (decode b))"
  shows "usage_endpoint (usageCall net q (usageAnswer cap decode)) net q (usageAnswer cap decode)"
proof -
  have "shouldRetryUsage (snd (decode b)) \<Longrightarrow> isOk (fst (decode b))" for b using assms by blast
  then show ?thesis
    by unfold_locales (auto simp: usageAnswer_def retry_final split: option.splits)
qed

interpretation fc: usage_endpoint "fetchUsageOnce net upstream key" net
    "usageRequest (upstream @ ''/v2/team/credit-usage'') key" "usageAnswer (64 * 1024) usageOf" for net upstream key
  unfolding fetchUsageOnce_def by (rule usage_endpointI [OF decode_final(1)])

interpretation tv: usage_endpoint "fetchTavilyUsageOnce net upstream key" net
    "usageRequest (upstream @ ''/usage'') key" "usageAnswer (64 * 1024) tavilyUsageOf" for net upstream key
  unfolding fetchTavilyUsageOnce_def by (rule usage_endpointI [OF decode_final(2)])

interpretation ap: usage_endpoint "fetchApifyUsageOnce net p key" net "apifyRequest p key"
    "usageAnswer (256 * 1024) (apifyUsageOf (ApifyFreeCreditUsd p))" for net p key
  unfolding fetchApifyUsageOnce_def by (rule usage_endpointI [OF decode_final(3)])

section \<open>Properties of the fetch\<close>

definition usageQuery :: "Profile \<Rightarrow> string \<Rightarrow> request option" where
  "usageQuery p key =
     (if Name p = ''tavily'' then usageRequest (Upstream p @ ''/usage'') key
      else if Name p = ''apify'' then apifyRequest p key
      else usageRequest (Upstream p @ ''/v2/team/credit-usage'') key)"

definition usageDecode :: "Profile \<Rightarrow> outcome \<Rightarrow> usage \<times> string" where
  "usageDecode p =
     (if Name p = ''tavily'' then usageAnswer (64 * 1024) tavilyUsageOf
      else if Name p = ''apify'' then usageAnswer (256 * 1024) (apifyUsageOf (ApifyFreeCreditUsd p))
      else usageAnswer (64 * 1024) usageOf)"

definition usageAsk :: "network \<Rightarrow> Profile \<Rightarrow> string \<Rightarrow> nat \<Rightarrow> outcome option" where
  "usageAsk net p key = askWith net (usageQuery p key)"

text \<open>What the \<open>m\<close>-th call would be read as.\<close>

definition usageOnce :: "network \<Rightarrow> Profile \<Rightarrow> string \<Rightarrow> nat \<Rightarrow> usage \<times> string" where
  "usageOnce net p key m = (case usageAsk net p key m of None \<Rightarrow> (zeroUsage, ''build:'') | Some out \<Rightarrow> usageDecode p out)"

definition usageStep :: "network \<Rightarrow> Profile \<Rightarrow> string \<Rightarrow> request list \<Rightarrow> (usage \<times> string) \<times> request list" where
  "usageStep net p key =
     (if Name p = ''tavily'' then fetchTavilyUsageOnce net (Upstream p) key
      else if Name p = ''apify'' then fetchApifyUsageOnce net p key
      else fetchUsageOnce net (Upstream p) key)"

lemma fetchUsageFor_loop:
  "\<not> accountedProfile p \<Longrightarrow> fetchUsageFor net p key sent = fetchLoop (usageStep net p key) sent 3"
  by (auto simp: fetchUsageFor_def usageStep_def accountedProfile_def isDailyCappedFinance_def
      fetchTavilyUsage_def fetchApifyUsage_def fetchUsage_def usageBackoff_def numeral_3_eq_3)

interpretation any: usage_endpoint "usageStep net p key" net "usageQuery p key" "usageDecode p" for net p key
  by (cases "Name p = ''tavily''"; cases "Name p = ''apify''")
    (use fc.usage_endpoint_axioms [of net "Upstream p" key] tv.usage_endpoint_axioms [of net "Upstream p" key]
      ap.usage_endpoint_axioms [of net p key] in \<open>simp_all add: usageStep_def usageQuery_def usageDecode_def\<close>)

lemma any_reading: "any.reading net p key m = usageOnce net p key m"
  by (simp add: any.reading_def usageOnce_def usageAsk_def)

lemma usage_fetch_none: "accountedProfile p \<Longrightarrow> fetchUsageFor net p key sent = (zeroUsage, sent)"
  by (auto simp: accountedProfile_def isDailyCappedFinance_def fetchUsageFor_def)

lemma fetch_traffic:
  "\<exists>k\<le>4. snd (fetchUsageFor net p key sent) = sent @ traffic (usageQuery p key) k \<and>
    (accountedProfile p \<longleftrightarrow> k = 0)"
proof (cases "accountedProfile p")
  case True
  then show ?thesis by (intro exI [of _ 0]) (simp add: usage_fetch_none traffic_def split: option.split)
next
  case False
  then show ?thesis using any.calls_bound [of 3 net p key sent] fetchUsageFor_loop [OF False, of net key sent] by auto
qed

text \<open>
  A usage fetch is bounded: it makes at most four calls, all of the same request, and none at all for
  exa and the daily-capped profiles, which have no usage endpoint and so are never reported as measured
  by it.
\<close>

theorem usage_fetch_bounded:
  "length (snd (fetchUsageFor net p key sent)) \<le> length sent + 4 \<and>
   (accountedProfile p \<longrightarrow> fetchUsageFor net p key sent = (zeroUsage, sent))"
proof -
  obtain k where "k \<le> 4" "snd (fetchUsageFor net p key sent) = sent @ traffic (usageQuery p key) k"
    using fetch_traffic by blast
  then show ?thesis using traffic_length [of "usageQuery p key" k] usage_fetch_none by auto
qed

theorem usage_fetch_bounded_witness:
  "fetchUsageFor (\<lambda>n q. Failed ''down'') (zeroProfile\<lparr>Name := ''fmp''\<rparr>) ''k'' [] = (zeroUsage, [])"
proof -
  have "accountedProfile (zeroProfile\<lparr>Name := ''fmp''\<rparr>)" by (simp add: accountedProfile_def isDailyCappedFinance_def)
  then show ?thesis using usage_fetch_bounded by blast
qed


definition creditReply :: string where
  "creditReply = quoted ''{~success~:true,~data~:{~remainingCredits~:1234}}''"

lemma creditReply_json:
  "parseJson creditReply =
     Some (JObj [(''success'', JBool True), (''data'', JObj [(''remainingCredits'', JNum ''1234'')])])"
proof -
  have "lexAll creditReply = Some [TLBrace, TStr ''success'', TColon, TBool True, TComma, TStr ''data'',
      TColon, TLBrace, TStr ''remainingCredits'', TColon, TNum ''1234'', TRBrace, TRBrace]"
    by code_simp
  then show ?thesis by (simp add: parseJson_def parseTokens_iff)
qed

lemma creditReply_usage: "usageOf creditReply = (zeroUsage\<lparr>remaining := 1234, isOk := True\<rparr>, [])"
proof -
  have "parseInt64 ''1234'' = Some 1234" by code_simp
  then show ?thesis
    by (simp add: usageOf_def unmarshal_def creditReply_json creditEnvFields_def decodeStruct_def
        decodeMember_def decodeBool_def decodeInt64_def upperChar_def isLower_def withEnd_def)
qed

definition flakyNet :: network where
  "flakyNet n q =
     (if n < 2 then Answered \<lparr>rStatus = 503, rHeader = [], rBody = [], rReadErr = None\<rparr>
      else Answered \<lparr>rStatus = 200, rHeader = [],
        rBody = creditReply, rReadErr = None\<rparr>)"

definition fcDemo :: Profile where
  "fcDemo = zeroProfile\<lparr>Name := ''firecrawl'', Upstream := ''https://api.firecrawl.dev''\<rparr>"


section \<open>Tavily's balance\<close>

definition measuredLayers :: "(int option \<times> int option) list \<Rightarrow> int list" where
  "measuredLayers ls = concat (map (\<lambda>l. case l of (Some used, Some limit) \<Rightarrow> [max 0 (limit - used)] | _ \<Rightarrow> []) ls)"

definition smallLayer :: "int option \<times> int option \<Rightarrow> bool" where
  "smallLayer l = (case l of (Some used, Some limit) \<Rightarrow> in64 (limit - used) | _ \<Rightarrow> True)"

lemma layerRemaining_min:
  "smallLayer l \<Longrightarrow> layerRemaining l b =
    (case measuredLayers [l] of [] \<Rightarrow> b | x # _ \<Rightarrow> if b < 0 then x else min x b)"
  by (auto simp: layerRemaining_def measuredLayers_def smallLayer_def Let_def max_def min_def split: option.splits)

lemma measuredLayers_Cons: "measuredLayers (l # ls) = measuredLayers [l] @ measuredLayers ls"
  by (simp add: measuredLayers_def)

lemma measuredLayers_nonneg: "x \<in> set (measuredLayers ls) \<Longrightarrow> 0 \<le> x"
  by (auto simp: measuredLayers_def split: prod.splits option.splits)

lemma Min_insert_min: "finite S \<Longrightarrow> Min (insert (min x b) S) = Min (insert x (insert b S))"
  by (cases "S = {}") (simp_all add: min.assoc)

lemma layers_fold:
  "list_all smallLayer ls \<Longrightarrow> 0 \<le> b \<Longrightarrow> fold layerRemaining ls b = Min (set (b # measuredLayers ls))"
proof (induction ls arbitrary: b)
  case (Cons l ls)
  have one: "measuredLayers [l] = [] \<or> (\<exists>x. measuredLayers [l] = [x] \<and> 0 \<le> x)"
    by (auto simp: measuredLayers_def split: prod.splits option.splits)
  then show ?case
    using Cons by (auto simp: layerRemaining_min measuredLayers_Cons [of l ls] Min_insert_min insert_commute
        simp del: Min_insert)
qed (simp add: measuredLayers_def)

lemma layers_fold_start:
  "list_all smallLayer ls \<Longrightarrow> fold layerRemaining ls (-1) =
    (if measuredLayers ls = [] then -1 else Min (set (measuredLayers ls)))"
proof (induction ls)
  case (Cons l ls)
  show ?case
  proof (cases "measuredLayers [l]")
    case Nil
    then show ?thesis using Cons by (simp add: layerRemaining_min measuredLayers_Cons [of l ls])
  next
    case (Cons x xs)
    then have "xs = []" "0 \<le> x"
      by (auto simp: measuredLayers_def split: prod.splits option.splits)
    then show ?thesis
      using Cons.prems Cons layers_fold [of ls x]
      by (simp add: layerRemaining_min measuredLayers_Cons [of l ls])
  qed
qed (simp add: measuredLayers_def)

text \<open>
  Tavily's balance is the smallest of the limit layers that the reply measures (usage and limit both
  present), each clamped at 0, and "unmeasured" exactly when there is none. A layer with limit 0
  counts as exhausted, as the code's comment says and against the README ("skipping any layer whose
  limit <= 0").
\<close>

theorem tavilyRemaining_is_min:
  fixes ku kl pu pl gu gl :: "int option"
  defines "ls \<equiv> [(ku, kl), (pu, pl), (gu, gl)]"
  assumes "list_all smallLayer ls"
  shows "tavilyRemaining ku kl pu pl gu gl =
      (if measuredLayers ls = [] then (0, False) else (Min (set (measuredLayers ls)), True))"
proof -
  have "Min (set (measuredLayers ls)) \<ge> 0" if "measuredLayers ls \<noteq> []"
    using that measuredLayers_nonneg [of _ ls] by (simp add: Min_ge_iff)
  then show ?thesis
    using layers_fold_start [OF assms(2)]
    by (cases "measuredLayers ls = []") (simp_all add: tavilyRemaining_def Let_def ls_def [symmetric] not_less del: fold_simps)
qed

theorem tavilyRemaining_is_min_witness:
  "tavilyRemaining (Some 10) None (Some 5) (Some 100) (Some 0) (Some 0) = (0, True)"
  using tavilyRemaining_is_min [of "Some 10" None "Some 5" "Some 100" "Some 0" "Some 0"]
  by (simp add: smallLayer_def measuredLayers_def in64_def)

section \<open>Exa's prices\<close>

text \<open>A decimal literal without exponent.\<close>

lemma digits_take: "list_all isDigit ip \<Longrightarrow> takeWhile isDigit (ip @ CHR ''.'' # r) = ip"
  "list_all isDigit ip \<Longrightarrow> dropWhile isDigit (ip @ CHR ''.'' # r) = CHR ''.'' # r"
  by (induction ip) (simp_all add: isDigit_def)

lemma dropWhile_length: "length (dropWhile P xs) \<le> length xs"
  by (induction xs) auto

lemma digit_not_minus: "list_all isDigit ip \<Longrightarrow> ip \<noteq> [] \<Longrightarrow> \<not> hasPrefix (ip @ r) ''-''"
  by (cases ip) (auto simp: isDigit_def)

lemma parseFloatLit_decimal:
  assumes d: "list_all isDigit ip" "list_all isDigit fp" and "ip \<noteq> []"
    and len: "length ip \<le> 300" "length fp \<le> 300" "fp \<noteq> []" and pos: "digitsNat (ip @ fp) \<noteq> 0"
    and fin: "roundRatio (digitsNat (ip @ fp)) (10 ^ length fp) = Finite m e"
  shows "parseFloatLit (ip @ CHR ''.'' # fp) = Some (roundRatio (digitsNat (ip @ fp)) (10 ^ length fp))"
proof -
  let ?nd = "length (dropWhile (\<lambda>c. c = CHR ''0'') (ip @ fp))"
  have nd: "?nd \<le> length ip + length fp" using dropWhile_length [of _ "ip @ fp"] by simp
  have np: "\<not> hasPrefix (ip @ CHR ''.'' # fp) ''-''" by (rule digit_not_minus [OF d(1) assms(3)])
  have tw: "takeWhile isDigit fp = fp" "dropWhile isDigit fp = []"
    using d(2) by (induction fp) auto
  have t: "takeWhile isDigit (ip @ CHR ''.'' # fp) = ip" "dropWhile isDigit (ip @ CHR ''.'' # fp) = CHR ''.'' # fp"
    by (rule digits_take [OF d(1)])+
  have "parseFloatLit (ip @ CHR ''.'' # fp) =
    (case decimalValue False (digitsNat (ip @ fp)) (- int (length fp)) ?nd of Infinite _ \<Rightarrow> None | x \<Rightarrow> Some x)"
    by (simp add: parseFloatLit_def np t tw Let_def expNat_def split: f64.split)
  moreover have "decimalValue False (digitsNat (ip @ fp)) (- int (length fp)) ?nd =
      roundRatio (digitsNat (ip @ fp)) (10 ^ length fp)"
    using nd len pos by (auto simp: decimalValue_def Let_def)
  ultimately show ?thesis using fin by simp
qed

lemma microOf_nonfinite: "(\<And>m e. x \<noteq> Finite m e) \<Longrightarrow> microOf x = MinInt64"
  using fint_million by (cases x) (auto simp: microOf_def fmul_def mathRound_def toInt64_def)

text \<open>An object with exactly one member of the wanted name, anywhere among others.\<close>

definition onlyMember :: "string \<Rightarrow> (string \<times> json) list \<Rightarrow> json \<Rightarrow> bool" where
  "onlyMember name ms v \<longleftrightarrow> (\<exists>pre k post. ms = pre @ (k, v) # post \<and> foldName k = foldName name \<and>
     list_all (\<lambda>m. foldName (fst m) \<noteq> foldName name) (pre @ post))"

lemma decodeStruct_only:
  assumes "onlyMember name ms v"
  shows "decodeStruct [(name, f)] (JObj ms) s = f v s"
proof -
  obtain pre k post where ms: "ms = pre @ (k, v) # post" and k: "foldName k = foldName name"
    and o: "list_all (\<lambda>m. foldName (fst m) \<noteq> foldName name) (pre @ post)"
    using assms by (auto simp: onlyMember_def)
  have skip: "decodeMember [(name, f)] m acc = acc" if "m \<in> set (pre @ post)" for m acc
    using that o by (auto simp: decodeMember_def list_all_iff split: option.split)
  have "fold (decodeMember [(name, f)]) ms' acc = acc" if "set ms' \<subseteq> set (pre @ post)" for ms' acc
    using that by (induction ms' arbitrary: acc) (auto simp: skip)
  then have "fold (decodeMember [(name, f)]) pre acc = acc" "fold (decodeMember [(name, f)]) post acc = acc" for acc
    by simp_all
  then show ?thesis by (simp add: decodeStruct_def ms decodeMember_def k)
qed

text \<open>
  C28: Exa's accounting is exact to the micro-dollar: a reply whose \<open>costDollars.total\<close> is a decimal
  literal worth \<open>k\<close> millionths of a dollar (up to about a billion dollars) is charged exactly \<open>k\<close>,
  although the price goes through a binary \<open>float64\<close>, a multiplication and \<open>math.Round\<close>.
\<close>

theorem exa_price_exact:
  assumes body: "parseJson body = Some (JObj ms)"
    and cost: "onlyMember ''costDollars'' ms (JObj ts)"
    and tot: "onlyMember ''total'' ts (JNum (ip @ ''.'' @ fp))"
    and lit: "list_all isDigit ip" "list_all isDigit fp" "ip \<noteq> []" "fp \<noteq> []" "length ip \<le> 300" "length fp \<le> 300"
    and k: "0 < k" "k \<le> 2 ^ 50" "digitsNat (ip @ fp) * 1000000 = k * 10 ^ length fp"
  shows "extractExaCostMicro body = k"
proof -
  have pos: "0 < digitsNat (ip @ fp)"
    using k by (smt (verit) mult_pos_pos zero_less_mult_iff zero_less_power)
  let ?x = "roundRatio (digitsNat (ip @ fp)) (10 ^ length fp)"
  have micro: "microOf ?x = k" using microOf_exact [OF k(1,2) pos _ k(3)] by simp
  then obtain m e where fin: "?x = Finite m e"
    using k(1) microOf_nonfinite [of ?x] by fastforce
  have x: "parseFloatLit (ip @ CHR ''.'' # fp) = Some ?x"
    using lit pos fin by (intro parseFloatLit_decimal) auto
  have "unmarshal costFields None body = Some (Some (Some ?x))"
    using x by (simp add: unmarshal_def body costFields_def decodeStruct_only [OF cost] decodePtr_def
        decodeStruct_only [OF tot] decodeFloat_def)
  then show ?thesis using micro k(1) by (simp add: extractExaCostMicro_def microOf_def)
qed

definition exaReply :: string where
  "exaReply = quoted ''{~results~: [], ~costDollars~: {~total~: 0.007, ~search~: {~neural~: 0.007}}}''"

theorem exa_price_exact_witness: "extractExaCostMicro exaReply = 7000"
proof (rule exa_price_exact)
  have "lexAll exaReply = Some [TLBrace, TStr ''results'', TColon, TLBrack, TRBrack, TComma, TStr ''costDollars'', TColon,
      TLBrace, TStr ''total'', TColon, TNum ''0.007'', TComma, TStr ''search'', TColon, TLBrace, TStr ''neural'',
      TColon, TNum ''0.007'', TRBrace, TRBrace, TRBrace]"
    by code_simp
  then show "parseJson exaReply = Some (JObj [(''results'', JArr []), (''costDollars'',
      JObj [(''total'', JNum ''0.007''), (''search'', JObj [(''neural'', JNum ''0.007'')])])])"
    by (simp add: parseJson_def parseTokens_iff)
  show "onlyMember ''costDollars'' [(''results'', JArr []), (''costDollars'',
      JObj [(''total'', JNum ''0.007''), (''search'', JObj [(''neural'', JNum ''0.007'')])])]
      (JObj [(''total'', JNum ''0.007''), (''search'', JObj [(''neural'', JNum ''0.007'')])])"
    unfolding onlyMember_def
    by (rule exI [of _ "[(''results'', JArr [])]"], rule exI [of _ "''costDollars''"], rule exI [of _ "[]"])
      (simp add: upperChar_def isLower_def)
  show "onlyMember ''total'' [(''total'', JNum ''0.007''), (''search'', JObj [(''neural'', JNum ''0.007'')])]
      (JNum (''0'' @ ''.'' @ ''007''))"
    unfolding onlyMember_def
    by (rule exI [of _ "[]"], rule exI [of _ "''total''"], rule exI [of _ "[(''search'', JObj [(''neural'', JNum ''0.007'')])]"])
      (simp add: upperChar_def isLower_def)
qed (simp_all add: isDigit_def digitsNat_def digitVal_def)

section \<open>The reset instant\<close>

lemma goDate_next_month: "1 \<le> m \<Longrightarrow> m \<le> 12 \<Longrightarrow> goDate y (m + 1) d = goDate y m d + daysInMonth y m * Day"
  using dayNumber_next_month [of m y d] by (simp add: goDate_def algebra_simps)

lemma goDate_day: "goDate y m d = goDate y m 1 + (d - 1) * Day"
  by (simp add: goDate_def dayNumber_def Let_def algebra_simps)

text \<open>A civil date and the midnight of its day; days up to 28 exist in every month.\<close>

lemma date_bounds:
  assumes "dateOf t = (y, m, d)"
  shows "1 \<le> m" "m \<le> 12" "1 \<le> d" "d \<le> daysInMonth y m"
    "goDate y m 1 \<le> t" "t < goDate y (m + 1) 1"
proof -
  have v: "civilOfDay (t div Day + epochDays) = (y, m, d)" using assms by (simp add: dateOf_def)
  show r: "1 \<le> m" "m \<le> 12" "1 \<le> d" "d \<le> daysInMonth y m" using civilOfDay_valid [OF v] by simp_all
  have "goDate y m 1 \<le> goDate y m d" using r(3) goDate_day [of y m d] by simp
  then show "goDate y m 1 \<le> t" using dateOf_bounds(1) [OF assms] by simp
  have "goDate y m d + Day \<le> goDate y (m + 1) 1"
    using goDate_next_month [OF r(1,2), of y 1] goDate_day [of y m d] r(4) by simp
  then show "t < goDate y (m + 1) 1" using dateOf_bounds(2) [OF assms] by simp
qed

lemma addDate_month:
  assumes "1 \<le> m" and "m \<le> 12" and "1 \<le> d" and "d \<le> daysInMonth y m"
  shows "addDate (goDate y m d) 0 1 0 = goDate y (m + 1) d"
  by (simp add: addDate_def dateOf_goDate [OF assms])

lemma fallbackReset_cases:
  assumes now: "dateOf now = (y, m, d0)" and d: "1 \<le> d" "d \<le> 31"
  shows "(now < goDate y m d \<and> fallbackReset now d = goDate y m d) \<or>
    (goDate y m d \<le> now \<and> d \<le> daysInMonth y m \<and> fallbackReset now d = goDate y (m + 1) d)"
proof (cases "now < goDate y m d")
  case True
  then show ?thesis by (simp add: fallbackReset_def now)
next
  case False
  note b = date_bounds [OF now]
  have "d \<le> daysInMonth y m"
  proof (rule ccontr)
    assume "\<not> d \<le> daysInMonth y m"
    then have "goDate y (m + 1) 1 \<le> goDate y m d"
      using goDate_next_month [OF b(1,2), of y 1] goDate_day [of y m d] by simp
    then show False using False b(6) by simp
  qed
  then show ?thesis using False addDate_month [OF b(1,2) d(1)] by (simp add: fallbackReset_def now)
qed

lemma fallbackReset_future:
  assumes "1 \<le> day" and "day \<le> 31"
  shows "now < fallbackReset now day \<and> fallbackReset now day \<le> now + 62 * Day"
proof -
  obtain y m d0 where now: "dateOf now = (y, m, d0)" by (cases "dateOf now")
  note b = date_bounds [OF now]
  have len: "daysInMonth y m \<le> 31" using daysInMonth_bounds [of m y] b by auto
  show ?thesis
    using fallbackReset_cases [OF now assms] b goDate_day [of y m day] goDate_day [of y "m + 1" day]
      goDate_next_month [OF b(1,2), of y 1] assms len by auto
qed

text \<open>Months counted through the years.\<close>

lemma goDate_index: "goDate y m d = goDate 0 (12 * y + m) d"
proof -
  have "12 * y + m - 1 = m - 1 + y * 12" by simp
  then have "(12 * y + m - 1) div 12 = y + (m - 1) div 12" "(12 * y + m - 1) mod 12 = (m - 1) mod 12"
    by (simp_all only: div_mult_self1 mod_mult_self1 add.commute)
  then show ?thesis by (simp add: goDate_def dayNumber_def Let_def)
qed

lemma goDate_index_step: "goDate 0 k d + 28 * Day \<le> goDate 0 (k + 1) d"
proof -
  define y where "y = (k - 1) div 12"
  define m where "m = (k - 1) mod 12 + 1"
  have k: "k = 12 * y + m" by (simp add: y_def m_def)
  have m: "1 \<le> m" "m \<le> 12" by (simp_all add: m_def)
  have "goDate 0 (k + 1) d = goDate y (m + 1) d" "goDate 0 k d = goDate y m d"
    using goDate_index [of y "m + 1" d] goDate_index [of y m d] by (simp_all add: k add.assoc)
  then show ?thesis using goDate_next_month [OF m, of y d] daysInMonth_bounds(1) [OF m, of y] by simp
qed

lemma goDate_index_mono: "i \<le> j \<Longrightarrow> goDate 0 i d \<le> goDate 0 j d"
proof (induction j rule: int_ge_induct)
  case (step j)
  then show ?case using goDate_index_step [of j d] by simp
qed simp

text \<open>
  C29: For a reset day up to 28 the fallback is exactly "the next occurrence of that day at 00:00 UTC":
  it falls on that day at midnight and no other such instant lies between.
\<close>

theorem fallbackReset_next_occurrence:
  assumes "1 \<le> day" and "day \<le> 28"
  shows "snd (snd (dateOf (fallbackReset now day))) = day \<and> fallbackReset now day mod Day = 0 \<and>
    (\<forall>y m. 1 \<le> m \<and> m \<le> 12 \<and> now < goDate y m day \<longrightarrow> fallbackReset now day \<le> goDate y m day)"
proof -
  obtain y m d0 where now: "dateOf now = (y, m, d0)" by (cases "dateOf now")
  note b = date_bounds [OF now]
  let ?k = "12 * y + m"
  have le: "day \<le> daysInMonth y m" using daysInMonth_bounds(1) [OF b(1,2), of y] assms by simp
  have next_date: "dateOf (goDate y (m + 1) day) = (if m = 12 then (y + 1, 1, day) else (y, m + 1, day))"
  proof (cases "m = 12")
    case True
    have "goDate y (m + 1) day = goDate (y + 1) 1 day"
      using goDate_index [of y "m + 1" day] goDate_index [of "y + 1" 1 day] True by (simp add: add.commute)
    then show ?thesis
      using True assms daysInMonth_bounds(1) [of 1 "y + 1"] by (simp add: dateOf_goDate)
  next
    case False
    then show ?thesis using b assms daysInMonth_bounds(1) [of "m + 1" y] by (simp add: dateOf_goDate)
  qed
  have bound: "now < goDate 0 j day \<Longrightarrow> ?k \<le> j" for j
  proof (rule ccontr)
    assume j: "now < goDate 0 j day" "\<not> ?k \<le> j"
    have "goDate 0 j day + 28 * Day \<le> goDate 0 (j + 1) day" by (rule goDate_index_step)
    also have "\<dots> \<le> goDate 0 ?k day" using j(2) by (intro goDate_index_mono) simp
    also have "\<dots> = goDate y m 1 + (day - 1) * Day" using goDate_day [of y m day] goDate_index [of y m day] by simp
    also have "\<dots> \<le> now + 27 * Day" using b(5) assms(2) by simp
    finally show False using j(1) by simp
  qed
  have mono: "goDate 0 i day \<le> goDate y' m' day" if "i \<le> 12 * y' + m'" for i y' m'
    using goDate_index_mono [OF that, of day] goDate_index [of y' m' day] by simp
  from fallbackReset_cases [OF now assms(1)] assms(2)
  consider "now < goDate y m day" "fallbackReset now day = goDate y m day"
    | "goDate y m day \<le> now" "fallbackReset now day = goDate y (m + 1) day" by auto
  then show ?thesis
  proof cases
    case 1
    have "fallbackReset now day \<le> goDate y' m' day" if "now < goDate y' m' day" for y' m'
      using mono [OF bound, of y' m'] that 1 goDate_index [of y' m' day] goDate_index [of y m day] by simp
    then show ?thesis using 1 dateOf_goDate [OF b(1,2) assms(1) le] by simp
  next
    case 2
    have "fallbackReset now day \<le> goDate y' m' day" if n: "now < goDate y' m' day" for y' m'
    proof -
      have "?k \<le> 12 * y' + m'" using bound n goDate_index [of y' m' day] by simp
      moreover have "12 * y' + m' \<noteq> ?k"
        using n 2(1) goDate_index [of y' m' day] goDate_index [of y m day] by auto
      ultimately have "?k + 1 \<le> 12 * y' + m'" by simp
      then show ?thesis using mono [of "?k + 1" y' m'] goDate_index [of y "m + 1" day] 2(2) by (simp add: add.assoc)
    qed
    then show ?thesis using 2 next_date by simp
  qed
qed

theorem fallbackReset_next_occurrence_witness:
  "\<not> goDate 2026 3 15 < fallbackReset (goDate 2026 2 20) 15"
proof -
  have "goDate 2026 2 20 < goDate 2026 3 15" by code_simp
  then have "fallbackReset (goDate 2026 2 20) 15 \<le> goDate 2026 3 15"
    using conjunct2 [OF conjunct2 [OF fallbackReset_next_occurrence [of 15 "goDate 2026 2 20"]]] by simp
  then show ?thesis by simp
qed

text \<open>
  With a reset day that the current month does not have, the fallback is not an occurrence of that
  day: on 10 February 2026 with \<open>CREDIT_RESET_DAY=31\<close> the key stays out until 3 March, while the
  comment promises the next occurrence of day 31.
\<close>

theorem fallbackReset_short_month:
  "fallbackReset (goDate 2026 2 10) 31 = goDate 2026 3 3 \<and>
   snd (snd (dateOf (fallbackReset (goDate 2026 2 10) 31))) = 3"
  by code_simp

section \<open>Disabling until the reset\<close>

definition keyAt :: "key_pool \<Rightarrow> int \<Rightarrow> bool" where
  "keyAt p i \<longleftrightarrow> pool_wf p \<and> ix_ok i (keys p)"



section \<open>Balances are int64\<close>

lemma decodeStruct_inv:
  assumes "\<And>n f v s s'. (n, f) \<in> set fs \<Longrightarrow> I s \<Longrightarrow> f v s = Some s' \<Longrightarrow> I s'"
    and "I s" and "decodeStruct fs v s = Some s'"
  shows "I s'"
proof -
  have "pred_option I (fold (decodeMember fs) ms acc)" if "pred_option I acc" for ms acc
    using that
  proof (induction ms arbitrary: acc)
    case (Cons m ms)
    have "pred_option I (decodeMember fs m acc)"
      using Cons.prems assms(1)
      by (auto simp: decodeMember_def option.pred_set find_Some_iff dest!: nth_mem split: option.splits)
    then show ?case using Cons.IH by simp
  qed simp
  then have all: "pred_option I (fold (decodeMember fs) ms (Some s))" for ms using assms(2) by simp
  show ?thesis
    using assms(2,3) all by (auto simp: decodeStruct_def split: json.splits) (metis option.pred_inject(2))
qed

lemma decodeInt64_range: "decodeInt64 v old = Some n \<Longrightarrow> in64 old \<Longrightarrow> in64 n"
  by (auto simp: decodeInt64_def dest: parseInt64_range split: json.splits)

lemma toInt64_range: "in64 (toInt64 x)"
  by (auto simp: toInt64_def in64_def Let_def split: f64.split)

lemma creditEnv_range:
  assumes "creditEnvFields v e = Some e'" and "in64 (ceRemaining e)"
  shows "in64 (ceRemaining e')"
proof -
  let ?I = "\<lambda>s. in64 (ceRemaining s)"
  have inner: "?I s'" if "?I s" "decodeStruct
         [(''remainingCredits'', \<lambda>v s. map_option (\<lambda>x. s\<lparr>ceRemaining := x\<rparr>) (decodeInt64 v (ceRemaining s))),
          (''billingPeriodEnd'', \<lambda>v s. map_option (\<lambda>x. s\<lparr>ceBillingEnd := x\<rparr>) (decodeStr v (ceBillingEnd s)))] v s = Some s'"
    for v s s'
    by (rule decodeStruct_inv [where I = ?I, OF _ that]) (auto dest: decodeInt64_range)
  show ?thesis
    by (rule decodeStruct_inv [where I = ?I, OF _ assms(2) assms(1) [unfolded creditEnvFields_def]])
      (auto dest: inner)
qed

lemma layer_range: "in64 b \<Longrightarrow> in64 (layerRemaining l b)"
  using wrap64_bounds by (auto simp: layerRemaining_def Let_def in64_def split: option.split prod.split)

lemma tavilyRemaining_range: "in64 (fst (tavilyRemaining a b c d e f))"
  using layer_range [of _ "(e, f)"] layer_range [of _ "(c, d)"] layer_range [of "-1" "(a, b)"]
  by (auto simp: tavilyRemaining_def Let_def in64_def)

lemma usageAnswer_range:
  "(\<And>body. in64 (remaining (fst (decode body)))) \<Longrightarrow> in64 (remaining (fst (usageAnswer cap decode out)))"
  by (auto simp: usageAnswer_def zeroUsage_def in64_def split: outcome.split option.split)

lemma usageCall_range:
  "(\<And>out. in64 (remaining (fst (answer out)))) \<Longrightarrow> in64 (remaining (fst (fst (usageCall net q answer sent))))"
  by (simp add: usageCall_def zeroUsage_def in64_def split: option.split)

lemma fetchLoop_range:
  assumes "\<And>sent. in64 (remaining (fst (fst (once sent))))"
  shows "in64 (remaining (fst (fetchLoop once sent left)))"
proof (induction left arbitrary: sent)
  case 0
  obtain u reason sent' where "once sent = ((u, reason), sent')" by (metis prod_cases3 prod.exhaust)
  then show ?case by (subst fetchLoop.simps) (use assms [of sent] in \<open>auto simp: zeroUsage_def in64_def\<close>)
next
  case (Suc left)
  obtain u reason sent' where "once sent = ((u, reason), sent')" by (metis prod_cases3 prod.exhaust)
  then show ?case by (subst fetchLoop.simps) (use assms [of sent] Suc in \<open>auto simp: zeroUsage_def in64_def\<close>)
qed

lemma usageOf_range: "in64 (remaining (fst (usageOf body)))"
  using creditEnv_range [of _ "\<lparr>ceSuccess = False, ceRemaining = 0, ceBillingEnd = []\<rparr>"]
  by (auto simp: usageOf_def unmarshal_def zeroUsage_def in64_def split: option.split)

lemma tavilyUsageOf_range: "in64 (remaining (fst (tavilyUsageOf body)))"
  using tavilyRemaining_range
  by (auto simp: tavilyUsageOf_def zeroUsage_def in64_def split: option.split prod.split) (metis fst_conv in64_def)+

lemma apifyUsageOf_range: "in64 (remaining (fst (apifyUsageOf x body)))"
  using toInt64_range by (auto simp: apifyUsageOf_def apifyCents_def Let_def zeroUsage_def in64_def split: option.split)

lemma fetched_balance_range: "in64 (remaining (fst (fetchUsageFor net p key n)))"
proof -
  have z: "in64 (remaining zeroUsage)" by (simp add: zeroUsage_def in64_def)
  show ?thesis
    unfolding fetchUsageFor_def fetchTavilyUsage_def fetchApifyUsage_def fetchUsage_def
    by (auto simp: fetchTavilyUsageOnce_def fetchApifyUsageOnce_def fetchUsageOnce_def z
        intro!: fetchLoop_range usageCall_range usageAnswer_range usageOf_range tavilyUsageOf_range apifyUsageOf_range)
qed

end
