(* ===== verification/Rewrite.thy ===== *)
theory Rewrite
  imports Go_Float Go_Url
begin

text \<open>
  rewrite.go: the rewriting of "next" pagination URLs in a JSON body, with \<open>json.Unmarshal\<close> into
  \<open>any\<close> and \<open>json.Marshal\<close>, which print numbers from \<open>float64\<close> and objects with sorted keys.
\<close>

section \<open>Values of type any\<close>

text \<open>A number is its sign and its magnitude, so that a negative zero is kept.\<close>

datatype gval =
    GNull
  | GBool bool
  | GNum bool f64
  | GStr string
  | GArr "gval list"
  | GObj "(string \<times> gval) list"

definition numberOf :: "string \<Rightarrow> gval option" where
  "numberOf l =
     (let neg = hasPrefix l ''-'' in map_option (GNum neg) (parseFloatLit (if neg then tl l else l)))"

definition putMember :: "string \<times> gval option \<Rightarrow> (string \<times> gval) list option \<Rightarrow> (string \<times> gval) list option" where
  "putMember m acc = (case (acc, snd m) of
     (Some ms, Some v) \<Rightarrow> Some (AList.update (fst m) v ms) | _ \<Rightarrow> None)"

text \<open>\<open>None\<close> is a number outside the range of \<open>float64\<close>. The last duplicate of a key wins.\<close>

fun anyOf :: "json \<Rightarrow> gval option" where
  "anyOf JNull = Some GNull"
| "anyOf (JBool b) = Some (GBool b)"
| "anyOf (JNum l) = numberOf l"
| "anyOf (JStr s) = Some (GStr s)"
| "anyOf (JArr xs) = map_option GArr (those (map anyOf xs))"
| "anyOf (JObj ms) = map_option GObj (fold putMember (map (\<lambda>(k, v). (k, anyOf v)) ms) (Some []))"

definition unmarshalAny :: "string \<Rightarrow> gval option" where
  "unmarshalAny body = (case parseJson body of None \<Rightarrow> None | Some v \<Rightarrow> anyOf v)"

section \<open>Printing numbers\<close>

definition ratioNum :: "int \<Rightarrow> int \<Rightarrow> int" where
  "ratioNum m e = (if 0 \<le> e then m * 2 ^ nat e else m)"

definition ratioDen :: "int \<Rightarrow> int" where
  "ratioDen e = (if 0 \<le> e then 1 else 2 ^ nat (- e))"

text \<open>The decimal point: \<open>10 ^ (k - 1) \<le> N / D < 10 ^ k\<close>, for \<open>N / D\<close> of a double.\<close>

fun decPointUp :: "nat \<Rightarrow> int \<Rightarrow> int \<Rightarrow> int" where
  "decPointUp fuel N D = (if fuel = 0 \<or> N < D then 0 else 1 + decPointUp (fuel - 1) N (10 * D))"

fun decPointDown :: "nat \<Rightarrow> int \<Rightarrow> int \<Rightarrow> int" where
  "decPointDown fuel N D = (if fuel = 0 \<or> D \<le> 10 * N then 0 else decPointDown (fuel - 1) (10 * N) D - 1)"

definition decPoint :: "int \<Rightarrow> int \<Rightarrow> int" where
  "decPoint N D = (if D \<le> N then decPointUp 400 N D else decPointDown 400 N D)"

definition scale10 :: "int \<Rightarrow> int \<Rightarrow> int \<times> int" where
  "scale10 q s = (if 0 \<le> s then (q * 10 ^ nat s, 1) else (q, 10 ^ nat (- s)))"

definition reads :: "int \<Rightarrow> int \<Rightarrow> int \<Rightarrow> int \<Rightarrow> bool" where
  "reads N D q s = (case scale10 q s of (a, b) \<Rightarrow>
     (case roundRatio a b of Finite m e \<Rightarrow> ratioNum m e * D = N * ratioDen e | _ \<Rightarrow> False))"

text \<open>The shortest digits that read back as the same double, the nearest of them.\<close>

definition digitsAt :: "int \<Rightarrow> int \<Rightarrow> int \<Rightarrow> nat \<Rightarrow> int option" where
  "digitsAt N D k n =
     (let s = k - int n;
          (a, b) = (if 0 \<le> s then (N, D * 10 ^ nat s) else (N * 10 ^ nat (- s), D));
          q = a div b; r = a mod b
      in case (reads N D q s, reads N D (q + 1) s) of
           (True, True) \<Rightarrow> Some (if 2 * r < b \<or> (2 * r = b \<and> even q) then q else q + 1)
         | (True, False) \<Rightarrow> Some q
         | (False, True) \<Rightarrow> Some (q + 1)
         | (False, False) \<Rightarrow> None)"

fun shortestFrom :: "nat \<Rightarrow> int \<Rightarrow> int \<Rightarrow> int \<Rightarrow> nat \<Rightarrow> int \<times> int" where
  "shortestFrom fuel N D k n =
     (case digitsAt N D k n of
        Some q \<Rightarrow> (q, k - int n)
      | None \<Rightarrow> if fuel = 0 then (0, 0) else shortestFrom (fuel - 1) N D k (Suc n))"

definition trimZeros :: "string \<Rightarrow> string" where
  "trimZeros ds = trimRightChar (CHR ''0'') ds"

definition expText :: "int \<Rightarrow> string" where
  "expText x = (if x < 0 then ''-'' else ''+'') @ (if \<bar>x\<bar> < 10 \<and> 0 \<le> x then ''0'' else []) @ itoa \<bar>x\<bar>"

text \<open>\<open>x < 1e-6\<close>, for \<open>x = N / D\<close>: the bound is itself a \<open>float64\<close>.\<close>

definition belowMicro :: "int \<Rightarrow> int \<Rightarrow> bool" where
  "belowMicro N D =
     (case roundRatio 1 1000000 of Finite a f \<Rightarrow> N * ratioDen f < ratioNum a f * D | _ \<Rightarrow> False)"

text \<open>\<open>floatEncoder\<close> of a magnitude: exponent form below 1e-6 and from 1e21, "e-09" cleaned to "e-9".\<close>

definition floatText :: "f64 \<Rightarrow> string" where
  "floatText x = (case x of
     Finite m e \<Rightarrow>
       if m = 0 then ''0''
       else
         let N = ratioNum m e; D = ratioDen e; k0 = decPoint N D;
             (q, s) = shortestFrom 17 N D k0 1;
             full = itoa q; k = int (length full) + s; ds = trimZeros full
         in if belowMicro N D \<or> D * 10 ^ 21 \<le> N
            then hd ds # (if tl ds = [] then [] else CHR ''.'' # tl ds) @ ''e'' @ expText (k - 1)
            else if k \<le> 0 then ''0.'' @ replicate (nat (- k)) (CHR ''0'') @ ds
            else if int (length ds) \<le> k then ds @ replicate (nat k - length ds) (CHR ''0'')
            else take (nat k) ds @ CHR ''.'' # drop (nat k) ds
   | _ \<Rightarrow> [])"

section \<open>Printing values\<close>

definition lowHex :: "nat \<Rightarrow> char" where
  "lowHex n = (if n < 10 then char_of (48 + n) else char_of (87 + n))"

definition quoteByte :: "char \<Rightarrow> string" where
  "quoteByte c =
     (let n = byteOf c in
      if c = backslash \<or> c = CHR 0x22 then [backslash, c]
      else if n = 8 then [backslash, CHR ''b'']
      else if n = 12 then [backslash, CHR ''f'']
      else if n = 10 then [backslash, CHR ''n'']
      else if n = 13 then [backslash, CHR ''r'']
      else if n = 9 then [backslash, CHR ''t'']
      else if n < 32 \<or> c \<in> set ''<>&'' then backslash # ''u00'' @ [lowHex (n div 16), lowHex (n mod 16)]
      else [c])"

text \<open>U+2028 and U+2029 are escaped; the strings of decoded values are valid UTF-8.\<close>

fun quoteBytes :: "string \<Rightarrow> string" where
  "quoteBytes (a # b # c # r) =
     (if [a, b] = [CHR 0xE2, CHR 0x80] \<and> c \<in> {CHR 0xA8, CHR 0xA9}
      then backslash # ''u202'' @ [lowHex (byteOf c - 160)] @ quoteBytes r
      else quoteByte a @ quoteBytes (b # c # r))"
| "quoteBytes s = concat (map quoteByte s)"

definition quoteStr :: "string \<Rightarrow> string" where
  "quoteStr s = [CHR 0x22] @ quoteBytes s @ [CHR 0x22]"

definition commaJoin :: "string list \<Rightarrow> string" where
  "commaJoin xs = (case xs of [] \<Rightarrow> [] | y # ys \<Rightarrow> y @ concat (map (\<lambda>s. CHR '','' # s) ys))"

fun insertMember :: "string \<times> string \<Rightarrow> (string \<times> string) list \<Rightarrow> (string \<times> string) list" where
  "insertMember e [] = [e]"
| "insertMember e (f # fs) = (if bytesLeq (fst e) (fst f) then e # f # fs else f # insertMember e fs)"

fun marshal :: "gval \<Rightarrow> string" where
  "marshal GNull = ''null''"
| "marshal (GBool b) = (if b then ''true'' else ''false'')"
| "marshal (GNum neg x) = (if neg then ''-'' else []) @ floatText x"
| "marshal (GStr s) = quoteStr s"
| "marshal (GArr xs) = ''['' @ commaJoin (map marshal xs) @ '']''"
| "marshal (GObj ms) =
     ''{'' @ commaJoin (map (\<lambda>(k, t). quoteStr k @ '':'' @ t)
       (foldr insertMember (map (\<lambda>(k, v). (k, marshal v)) ms) [])) @ ''}''"

section \<open>Rewriting\<close>

definition rewriteOne :: "string \<Rightarrow> string \<Rightarrow> string \<Rightarrow> string option" where
  "rewriteOne s proxyBase upstreamHost =
     (case urlParse s of
        None \<Rightarrow> None
      | Some u \<Rightarrow>
          if uHost u = [] \<or> (uScheme u \<noteq> ''http'' \<and> uScheme u \<noteq> ''https'') then None
          else if uHost u \<noteq> upstreamHost then None
          else (case urlParse proxyBase of
              None \<Rightarrow> None
            | Some b \<Rightarrow>
                if uHost b = [] then None
                else Some (urlString (u\<lparr>uScheme := uScheme b, uHost := uHost b\<rparr>))))"

definition rewriteNextStr :: "string \<Rightarrow> string \<Rightarrow> string \<Rightarrow> gval \<Rightarrow> string option" where
  "rewriteNextStr proxyBase upstreamHost k v =
     (if k = ''next'' then (case v of GStr s \<Rightarrow> rewriteOne s proxyBase upstreamHost | _ \<Rightarrow> None) else None)"

text \<open>The value after the walk, and whether anything was rewritten.\<close>

fun rewriteNextInValue :: "string \<Rightarrow> string \<Rightarrow> gval \<Rightarrow> gval \<times> bool" where
  "rewriteNextInValue base host (GObj ms) =
     (let rs = map (\<lambda>(k, v).
            case rewriteNextStr base host k v of
              Some nu \<Rightarrow> ((k, GStr nu), True)
            | None \<Rightarrow> (case rewriteNextInValue base host v of (v', c) \<Rightarrow> ((k, v'), c))) ms
      in (GObj (map fst rs), list_ex snd rs))"
| "rewriteNextInValue base host (GArr xs) =
     (let rs = map (rewriteNextInValue base host) xs in (GArr (map fst rs), list_ex snd rs))"
| "rewriteNextInValue base host v = (v, False)"

definition rewriteNext :: "string \<Rightarrow> string \<Rightarrow> string \<Rightarrow> string \<times> bool" where
  "rewriteNext body proxyBase upstreamHost =
     (case unmarshalAny body of
        None \<Rightarrow> (body, False)
      | Some g \<Rightarrow>
          (case rewriteNextInValue proxyBase upstreamHost g of (g', changed) \<Rightarrow>
             if changed then (marshal g', True) else (body, False)))"

text \<open>\<open>map[string]any\<close> accepts an object, or null (the nil map).\<close>

definition paginationGuard :: "string \<Rightarrow> bool" where
  "paginationGuard body =
     (case unmarshalAny body of
        Some (GObj ms) \<Rightarrow>
          if map_of ms ''next'' \<noteq> None then False
          else (case map_of ms ''status'' of
              Some (GStr st) \<Rightarrow> st \<notin> {''completed'', ''failed'', ''cancelled'', []}
            | _ \<Rightarrow> False)
      | _ \<Rightarrow> False)"

definition formatProxyBase :: "string \<Rightarrow> string" where
  "formatProxyBase s = trimRightChar (CHR ''/'') s"

end
