(* ===== verification/Rewrite_Properties.thy ===== *)
theory Rewrite_Properties
  imports Rewrite Profile_Properties
begin

text \<open>
  What the pagination rewriting of rewrite.go changes and what it leaves alone, and where the
  rewritten URLs lead.
\<close>

section \<open>Scope\<close>

text \<open>The strings of the fields named "next", at every depth, and the value without them.\<close>

fun nextUrls :: "gval \<Rightarrow> string list" where
  "nextUrls (GObj ms) = concat (map (\<lambda>(k, v). (case v of GStr s \<Rightarrow> if k = ''next'' then [s] else [] | _ \<Rightarrow> []) @ nextUrls v) ms)"
| "nextUrls (GArr xs) = concat (map nextUrls xs)"
| "nextUrls v = []"

fun maskNext :: "gval \<Rightarrow> gval" where
  "maskNext (GObj ms) =
     GObj (map (\<lambda>(k, v). (k, if k = ''next'' \<and> (case v of GStr s \<Rightarrow> True | _ \<Rightarrow> False) then GNull else maskNext v)) ms)"
| "maskNext (GArr xs) = GArr (map maskNext xs)"
| "maskNext v = v"

definition rewritten :: "string \<Rightarrow> string \<Rightarrow> string \<Rightarrow> string" where
  "rewritten base host s = (case rewriteOne s base host of Some t \<Rightarrow> t | None \<Rightarrow> s)"

definition hasRewrite :: "string \<Rightarrow> string \<Rightarrow> gval \<Rightarrow> bool" where
  "hasRewrite base host v \<longleftrightarrow> (\<exists>s\<in>set (nextUrls v). rewriteOne s base host \<noteq> None)"

definition rewriteMember :: "string \<Rightarrow> string \<Rightarrow> string \<times> gval \<Rightarrow> (string \<times> gval) \<times> bool" where
  "rewriteMember base host m =
     (case rewriteNextStr base host (fst m) (snd m) of
        Some nu \<Rightarrow> ((fst m, GStr nu), True)
      | None \<Rightarrow> ((fst m, fst (rewriteNextInValue base host (snd m))), snd (rewriteNextInValue base host (snd m))))"

lemma rewriteNextInValue_obj:
  "rewriteNextInValue base host (GObj ms) =
     (GObj (map (fst \<circ> rewriteMember base host) ms), list_ex (snd \<circ> rewriteMember base host) ms)"
proof -
  have "(\<lambda>(k, v). case rewriteNextStr base host k v of Some nu \<Rightarrow> ((k, GStr nu), True)
      | None \<Rightarrow> (case rewriteNextInValue base host v of (v', c) \<Rightarrow> ((k, v'), c))) = rewriteMember base host"
    by (auto simp: rewriteMember_def fun_eq_iff split: option.split prod.split)
  then show ?thesis by (simp add: Let_def list_ex_iff)
qed

lemma rewriteNextInValue_arr:
  "rewriteNextInValue base host (GArr xs) =
     (GArr (map (fst \<circ> rewriteNextInValue base host) xs), list_ex (snd \<circ> rewriteNextInValue base host) xs)"
  by (simp add: Let_def list_ex_iff)

lemma rewrite_not_string:
  "rewriteNextStr base host k v = None \<Longrightarrow> (\<And>s. v \<noteq> GStr s) \<Longrightarrow> fst (rewriteNextInValue base host v) \<noteq> GStr s"
  by (cases v) (simp_all add: rewriteNextInValue_obj rewriteNextInValue_arr del: rewriteNextInValue.simps(1,2))

lemma rewrite_next_all:
  "nextUrls (fst (rewriteNextInValue base host v)) = map (rewritten base host) (nextUrls v) \<and>
   maskNext (fst (rewriteNextInValue base host v)) = maskNext v \<and>
   (snd (rewriteNextInValue base host v) \<longleftrightarrow> hasRewrite base host v)"
proof (induction v)
  case (GObj ms)
  define U where "U m = (case snd m of GStr s \<Rightarrow> if fst m = ''next'' then [s] else [] | _ \<Rightarrow> []) @ nextUrls (snd m)"
    for m :: "string \<times> gval"
  define M where "M m = (fst m, if fst m = ''next'' \<and> (case snd m of GStr s \<Rightarrow> True | _ \<Rightarrow> False) then GNull else maskNext (snd m))"
    for m :: "string \<times> gval"
  have U: "nextUrls (GObj ms') = concat (map U ms')" for ms'
    by (simp add: U_def case_prod_beta cong: map_cong)
  have M: "maskNext (GObj ms') = GObj (map M ms')" for ms'
    by (simp add: M_def case_prod_beta cong: map_cong)
  have one: "U (fst (rewriteMember base host m)) = map (rewritten base host) (U m) \<and>
      M (fst (rewriteMember base host m)) = M m \<and>
      (snd (rewriteMember base host m) \<longleftrightarrow> (\<exists>s\<in>set (U m). rewriteOne s base host \<noteq> None))"
    if m: "m \<in> set ms" for m
  proof -
    obtain k v where kv: "m = (k, v)" by (cases m)
    have IH: "nextUrls (fst (rewriteNextInValue base host v)) = map (rewritten base host) (nextUrls v)"
      "maskNext (fst (rewriteNextInValue base host v)) = maskNext v"
      "snd (rewriteNextInValue base host v) \<longleftrightarrow> hasRewrite base host v"
      using GObj [of m v] m kv by auto
    show ?thesis
    proof (cases "\<exists>s. v = GStr s")
      case True
      then show ?thesis
        by (auto simp: kv rewriteMember_def rewriteNextStr_def U_def M_def rewritten_def split: option.split)
    next
      case False
      have n: "rewriteNextStr base host k v = None" using False by (cases v) (auto simp: rewriteNextStr_def)
      define v' where "v' = fst (rewriteNextInValue base host v)"
      have "v' \<noteq> GStr s" for s using rewrite_not_string [OF n] False by (auto simp: v'_def)
      then show ?thesis
        using IH n False
        by (cases v; cases v') (auto simp: kv rewriteMember_def U_def M_def v'_def [symmetric] hasRewrite_def)
    qed
  qed
  have "map (U \<circ> (fst \<circ> rewriteMember base host)) ms = map (map (rewritten base host) \<circ> U) ms"
    "map (M \<circ> (fst \<circ> rewriteMember base host)) ms = map M ms"
    using one by simp_all
  then show ?case
    unfolding rewriteNextInValue_obj fst_conv snd_conv U M hasRewrite_def
    using one by (simp add: map_concat list_ex_iff comp_def cong: map_cong)
next
  case (GArr xs)
  then show ?case
    unfolding rewriteNextInValue_arr fst_conv snd_conv
    by (auto simp: hasRewrite_def list_ex_iff map_concat comp_def cong: map_cong)
qed (simp_all add: hasRewrite_def)

text \<open>
  C35: The rewriting touches exactly the strings of fields named "next", wherever they are nested: each
  of them becomes its rewriting, everything else in the document, scraped text that quotes the
  upstream's host included, is kept, and "changed" is reported exactly when some "next" was rewritten.
\<close>

theorem rewrite_scope:
  "nextUrls (fst (rewriteNextInValue base host v)) = map (rewritten base host) (nextUrls v) \<and>
   maskNext (fst (rewriteNextInValue base host v)) = maskNext v \<and>
   (snd (rewriteNextInValue base host v) \<longleftrightarrow> hasRewrite base host v)"
  by (rule rewrite_next_all)

section \<open>Rewritten URLs\<close>

lemma setPath_fields:
  "setPath p u = Some u' \<Longrightarrow> uHost u' = uHost u \<and> uOpaque u' = uOpaque u \<and> uScheme u' = uScheme u"
  by (auto simp: setPath_def split: option.splits)

lemma parseRest_opaque:
  "parseRest rest u = Some u' \<Longrightarrow> uOpaque u = [] \<Longrightarrow> uHost u = [] \<Longrightarrow> uHost u' = [] \<or> uOpaque u' = []"
  by (auto simp: parseRest_def Let_def split: if_splits option.splits dest!: setPath_fields)

lemma urlParse_opaque: "urlParse s = Some u \<Longrightarrow> uHost u \<noteq> [] \<Longrightarrow> uOpaque u = []"
proof -
  assume p: "urlParse s = Some u" and h: "uHost u \<noteq> []"
  obtain x where x: "parseNoFragment (fst (cutRest (CHR ''#'') s)) = Some x"
    and u: "uHost u = uHost x" "uOpaque u = uOpaque x"
    using p by (auto simp: urlParse_def setFragment_def split: prod.splits option.splits if_splits)
  show ?thesis
  proof (cases "fst (cutRest (CHR ''#'') s) = ''*''")
    case True
    then show ?thesis using x u h by (auto simp: parseNoFragment_def emptyUrl_def split: if_splits)
  next
    case False
    then obtain rest q where r: "parseRest rest q = Some x" and q: "uOpaque q = []" "uHost q = []"
      using x by (auto simp: parseNoFragment_def splitQuery_def emptyUrl_def split: if_splits option.splits prod.splits)
    then show ?thesis using parseRest_opaque [OF r q] u h by auto
  qed
qed

definition queryText :: "url \<Rightarrow> string" where
  "queryText u = (if uForceQuery u \<or> uRawQuery u \<noteq> [] then CHR ''?'' # uRawQuery u else []) @
     (if uFragment u = [] then [] else CHR ''#'' # EscapedFragment u)"

text \<open>
  C36: A rewritten "next" URL is the proxy's scheme and host followed by the upstream URL's own path,
  query and fragment, so the page it asks for is unchanged; nothing of the proxy base's path is used.
\<close>

theorem rewriteOne_keeps_page:
  assumes "urlParse s = Some u" and "uHost u = host" and "host \<noteq> []" and "uUser u = None"
    and "uScheme u = ''http'' \<or> uScheme u = ''https''" and "hasPrefix (EscapedPath u) ''/''"
    and "urlParse base = Some b" and "uHost b \<noteq> []" and "uScheme b \<noteq> []"
  shows "rewriteOne s base host =
    Some (uScheme b @ ''://'' @ escape EncHost (uHost b) @ EscapedPath u @ queryText u)"
proof -
  have o: "uOpaque u = []" using urlParse_opaque [OF assms(1)] assms(2,3) by simp
  have p: "EscapedPath u \<noteq> []" "hd (EscapedPath u) = CHR ''/''"
    using assms(6) by (auto simp: hasPrefix_iff)
  have "EscapedPath (u\<lparr>uScheme := uScheme b, uHost := uHost b\<rparr>) = EscapedPath u"
    "EscapedFragment (u\<lparr>uScheme := uScheme b, uHost := uHost b\<rparr>) = EscapedFragment u"
    by (simp_all add: EscapedPath_def EscapedFragment_def)
  then have "urlString (u\<lparr>uScheme := uScheme b, uHost := uHost b\<rparr>) =
      uScheme b @ ''://'' @ escape EncHost (uHost b) @ EscapedPath u @ queryText u"
    using assms(4,8,9) o p by (simp add: urlString_def hostPart_def Let_def queryText_def)
  then show ?thesis using assms by (auto simp: rewriteOne_def)
qed

definition crawlNext :: string where
  "crawlNext = ''https://api.firecrawl.dev/v2/crawl/1?skip=10''"

theorem rewriteOne_keeps_page_witness:
  "rewriteOne crawlNext ''http://proxy:8788/base'' ''api.firecrawl.dev'' = Some ''http://proxy:8788/v2/crawl/1?skip=10''"
proof -
  let ?u = "emptyUrl\<lparr>uScheme := ''https'', uHost := ''api.firecrawl.dev'', uPath := ''/v2/crawl/1'', uRawQuery := ''skip=10''\<rparr>"
  let ?b = "emptyUrl\<lparr>uScheme := ''http'', uHost := ''proxy:8788'', uPath := ''/base''\<rparr>"
  have u: "urlParse crawlNext = Some ?u" by code_simp
  have b: "urlParse ''http://proxy:8788/base'' = Some ?b" by code_simp
  have e: "EscapedPath ?u = ''/v2/crawl/1''" "escape EncHost ''proxy:8788'' = ''proxy:8788''" by code_simp+
  show ?thesis
    using rewriteOne_keeps_page [OF u _ _ _ _ _ b, of "''api.firecrawl.dev''"] e
    by (simp add: emptyUrl_def queryText_def)
qed

text \<open>
  Under the default configuration the rewritten pagination URL has lost the route prefix: the client
  reached firecrawl through "/firecrawl/v2/crawl/1", and the rewritten "next" is "/v2/crawl/1...", which
  no profile claims. It is served only by the legacy fallback; with \<open>FIRECRAWL_LEGACY_FALLBACK=false\<close>, as
  the README recommends after migration, every following page is a 404.
\<close>

theorem rewritten_next_needs_fallback:
  "rewriteOne crawlNext ''http://proxy:8788'' ''api.firecrawl.dev'' = Some ''http://proxy:8788/v2/crawl/1?skip=10'' \<and>
   map_option uPath (urlParse ''http://proxy:8788/v2/crawl/1?skip=10'') = Some ''/v2/crawl/1'' \<and>
   map_option snd (matchProfile (map fst (buildProfiles demoConfig)) ''/firecrawl/v2/crawl/1'' False) = Some ''/v2/crawl/1'' \<and>
   matchProfile (map fst (buildProfiles demoConfig)) ''/v2/crawl/1'' False = None"
proof -
  have "rewriteOne crawlNext ''http://proxy:8788'' ''api.firecrawl.dev'' = Some ''http://proxy:8788/v2/crawl/1?skip=10''"
    by code_simp
  moreover have "map_option uPath (urlParse ''http://proxy:8788/v2/crawl/1?skip=10'') = Some ''/v2/crawl/1''"
    by code_simp
  ultimately show ?thesis
    by (simp add: buildProfiles_def demoConfig_def firecrawlProfile_def tavilyProfile_def exaProfile_def
        financeProfile_def Let_def zeroProfile_def noFinance_def matchProfile_def)
qed

end
