(* ===== verification/Refresh.thy ===== *)
theory Refresh
  imports Credit_Usage
begin

text \<open>
  refresh.go: when a key's balance is fetched. A call that runs in its own goroutine is recorded as a
  job, the list of the keys it refreshes in order; \<open>runJob\<close> is the goroutine's body. The refresher's
  own state is the two lists of instants. \<open>None\<close> is a nil \<open>*Refresher\<close>.
\<close>

record refresher =
  rkeys :: "string list"
  lowInterval :: duration
  lastLow :: "gotime list"
  lastDaily :: "gotime list"

type_synonym job = "int list"

abbreviation lowRefreshThreshold :: int where "lowRefreshThreshold \<equiv> 100"
abbreviation apifyLowRefreshCents :: int where "apifyLowRefreshCents \<equiv> 100"
abbreviation exaLowRefreshMicro :: int where "exaLowRefreshMicro \<equiv> 1000000"
abbreviation dailyRefresh :: duration where "dailyRefresh \<equiv> 24 * Hour"

definition NewRefresher :: "Config \<Rightarrow> key_pool \<Rightarrow> refresher" where
  "NewRefresher cfg pool =
     (let n = length (Keys (Snapshot pool)) in
      \<lparr>rkeys = keys pool, lowInterval = durMul (CreditRefreshSec cfg) Second,
       lastLow = replicate n zeroTime, lastDaily = replicate n zeroTime\<rparr>)"

section \<open>One refresh\<close>

definition refreshOne :: "network \<Rightarrow> Profile \<Rightarrow> gotime \<Rightarrow> int \<Rightarrow> refresher \<times> key_pool \<times> request list \<Rightarrow> refresher \<times> key_pool \<times> request list" where
  "refreshOne net p now idx w = (case w of (r, pool, sent) \<Rightarrow>
     if idx < 0 \<or> int (length (rkeys r)) \<le> idx then (r, pool, sent)
     else (case refreshKey net p idx (rkeys r ! nat idx) (pool, sent) of (got, pool', sent') \<Rightarrow>
       if 0 \<le> got then (r\<lparr>lastDaily := (lastDaily r)[nat idx := now]\<rparr>, pool', sent') else (r, pool', sent')))"

definition runJob :: "network \<Rightarrow> Profile \<Rightarrow> gotime \<Rightarrow> job \<Rightarrow> refresher \<times> key_pool \<times> request list \<Rightarrow> refresher \<times> key_pool \<times> request list" where
  "runJob net p now idxs w = fold (refreshOne net p now) idxs w"

section \<open>On a switch of keys\<close>

definition switchJob :: "refresher \<Rightarrow> int \<Rightarrow> int \<Rightarrow> job" where
  "switchJob r fromIdx toIdx =
     (let n = int (length (rkeys r)) in
      (if 0 \<le> fromIdx \<and> fromIdx < n then [fromIdx] else []) @
      (if 0 \<le> toIdx \<and> toIdx < n \<and> toIdx \<noteq> fromIdx then [toIdx] else []))"

definition OnSwitch :: "int \<Rightarrow> int \<Rightarrow> refresher option \<Rightarrow> job option" where
  "OnSwitch fromIdx toIdx ro = (case ro of None \<Rightarrow> None | Some r \<Rightarrow> Some (switchJob r fromIdx toIdx))"

definition balanceMayHaveChanged :: "int \<Rightarrow> bool" where
  "balanceMayHaveChanged status \<longleftrightarrow> status \<in> {402, 432, 433}"

definition OnSwitchReason :: "int \<Rightarrow> int \<Rightarrow> int \<Rightarrow> refresher option \<Rightarrow> job option" where
  "OnSwitchReason fromIdx toIdx status ro = (case ro of
     None \<Rightarrow> None
   | Some r \<Rightarrow> if \<not> balanceMayHaveChanged status then None else Some (switchJob r fromIdx toIdx))"

section \<open>On a low balance\<close>

definition lowMark :: "Profile \<Rightarrow> int" where
  "lowMark p =
     (if Name p = ''apify'' then apifyLowRefreshCents
      else if Name p = ''exa'' then exaLowRefreshMicro else lowRefreshThreshold)"

text \<open>\<open>now\<close> is the clock at \<open>time.Since\<close>, \<open>now'\<close> at the assignment.\<close>

definition MaybeRefreshLow :: "Profile \<Rightarrow> int \<Rightarrow> gotime \<Rightarrow> gotime \<Rightarrow> key_pool \<Rightarrow> refresher option \<Rightarrow> refresher option \<times> job option" where
  "MaybeRefreshLow p idx now now' pool ro = (case ro of
     None \<Rightarrow> (None, None)
   | Some r \<Rightarrow>
       if idx < 0 \<or> int (length (rkeys r)) \<le> idx then (ro, None)
       else
         let predicted = sRemainingCredits (Keys (Snapshot pool) ! nat idx) in
         if predicted < 0 \<or> lowMark p \<le> predicted then (ro, None)
         else
           let lst = lastLow r ! nat idx in
           if \<not> isZero lst \<and> timeSub now lst < lowInterval r then (ro, None)
           else (Some (r\<lparr>lastLow := (lastLow r)[nat idx := now']\<rparr>), Some [idx]))"

section \<open>Daily, at startup, and on the request path\<close>

definition dailyKey :: "gotime \<Rightarrow> nat \<Rightarrow> refresher \<times> job list \<Rightarrow> refresher \<times> job list" where
  "dailyKey now i w = (case w of (r, js) \<Rightarrow>
     let lst = lastDaily r ! i in
     if \<not> isZero lst \<and> timeSub now lst < dailyRefresh then (r, js)
     else (r\<lparr>lastDaily := (lastDaily r)[i := now]\<rparr>, js @ [[int i]]))"

definition DailyRefresh :: "gotime \<Rightarrow> refresher option \<Rightarrow> refresher option \<times> job list" where
  "DailyRefresh now ro = (case ro of
     None \<Rightarrow> (None, [])
   | Some r \<Rightarrow> (case fold (dailyKey now) [0..<length (rkeys r)] (r, []) of (r', js) \<Rightarrow> (Some r', js)))"

text \<open>
  The startup pass: every key's daily instant is set, then the goroutines run; \<open>order\<close> is the order
  in which their effects on the pool happen. The result counts the keys still unmeasured.
\<close>

definition RefreshAll :: "network \<Rightarrow> Profile \<Rightarrow> gotime \<Rightarrow> nat list \<Rightarrow> refresher option \<times> key_pool \<times> request list
    \<Rightarrow> int \<times> refresher option \<times> key_pool \<times> request list" where
  "RefreshAll net p now order w = (case w of
     (None, pool, sent) \<Rightarrow> (0, None, pool, sent)
   | (Some r, pool, sent) \<Rightarrow>
       let r1 = r\<lparr>lastDaily := replicate (length (rkeys r)) now\<rparr> in
       (case fold (refreshOne net p now) (map int order) (r1, pool, sent) of (r', pool', sent') \<Rightarrow>
          (int (length (filter (\<lambda>k. sRemainingCredits k < 0) (Keys (Snapshot pool')))), Some r', pool', sent')))"

text \<open>
  On the request path. The mutex is free during the fetch: \<open>ops\<close> is what the other goroutines did to
  the pool between the snapshot and the result.
\<close>

definition EnsureMeasured :: "network \<Rightarrow> Profile \<Rightarrow> gotime \<Rightarrow> pool_op list \<Rightarrow> int
    \<Rightarrow> refresher option \<times> key_pool \<times> request list \<Rightarrow> refresher option \<times> key_pool \<times> request list" where
  "EnsureMeasured net p now ops idx w = (case w of
     (None, pool, sent) \<Rightarrow> (None, pool, sent)
   | (Some r, pool, sent) \<Rightarrow>
       if idx < 0 \<or> int (length (rkeys r)) \<le> idx then (Some r, pool, sent)
       else if 0 \<le> sRemainingCredits (Keys (Snapshot pool) ! nat idx) then (Some r, pool, sent)
       else (case refreshOne net p now idx (r, run_pool ops pool, sent) of (r', pool', sent') \<Rightarrow> (Some r', pool', sent')))"

section \<open>The background loops of main.go\<close>

text \<open>One turn of \<open>resetLoop\<close> and of \<open>dailyRefreshLoop\<close>, at a tick of their tickers.\<close>

definition resetTurn :: "gotime \<Rightarrow> key_pool \<Rightarrow> key_pool" where
  "resetTurn now pool = fst (ReenableDue now pool)"

definition dailyTurn :: "gotime \<Rightarrow> refresher option \<Rightarrow> refresher option \<times> job list" where
  "dailyTurn now ro = DailyRefresh now ro"

text \<open>
  \<open>warmupLoop\<close>: passes until every key is measured, the \<open>k\<close>-th one at \<open>now k\<close> with its goroutines in
  the order \<open>order k\<close>. The loop has no bound of its own: \<open>None\<close> is a loop that never ends.
\<close>

partial_function (option) warmupFrom :: "network \<Rightarrow> Profile \<Rightarrow> (nat \<Rightarrow> gotime) \<Rightarrow> (nat \<Rightarrow> nat list) \<Rightarrow> nat
    \<Rightarrow> refresher option \<times> key_pool \<times> request list \<Rightarrow> (nat \<times> refresher option \<times> key_pool \<times> request list) option" where
  "warmupFrom net p now order k w =
     (case RefreshAll net p (now k) (order k) w of (unmeasured, w') \<Rightarrow>
        if unmeasured = 0 then Some (Suc k, w') else warmupFrom net p now order (Suc k) w')"

definition warmupLoop :: "network \<Rightarrow> Profile \<Rightarrow> (nat \<Rightarrow> gotime) \<Rightarrow> (nat \<Rightarrow> nat list)
    \<Rightarrow> refresher option \<times> key_pool \<times> request list \<Rightarrow> (nat \<times> refresher option \<times> key_pool \<times> request list) option" where
  "warmupLoop net p now order w = warmupFrom net p now order 0 w"

end
