(* ===== verification/Go_Format.thy ===== *)
theory Go_Format
  imports Go_Client Rewrite
begin

text \<open>
  Printing as the source uses it: instants in RFC 3339 (\<open>Time.Format\<close> and \<open>Time.MarshalJSON\<close>), and
  \<open>fmt\<close>'s \<open>%v\<close> of a \<open>float64\<close>. An instant carries its zone's offset beside it, in seconds east.
\<close>

section \<open>Instants\<close>

text \<open>At least \<open>n\<close> digits.\<close>

definition padded :: "nat \<Rightarrow> int \<Rightarrow> string" where
  "padded n x = (if x < 0 then ''-'' else []) @
     (let ds = natDigits (nat \<bar>x\<bar>) in replicate (n - length ds) (CHR ''0'') @ ds)"

definition dateText :: "gotime \<Rightarrow> string" where
  "dateText t = (case dateOf t of (y, m, d) \<Rightarrow> padded 4 y @ ''-'' @ padded 2 m @ ''-'' @ padded 2 d)"

definition clockText :: "gotime \<Rightarrow> string" where
  "clockText t =
     (let c = t mod Day in
      padded 2 (c div Hour) @ '':'' @ padded 2 (c mod Hour div Minute) @ '':'' @ padded 2 (c mod Minute div Second))"

text \<open>The fraction of a second without its trailing zeros, nothing when it is zero.\<close>

definition fractionText :: "gotime \<Rightarrow> string" where
  "fractionText t = (let f = t mod Second in if f = 0 then [] else CHR ''.'' # trimZeros (padded 9 f))"

definition zoneText :: "int \<Rightarrow> string" where
  "zoneText off =
     (if off = 0 then ''Z''
      else let m = \<bar>off\<bar> div 60 in
        (if off < 0 \<and> 0 < m then ''-'' else ''+'') @ padded 2 (m div 60) @ '':'' @ padded 2 (m mod 60))"

text \<open>\<open>t.UTC().Format(time.RFC3339)\<close>.\<close>

definition formatRFC3339 :: "gotime \<Rightarrow> string" where
  "formatRFC3339 t = dateText t @ ''T'' @ clockText t @ ''Z''"

text \<open>
  \<open>t.MarshalJSON\<close>, without the quotes: RFC 3339 with nanoseconds in the instant's own zone. A year
  of more than four digits and a zone of 24 hours or more are errors.
\<close>

definition marshalTime :: "int \<Rightarrow> gotime \<Rightarrow> string option" where
  "marshalTime off t =
     (let l = t + off * Second; y = fst (dateOf l) in
      if y < 0 \<or> 9999 < y \<or> 24 \<le> \<bar>off\<bar> div 3600 then None
      else Some (dateText l @ ''T'' @ clockText l @ fractionText l @ zoneText off))"

section \<open>Floats\<close>

text \<open>The shortest digits of a positive magnitude, and where its decimal point is.\<close>

definition shortDigits :: "int \<Rightarrow> int \<Rightarrow> string \<times> int" where
  "shortDigits m e =
     (let N = ratioNum m e; D = ratioDen e; (q, s) = shortestFrom 17 N D (decPoint N D) 1; full = itoa q
      in (trimZeros full, int (length full) + s))"

text \<open>\<open>%v\<close> of a \<open>float64\<close>: exponent form below 1e-4 and from 1e6.\<close>

definition floatV :: "f64 \<Rightarrow> string" where
  "floatV x = (case x of
     NotANumber \<Rightarrow> ''NaN''
   | Infinite neg \<Rightarrow> (if neg then ''-Inf'' else ''+Inf'')
   | Finite m e \<Rightarrow>
       (if m < 0 then ''-'' else []) @
       (if m = 0 then ''0''
        else case shortDigits \<bar>m\<bar> e of (ds, k) \<Rightarrow>
          if k - 1 < -4 \<or> 6 \<le> k - 1
          then hd ds # (if tl ds = [] then [] else CHR ''.'' # tl ds) @
            ''e'' @ (if k - 1 < 0 then ''-'' else ''+'') @ padded 2 \<bar>k - 1\<bar>
          else if k \<le> 0 then ''0.'' @ replicate (nat (- k)) (CHR ''0'') @ ds
          else if int (length ds) \<le> k then ds @ replicate (nat k - length ds) (CHR ''0'')
          else take (nat k) ds @ CHR ''.'' # drop (nat k) ds))"

section \<open>Reading an instant back\<close>

lemma natDigits_length: "0 < k \<Longrightarrow> n < 10 ^ k \<Longrightarrow> length (natDigits n) \<le> k"
proof (induction k arbitrary: n)
  case (Suc k)
  show ?case
  proof (cases "n < 10")
    case True
    then show ?thesis by (simp add: natDigits.simps)
  next
    case False
    then have "k \<noteq> 0" using Suc.prems(2) by (cases k) auto
    then have "length (natDigits (n div 10)) \<le> k" using Suc.prems(2) by (intro Suc.IH) auto
    then show ?thesis using False by (subst natDigits.simps) simp
  qed
qed simp

lemma padded_length: "0 < k \<Longrightarrow> 0 \<le> x \<Longrightarrow> x < 10 ^ k \<Longrightarrow> length (padded k x) = k"
  using natDigits_length [of k "nat x"] by (simp add: padded_def Let_def nat_less_iff)

lemma padded_digits: "0 \<le> x \<Longrightarrow> list_all isDigit (padded k x)"
  using natDigits_digits [of _ "nat x"] by (auto simp: padded_def list_all_iff isDigit_def Let_def)

definition decimal :: "string \<Rightarrow> int" where
  "decimal ds = foldl (\<lambda>v c. 10 * v + digitVal c) 0 ds"

lemma decimal_foldl: "list_all isDigit ds \<Longrightarrow> digitsVal a ds = Some (foldl (\<lambda>v c. 10 * v + digitVal c) a ds)"
  by (induction ds arbitrary: a) simp_all

lemma foldl_zeros: "foldl (\<lambda>v c. 10 * v + digitVal c) 0 (replicate k (CHR ''0'') @ ds) = foldl (\<lambda>v c. 10 * v + digitVal c) 0 ds"
  by (induction k) (simp_all add: digitVal_def)

lemma decimal_padded: "0 \<le> x \<Longrightarrow> decimal (padded k x) = x"
proof -
  assume x: "0 \<le> x"
  have "list_all isDigit (natDigits (nat x))" using natDigits_digits [of _ "nat x"] by (auto simp: list_all_iff)
  from decimal_foldl [OF this, of 0] digitsVal_natDigits [of "nat x"] x show ?thesis
    by (simp add: decimal_def padded_def Let_def foldl_zeros del: foldl_append)
qed

text \<open>A number printed at a width is read at that width.\<close>

lemma digitsN_padded:
  assumes "0 < k" "0 \<le> x" "x < 10 ^ k"
  shows "digitsN k (padded k x @ s) = Some (x, s)"
  using padded_length [OF assms] padded_digits [OF assms(2), of k] decimal_padded [OF assms(2), of k]
  by (simp add: digitsN_def decimal_def)

lemma foldl_decimal: "foldl (\<lambda>v c. 10 * v + digitVal c) x b = x * 10 ^ length b + decimal b"
proof (induction b rule: rev_induct)
  case (snoc c b)
  then show ?case by (simp add: decimal_def algebra_simps)
qed (simp add: decimal_def)

lemma decimal_append: "decimal (a @ b) = decimal a * 10 ^ length b + decimal b"
  using foldl_decimal [of "decimal a" b] by (simp add: decimal_def)

lemma trimZeros_parts: "\<exists>k. ds = trimZeros ds @ replicate k (CHR ''0'')"
proof (induction ds rule: rev_induct)
  case (snoc c ds)
  then obtain k where k: "ds = trimZeros ds @ replicate k (CHR ''0'')" by blast
  show ?case
  proof (cases "c = CHR ''0''")
    case True
    then have "trimZeros (ds @ [c]) = trimZeros ds" by (simp add: trimZeros_def trimRightChar_def)
    then show ?thesis using k True by (intro exI [of _ "Suc k"]) (simp add: replicate_append_same [symmetric])
  next
    case False
    then show ?thesis by (intro exI [of _ 0]) (simp add: trimZeros_def trimRightChar_def)
  qed
qed (simp add: trimZeros_def trimRightChar_def)

lemma decimal_zeros: "decimal (replicate k (CHR ''0'')) = 0"
  using foldl_zeros [of k "[]"] by (simp add: decimal_def)

text \<open>The fraction of a second is read back exactly.\<close>

lemma fraction_text:
  assumes "s = [] \<or> \<not> isDigit (hd s) \<and> hd s \<notin> {CHR ''.'', CHR '',''}"
  shows "fraction (fractionText t @ s) = (t mod Second, s)"
proof (cases "t mod Second = 0")
  case True
  then show ?thesis using assms by (auto simp: fractionText_def fraction_def split: list.split)
next
  case False
  define f where "f = t mod Second"
  have f: "0 < f" "f < 10 ^ 9" using False pos_mod_sign [of Second t] pos_mod_bound [of Second t] by (auto simp: f_def)
  define ds where "ds = trimZeros (padded 9 f)"
  obtain k where k: "padded 9 f = ds @ replicate k (CHR ''0'')" using trimZeros_parts ds_def by blast
  have len: "length ds + k = 9" using padded_length [of 9 f] f k by (metis length_append length_replicate less_imp_le zero_less_numeral)
  have dig: "list_all isDigit ds" using padded_digits [of f 9] f k by simp
  have val: "decimal ds * 10 ^ k = f" using decimal_padded [of f 9] f by (simp add: k decimal_append decimal_zeros)
  then have "ds \<noteq> []" using f by (auto simp: decimal_def)
  then obtain c r where c: "ds = c # r" by (cases ds) auto
  have tw: "takeWhile isDigit (ds @ s) = ds" "dropWhile isDigit (ds @ s) = s"
    using dig assms by (cases s; auto simp: list_all_iff)+
  have "fraction (CHR ''.'' # ds @ s) = (decimal ds * 10 ^ (9 - length ds), s)"
    using tw dig len by (simp add: fraction_def c decimal_def)
  moreover have "9 - length ds = k" using len by simp
  ultimately show ?thesis using False val by (simp add: fractionText_def f_def [symmetric] ds_def)
qed

lemma div_range:
  assumes "0 \<le> (x :: int)" "x < n * k" "0 < k"
  shows "0 \<le> x div k" "x div k < n"
proof -
  show "0 \<le> x div k" using assms by (simp add: pos_imp_zdiv_nonneg_iff)
  have "x div k * k \<le> x" using div_mult_mod_eq [of x k] pos_mod_sign [OF assms(3), of x] by linarith
  show "x div k < n"
  proof (rule ccontr)
    assume "\<not> x div k < n"
    then have "n * k \<le> x div k * k" using assms(3) by (intro mult_right_mono) simp_all
    with \<open>x div k * k \<le> x\<close> assms(2) show False by linarith
  qed
qed

lemma parseDate_text:
  assumes "0 \<le> fst (dateOf t)" and "fst (dateOf t) \<le> 9999"
  shows "parseDate (dateText t @ s) = Some ((t div Day) * Day, s)"
proof -
  obtain y m d where d: "dateOf t = (y, m, d)" by (cases "dateOf t")
  have c: "civilOfDay (t div Day + epochDays) = (y, m, d)" using d by (simp add: dateOf_def)
  note v = civilOfDay_valid [OF c]
  have "goDate y m d = (t div Day) * Day" using v(5) by (simp add: goDate_def)
  moreover have "d < 100" using v(4) daysInMonth_bounds(2) [OF v(1,2), of y] by simp
  ultimately show ?thesis
    using assms d v
    by (simp add: parseDate_def dateText_def digitsN_padded litChar_def)
qed

lemma clock_sum:
  "(c :: int) div Hour * Hour + c mod Hour div Minute * Minute + c mod Minute div Second * Second + c mod Second = c"
proof -
  have "c mod Hour mod Minute = c mod Minute" "c mod Minute mod Second = c mod Second" by (simp_all add: mod_mod_cancel)
  then have "c mod Hour = c mod Hour div Minute * Minute + c mod Minute" "c mod Minute = c mod Minute div Second * Second + c mod Second"
    by (metis div_mult_mod_eq)+
  then show ?thesis using div_mult_mod_eq [of c Hour] by linarith
qed

lemma parseClock_text:
  assumes "s = [] \<or> \<not> isDigit (hd s) \<and> hd s \<notin> {CHR ''.'', CHR '',''}"
  shows "parseClock (clockText t @ fractionText t @ s) = Some (t mod Day, s)"
proof -
  let ?c = "t mod Day"
  define hh mi sec where "hh = ?c div Hour" and "mi = ?c mod Hour div Minute" and "sec = ?c mod Minute div Second"
  have "0 \<le> hh" "hh < 24" using div_range [of ?c 24 Hour] by (auto simp: hh_def)
  moreover have "0 \<le> mi" "mi < 60" using div_range [of "?c mod Hour" 60 Minute] by (auto simp: mi_def)
  moreover have "0 \<le> sec" "sec < 60" using div_range [of "?c mod Minute" 60 Second] by (auto simp: sec_def)
  moreover have "hh * Hour + mi * Minute + sec * Second + t mod Second = ?c"
  proof -
    have "Second dvd (Day :: int)" by simp
    then have "?c mod Second = t mod Second" by (rule mod_mod_cancel)
    then show ?thesis using clock_sum [of ?c] by (simp only: hh_def mi_def sec_def)
  qed
  moreover have "clockText t = padded 2 hh @ '':'' @ padded 2 mi @ '':'' @ padded 2 sec"
    by (simp only: clockText_def Let_def hh_def mi_def sec_def)
  ultimately show ?thesis
    by (simp add: parseClock_def digitsHour_def digitsN_padded litChar_def fraction_text [OF assms])
qed

lemma zone_text:
  assumes "off mod 60 = 0" and "\<bar>off\<bar> div 3600 < 24"
  shows "zone (zoneText off) = Some (off, [])"
proof (cases "off = 0")
  case False
  define m where "m = \<bar>off\<bar> div 60"
  have a: "\<bar>off\<bar> = 60 * m" using assms(1) by (auto simp: m_def abs_if)
  then have m: "0 < m" "m div 60 < 24" using False assms(2) by auto
  have e: "m div 60 * 3600 + m mod 60 * 60 = 60 * m" using div_mult_mod_eq [of m 60] by linarith
  have "0 \<le> m div 60" "0 \<le> m mod 60" "m mod 60 < 60" using m by (simp_all add: div_int_pos_iff)
  then show ?thesis
    using False m a e
    by (auto simp: zoneText_def zone_def m_def [symmetric] digitsN_padded [of 2 _ "[]", simplified] digitsN_padded litChar_def Let_def)
qed (simp add: zoneText_def zone_def)

text \<open>A marshalled instant in a zone of whole minutes is the same instant when it is parsed.\<close>

lemma parse_marshalTime:
  assumes "marshalTime off t = Some s" and "off mod 60 = 0"
  shows "parseRFC3339 s = Some t"
proof -
  let ?l = "t + off * Second"
  have y: "0 \<le> fst (dateOf ?l)" "fst (dateOf ?l) \<le> 9999" and off: "\<bar>off\<bar> div 3600 < 24"
    and s: "s = dateText ?l @ ''T'' @ clockText ?l @ fractionText ?l @ zoneText off"
    using assms(1) by (auto simp: marshalTime_def Let_def split: if_splits)
  have z: "zoneText off = [] \<or> \<not> isDigit (hd (zoneText off)) \<and> hd (zoneText off) \<notin> {CHR ''.'', CHR '',''}"
    by (auto simp: zoneText_def isDigit_def Let_def)
  have "(?l div Day) * Day + ?l mod Day - off * Second = t" using div_mult_mod_eq [of ?l Day] by simp
  then show ?thesis
    using zone_text [OF assms(2) off] parseClock_text [OF z, of ?l] parseDate_text [OF y]
    by (simp add: parseRFC3339_def s litChar_def)
qed

end
