(* ===== verification/Logger.thy ===== *)
theory Logger
  imports Key_Pool Go_Format
begin

text \<open>
  The logger of server.go: one line per entry on stderr. An entry is its level, its message and the
  alternating list of keys and values; the line adds the time. The text \<open>fmt\<close> gives to an instant
  inside a snapshot (its zone and monotonic reading) is a parameter.
\<close>

section \<open>Values\<close>

datatype logval =
    LText string
  | LInt int
  | LBool bool
  | LFloat f64
  | LKeys "keySnapshot list"

definition boolText :: "bool \<Rightarrow> string" where
  "boolText b = (if b then ''true'' else ''false'')"

definition spaced :: "string list \<Rightarrow> string" where
  "spaced xs = (case xs of [] \<Rightarrow> [] | y # ys \<Rightarrow> y @ concat (map (\<lambda>s. CHR '' '' # s) ys))"

text \<open>\<open>%v\<close> of a struct: its fields in braces, separated by spaces; of a slice: brackets.\<close>

definition statText :: "keyStat \<Rightarrow> string" where
  "statText s = ''{'' @ spaced (map itoa [Success s, Exhausted s, RateLimited s, Auth s, Retries s]) @ ''}''"

definition snapshotText :: "(gotime \<Rightarrow> string) \<Rightarrow> keySnapshot \<Rightarrow> string" where
  "snapshotText timeText k = ''{'' @ spaced [itoa (sIndex k), sLast4 k, statText (sStats k), boolText (sDisabled k),
     timeText (sDisabledUntil k), itoa (sRemainingCredits k)] @ ''}''"

fun valueText :: "(gotime \<Rightarrow> string) \<Rightarrow> logval \<Rightarrow> string" where
  "valueText timeText (LText s) = s"
| "valueText timeText (LInt n) = itoa n"
| "valueText timeText (LBool b) = boolText b"
| "valueText timeText (LFloat x) = floatV x"
| "valueText timeText (LKeys ks) = ''['' @ spaced (map (snapshotText timeText) ks) @ '']''"

section \<open>The logger\<close>

record logger =
  level :: string

definition newLogger :: "string \<Rightarrow> logger" where
  "newLogger l = \<lparr>level = l\<rparr>"

record entry =
  eLevel :: string
  eMsg :: string
  eArgs :: "logval list"

text \<open>The loop over the pairs: a trailing key without a value is dropped.\<close>

fun argsText :: "(gotime \<Rightarrow> string) \<Rightarrow> logval list \<Rightarrow> string" where
  "argsText timeText (k # v # r) =
     CHR '' '' # valueText timeText k @ ''='' @ valueText timeText v @ argsText timeText r"
| "argsText timeText r = []"

definition logLine :: "(gotime \<Rightarrow> string) \<Rightarrow> gotime \<Rightarrow> entry \<Rightarrow> string" where
  "logLine timeText now e =
     ''['' @ eLevel e @ ''] '' @ formatRFC3339 now @ '' '' @ eMsg e @ argsText timeText (eArgs e) @ [CHR 0x0A]"

text \<open>The methods: the entry written, None for nothing.\<close>

definition info :: "logger \<Rightarrow> string \<Rightarrow> logval list \<Rightarrow> entry option" where
  "info l msg kv = Some \<lparr>eLevel = ''info'', eMsg = msg, eArgs = kv\<rparr>"

definition warn :: "logger \<Rightarrow> string \<Rightarrow> logval list \<Rightarrow> entry option" where
  "warn l msg kv = Some \<lparr>eLevel = ''warn'', eMsg = msg, eArgs = kv\<rparr>"

definition error :: "logger \<Rightarrow> string \<Rightarrow> logval list \<Rightarrow> entry option" where
  "error l msg kv = Some \<lparr>eLevel = ''error'', eMsg = msg, eArgs = kv\<rparr>"

definition debug :: "logger \<Rightarrow> string \<Rightarrow> logval list \<Rightarrow> entry option" where
  "debug l msg kv = (if level l \<noteq> ''debug'' then None else Some \<lparr>eLevel = ''debug'', eMsg = msg, eArgs = kv\<rparr>)"

text \<open>A pair whose key is a constant.\<close>

abbreviation arg :: "string \<Rightarrow> logval \<Rightarrow> logval list" where
  "arg k v \<equiv> [LText k, v]"

lemma argsText_append: "even (length xs) \<Longrightarrow> argsText f (xs @ ys) = argsText f xs @ argsText f ys"
  by (induction f xs rule: argsText.induct) auto

lemma logLine_contains: "eArgs en = xs @ [k, v] @ ys \<Longrightarrow> even (length xs) \<Longrightarrow>
    \<exists>a b. logLine f now en = a @ valueText f v @ b"
proof -
  assume "eArgs en = xs @ [k, v] @ ys" "even (length xs)"
  then have "argsText f (eArgs en) = argsText f xs @ (CHR '' '' # valueText f k @ ''='') @ valueText f v @ argsText f ys"
    using argsText_append [of xs f "[k, v] @ ys"] by simp
  then show ?thesis unfolding logLine_def by (metis append_assoc)
qed

end
