(* ===== verification/Proxy.thy ===== *)
theory Proxy
  imports Refresh Slot_Protocol Rewrite Logger "HOL-Library.State_Monad"
begin

text \<open>
  proxy.go: the handler. One request is a computation in the state monad over the world it shares with
  the other requests of its profile; between two of its steps the other goroutines may do anything
  they can do to that world. The log entries of proxy.go are part of the world; those of the usage
  fetches and of the refresher are left out.
\<close>

section \<open>The world and its environment\<close>

text \<open>
  \<open>wtick\<close> counts the steps; \<open>wcalls\<close> is the trace of all requests given to \<open>client.Do\<close> for this profile,
  those of the usage fetches included, \<open>wsent\<close> of those sent on behalf of a client (by \<open>tryKey\<close>);
  \<open>wjobs\<close> lists the refresh jobs that were started and \<open>wlog\<close> the entries written with the logger.
\<close>

record world =
  wpool :: key_pool
  wrefresh :: "refresher option"
  wtick :: nat
  wcalls :: "request list"
  wsent :: "request list"
  wjobs :: "job list"
  wlogger :: logger
  wlog :: "entry list"

text \<open>A throttle instant of the refresher written by another goroutine.\<close>

datatype stamp = LowStamp nat gotime | DailyStamp nat gotime

text \<open>
  What the program cannot choose, by step: the clock, what the other goroutines do to the pool and to
  the refresher, whether the client has gone away, what happens while the request is queued; and the
  network, by the number of the call. One call is one \<open>client.Do\<close> of the program; the requests that
  \<open>net/http\<close> itself makes inside a call to follow redirects are behind the network.
\<close>

record env =
  now_at :: "nat \<Rightarrow> gotime"
  others_at :: "nat \<Rightarrow> pool_op list"
  stamps_at :: "nat \<Rightarrow> stamp list"
  canceled_at :: "nat \<Rightarrow> bool"
  waits_at :: "nat \<Rightarrow> (pool_op list \<times> wakeup) list"
  net_of :: network

type_synonym 'a step = "(world, 'a) state"

fun putStamp :: "refresher \<Rightarrow> stamp \<Rightarrow> refresher" where
  "putStamp r (LowStamp i t) = r\<lparr>lastLow := (lastLow r)[i := t]\<rparr>"
| "putStamp r (DailyStamp i t) = r\<lparr>lastDaily := (lastDaily r)[i := t]\<rparr>"

definition settle :: "env \<Rightarrow> world \<Rightarrow> world" where
  "settle env w = w\<lparr>wpool := run_pool (others_at env (wtick w)) (wpool w),
     wrefresh := map_option (\<lambda>r. foldl putStamp r (stamps_at env (wtick w))) (wrefresh w),
     wtick := Suc (wtick w)\<rparr>"

text \<open>One critical section of the pool's mutex.\<close>

definition onPool :: "env \<Rightarrow> (gotime \<Rightarrow> key_pool \<Rightarrow> 'a \<times> key_pool) \<Rightarrow> 'a step" where
  "onPool env f = State (\<lambda>w.
     let w1 = settle env w in
     (case f (now_at env (wtick w)) (wpool w1) of (a, pool) \<Rightarrow> (a, w1\<lparr>wpool := pool\<rparr>)))"

definition updPool :: "env \<Rightarrow> (key_pool \<Rightarrow> key_pool) \<Rightarrow> unit step" where
  "updPool env f = onPool env (\<lambda>_ pool. ((), f pool))"

definition clock :: "env \<Rightarrow> gotime step" where
  "clock env = State (\<lambda>w. (now_at env (wtick w), settle env w))"

definition gone :: "env \<Rightarrow> bool step" where
  "gone env = State (\<lambda>w. (canceled_at env (wtick w), settle env w))"

definition clientDo :: "env \<Rightarrow> request \<Rightarrow> outcome step" where
  "clientDo env q = State (\<lambda>w.
     (net_of env (length (wcalls w)) q, (settle env w)\<lparr>wcalls := wcalls w @ [q], wsent := wsent w @ [q]\<rparr>))"

definition startJob :: "(refresher option \<Rightarrow> job option) \<Rightarrow> unit step" where
  "startJob f = State (\<lambda>w. ((), case f (wrefresh w) of None \<Rightarrow> w | Some j \<Rightarrow> w\<lparr>wjobs := wjobs w @ [j]\<rparr>))"

text \<open>An entry for the log; the clock in its line is the logger's.\<close>

definition say :: "(logger \<Rightarrow> entry option) \<Rightarrow> unit step" where
  "say f = State (\<lambda>w. ((), case f (wlogger w) of None \<Rightarrow> w | Some e \<Rightarrow> w\<lparr>wlog := wlog w @ [e]\<rparr>))"

text \<open>The snapshot of the keys that several entries carry.\<close>

definition keysNow :: "env \<Rightarrow> keySnapshot list step" where
  "keysNow env = onPool env (\<lambda>_ pool. (Keys (Snapshot pool), pool))"

text \<open>The three calls into the refresher and the disabling of a key, on the world.\<close>

definition ensureMeasured :: "env \<Rightarrow> Profile \<Rightarrow> int \<Rightarrow> unit step" where
  "ensureMeasured env p idx = State (\<lambda>w.
     let w1 = settle env w; k = wtick w1 in
     (case EnsureMeasured (net_of env) p (now_at env k) (others_at env k) idx (wrefresh w1, wpool w1, wcalls w1) of
        (ro, pool, sent) \<Rightarrow> ((), w1\<lparr>wrefresh := ro, wpool := pool, wcalls := sent, wtick := Suc k\<rparr>)))"

definition maybeRefreshLow :: "env \<Rightarrow> Profile \<Rightarrow> int \<Rightarrow> unit step" where
  "maybeRefreshLow env p idx = State (\<lambda>w.
     let w1 = settle env w in
     (case MaybeRefreshLow p idx (now_at env (wtick w)) (now_at env (wtick w)) (wpool w1) (wrefresh w1) of
        (ro, j) \<Rightarrow> ((), w1\<lparr>wrefresh := ro, wjobs := wjobs w1 @ (case j of None \<Rightarrow> [] | Some x \<Rightarrow> [x])\<rparr>)))"

definition disableKey :: "env \<Rightarrow> Profile \<Rightarrow> int \<Rightarrow> string \<Rightarrow> unit step" where
  "disableKey env p idx key = State (\<lambda>w.
     let w1 = settle env w in
     (case disableUntilReset (net_of env) p idx key (now_at env (wtick w)) (wpool w1, wcalls w1) of
        (pool, sent) \<Rightarrow> ((), w1\<lparr>wpool := pool, wcalls := sent\<rparr>)))"

definition waitForSlot :: "env \<Rightarrow> duration \<Rightarrow> bool step" where
  "waitForSlot env timeout = State (\<lambda>w.
     let w1 = settle env w in
     (case WaitForSlot (waits_at env (wtick w)) timeout (wpool w1) of (b, pool) \<Rightarrow> (b, w1\<lparr>wpool := pool\<rparr>)))"

section \<open>The client's request and the handler's reply\<close>

record inreq =
  iMethod :: string
  iPath :: string
  iRawQuery :: string
  iHeader :: header
  iHost :: string
  iBody :: string
  iBodyErr :: "string option"

text \<open>
  What the handler gives to the \<open>ResponseWriter\<close>: a whole reply, nothing (the client has gone away),
  or a panic.
\<close>

datatype answer = Reply int header string | Silent | Panic

definition httpError :: "string \<Rightarrow> int \<Rightarrow> answer" where
  "httpError msg code = Reply code
     [(''Content-Type'', [''text/plain; charset=utf-8'']), (''X-Content-Type-Options'', [''nosniff''])]
     (msg @ [CHR 0x0A])"

section \<open>Headers and bodies\<close>

definition isHopByHop :: "string \<Rightarrow> bool" where
  "isHopByHop k \<longleftrightarrow> k \<in> {''Connection'', ''Keep-Alive'', ''Proxy-Authenticate'', ''Proxy-Authorization'',
     ''Te'', ''Trailers'', ''Transfer-Encoding'', ''Upgrade''}"

definition addAll :: "string \<times> string list \<Rightarrow> header \<Rightarrow> header" where
  "addAll e dst = fold (\<lambda>v h. hdrAdd h (fst e) v) (snd e) dst"

definition copyHeaders :: "header \<Rightarrow> header \<Rightarrow> header" where
  "copyHeaders dst src = fold addAll src dst"

definition dropHopByHop :: "header \<Rightarrow> header" where
  "dropHopByHop h = fold (\<lambda>k h'. if isHopByHop k then hdrDel h' k else h') (map fst h) h"

text \<open>\<open>cap + 1\<close> is an \<open>int64\<close>; a limit that is not positive reads nothing.\<close>

definition readCapped :: "string \<Rightarrow> int \<Rightarrow> string \<times> bool" where
  "readCapped body cap =
     (if cap = 0 then (body, False)
      else let b = take (nat (wrap64 (cap + 1))) body in (b, cap < int (length b)))"

text \<open>\<open>WriteHeader\<close> panics on a status that does not have three digits.\<close>

definition writeRawResponse :: "int \<Rightarrow> header \<Rightarrow> string \<Rightarrow> answer" where
  "writeRawResponse status h body =
     (if status < 100 \<or> 999 < status then Panic
      else Reply status
        (hdrSet (fold addAll (filter (\<lambda>e. \<not> isHopByHop (fst e)) h) []) ''Content-Length'' (itoa (int (length body))))
        body)"

definition isJSON :: "header \<Rightarrow> bool" where
  "isJSON h \<longleftrightarrow> containsStr (toLower (hdrGet h ''Content-Type'')) ''json''"

section \<open>Costs and kinds of rejection\<close>

definition extractCreditsUsed :: "string \<Rightarrow> int" where
  "extractCreditsUsed body =
     (case unmarshal (decodeStruct [(''creditsUsed'', decodeInt64)]) 0 body of
        None \<Rightarrow> -1
      | Some n \<Rightarrow> if n = 0 then -1 else n)"

definition costOf :: "Profile \<Rightarrow> string \<Rightarrow> int" where
  "costOf p body =
     (if Name p = ''exa'' then (let micro = extractExaCostMicro body in if 0 < micro then micro else 0)
      else extractCreditsUsed body)"

definition rejectKind :: "int \<Rightarrow> string" where
  "rejectKind status =
     (if status \<in> {402, 432, 433} then ''exhausted''
      else if status = 429 then ''rate''
      else if status = 401 then ''auth''
      else ''retry'')"

section \<open>tryKey\<close>

definition backoffSchedule :: "duration list" where
  "backoffSchedule = [500 * Millisecond, 1 * Second, 2 * Second, 4 * Second, 8 * Second]"

text \<open>The three ways a provider takes its key.\<close>

definition authenticate :: "Profile \<Rightarrow> string \<Rightarrow> request \<Rightarrow> request" where
  "authenticate p key q =
     (if AuthHeader p \<noteq> [] then setHeader (AuthHeader p) key q
      else if AuthQueryParam p \<noteq> [] then
        q\<lparr>qUrl := (qUrl q)\<lparr>uRawQuery :=
            valuesEncode (valuesSet (AuthQueryParam p) key (parseQuery (uRawQuery (qUrl q))))\<rparr>\<rparr>
      else setHeader ''Authorization'' (''Bearer '' @ key) q)"

definition buildUpstream :: "Profile \<Rightarrow> string \<Rightarrow> inreq \<Rightarrow> string \<Rightarrow> request option" where
  "buildUpstream p key rq path =
     (let url = Upstream p @ path @ (if iRawQuery rq = [] then [] else ''?'' @ iRawQuery rq) in
      map_option (\<lambda>q.
          let h = hdrDel (hdrDel (copyHeaders (qHeader q) (iHeader rq)) ''Authorization'') ''Host'';
              q1 = (authenticate p key (q\<lparr>qHeader := h\<rparr>))\<lparr>qHost := UpstreamHost p\<rparr>
          in q1\<lparr>qHeader := dropHopByHop (qHeader q1)\<rparr>)
        (NewRequest (iMethod rq) url (iBody rq)))"

record tried =
  tStatus :: int
  tHeader :: header
  tBody :: string
  tCapped :: bool
  tNetErr :: bool
  tLastErr :: string

definition netFailed :: "string \<Rightarrow> tried" where
  "netFailed err = \<lparr>tStatus = 0, tHeader = [], tBody = [], tCapped = False, tNetErr = True, tLastErr = err\<rparr>"

definition sleepOrCancel :: "env \<Rightarrow> duration \<Rightarrow> bool step" where
  "sleepOrCancel env d = (if d \<le> 0 then State_Monad.return False else gone env)"

text \<open>What an attempt makes of the outcome: the result, or another attempt after a pause.\<close>

datatype verdict = Finished tried | Again string "tried"

definition retryBudget :: "Profile \<Rightarrow> int \<Rightarrow> int" where
  "retryBudget p status =
     (let budget = int (length backoffSchedule) in
      if status = 403 \<and> 0 < Max403Retries p \<and> Max403Retries p < budget then Max403Retries p else budget)"

definition judge :: "Config \<Rightarrow> Profile \<Rightarrow> nat \<Rightarrow> outcome \<Rightarrow> verdict" where
  "judge cfg p attempt out = (case out of
     Failed err \<Rightarrow>
       if attempt < length backoffSchedule then Again (''net: '' @ err) (netFailed ''canceled'')
       else Finished (netFailed (''net: '' @ err))
   | Answered r \<Rightarrow>
       (case readCapped (rBody r) (MaxBodyBytes cfg) of (b, overCap) \<Rightarrow>
          let t = \<lparr>tStatus = rStatus r, tHeader = rHeader r, tBody = b, tCapped = False, tNetErr = False, tLastErr = []\<rparr>;
              err = ''status '' @ itoa (rStatus r)
          in if overCap then Finished (t\<lparr>tCapped := True\<rparr>)
             else if shouldRetry (rStatus r) False then
               (if int attempt < retryBudget p (rStatus r)
                then Again err (t\<lparr>tNetErr := True, tLastErr := ''canceled''\<rparr>)
                else Finished (t\<lparr>tNetErr := True, tLastErr := err\<rparr>))
             else Finished t))"

text \<open>What an attempt writes to the log.\<close>

definition attemptLog :: "Config \<Rightarrow> Profile \<Rightarrow> int \<Rightarrow> nat \<Rightarrow> outcome \<Rightarrow> unit step" where
  "attemptLog cfg p idx attempt out =
     (let who = arg ''profile'' (LText (Name p)) @ arg ''key'' (LInt idx) in
      case (judge cfg p attempt out, out) of
        (Again _ _, Answered r) \<Rightarrow> say (\<lambda>l. warn l ''transient upstream status, backing off''
          (who @ arg ''status'' (LInt (rStatus r)) @ arg ''attempt'' (LInt (int attempt + 1))))
      | (Finished _, Failed err) \<Rightarrow> say (\<lambda>l. warn l ''upstream request error, giving up on key'' (who @ arg ''err'' (LText err)))
      | (Finished t, Answered r) \<Rightarrow>
          if tNetErr t then say (\<lambda>l. warn l ''transient status persisted, rotating'' (who @ arg ''status'' (LInt (rStatus r))))
          else State_Monad.return ()
      | _ \<Rightarrow> State_Monad.return ())"

text \<open>The loop, over the number of attempts left.\<close>

fun tryLoop :: "env \<Rightarrow> Config \<Rightarrow> Profile \<Rightarrow> int \<Rightarrow> string \<Rightarrow> inreq \<Rightarrow> string \<Rightarrow> nat \<Rightarrow> string \<Rightarrow> tried step" where
  "tryLoop env cfg p idx key rq path 0 lastErr = State_Monad.return (netFailed lastErr)"
| "tryLoop env cfg p idx key rq path (Suc left) lastErr =
     (let attempt = length backoffSchedule - left in
      case buildUpstream p key rq path of
        None \<Rightarrow> State_Monad.return (netFailed ''build request: '')
      | Some q \<Rightarrow> do {
          out \<leftarrow> clientDo env q;
          attemptLog cfg p idx attempt out;
          (case judge cfg p attempt out of
             Finished t \<Rightarrow> State_Monad.return t
           | Again err t \<Rightarrow> do {
               c \<leftarrow> sleepOrCancel env (backoffSchedule ! attempt);
               if c then State_Monad.return t else tryLoop env cfg p idx key rq path left err })})"

definition tryKey :: "env \<Rightarrow> Config \<Rightarrow> Profile \<Rightarrow> int \<Rightarrow> string \<Rightarrow> inreq \<Rightarrow> string \<Rightarrow> tried step" where
  "tryKey env cfg p idx key rq path = tryLoop env cfg p idx key rq path (length backoffSchedule + 1) ''no attempt''"

section \<open>serveOnce\<close>

datatype rotResultKind = resOK | resCapped | resRotate | resNetErr | resExhausted | resSaturated

record rotResult =
  rrKind :: rotResultKind
  rrIdx :: int
  rrKey :: string
  rrStatus :: int
  rrHeader :: header
  rrBody :: string
  rrLastErr :: string

definition noResult :: "rotResultKind \<Rightarrow> int \<Rightarrow> string \<Rightarrow> rotResult" where
  "noResult kind idx key = \<lparr>rrKind = kind, rrIdx = idx, rrKey = key, rrStatus = 0, rrHeader = [],
     rrBody = [], rrLastErr = []\<rparr>"

definition classify :: "Profile \<Rightarrow> int \<Rightarrow> string \<Rightarrow> tried \<Rightarrow> rotResult" where
  "classify p idx key t =
     (let res = \<lparr>rrKind = resOK, rrIdx = idx, rrKey = key, rrStatus = tStatus t, rrHeader = tHeader t,
        rrBody = tBody t, rrLastErr = []\<rparr> in
      if tCapped t then res\<lparr>rrKind := resCapped\<rparr>
      else if tNetErr t then res\<lparr>rrKind := resNetErr, rrLastErr := tLastErr t\<rparr>
      else if fst (shouldRotate p (tStatus t) (tBody t)) then res\<lparr>rrKind := resRotate\<rparr>
      else res)"

text \<open>A 429 that names the concurrency limit is announced.\<close>

definition concurrencyLog :: "Profile \<Rightarrow> int \<Rightarrow> tried \<Rightarrow> unit step" where
  "concurrencyLog p idx t =
     (case shouldRotate p (tStatus t) (tBody t) of (rot, reason) \<Rightarrow>
        if \<not> tCapped t \<and> \<not> tNetErr t \<and> rot \<and> tStatus t = 429 \<and> isConcurrency429 (tBody t)
        then say (\<lambda>l. info l ''429 concurrency limit, rotating to a free-slot key''
          (arg ''profile'' (LText (Name p)) @ arg ''key'' (LInt idx) @ arg ''reason'' (LText reason)))
        else State_Monad.return ())"

definition serveOnce :: "env \<Rightarrow> Config \<Rightarrow> Profile \<Rightarrow> inreq \<Rightarrow> string \<Rightarrow> rotResult step" where
  "serveOnce env cfg p rq path = do {
     (idx, key) \<leftarrow> onPool env Current;
     if idx < 0 then State_Monad.return (noResult resExhausted 0 [])
     else do {
       got \<leftarrow> onPool env (\<lambda>_. TryAcquire idx);
       if \<not> got then State_Monad.return (noResult resSaturated idx key)
       else do {
         ensureMeasured env p idx;
         t \<leftarrow> tryKey env cfg p idx key rq path;
         concurrencyLog p idx t;
         updPool env (Release idx);
         State_Monad.return (classify p idx key t) }}}"

section \<open>The rotation loop\<close>

definition chargeCost :: "env \<Rightarrow> Profile \<Rightarrow> rotResult \<Rightarrow> unit step" where
  "chargeCost env p res =
     (if Name p = ''fmp'' \<and> rrStatus res = 402 \<and> fmpIsRestrictedEndpoint (rrBody res)
      then State_Monad.return ()
      else let cost = costOf p (rrBody res) in
        if 0 < cost \<or> Name p \<noteq> ''exa'' then updPool env (Decrement (rrIdx res) cost) else State_Monad.return ())"

definition guardFinance :: "env \<Rightarrow> Profile \<Rightarrow> int \<Rightarrow> unit step" where
  "guardFinance env p idx =
     (if isDailyCappedFinance p \<and> 0 \<le> idx then do {
        v \<leftarrow> onPool env (\<lambda>_ pool. (PredictedRemaining idx pool, pool));
        if 0 \<le> v then do {
          s \<leftarrow> onPool env (\<lambda>_ pool. (StopThreshold pool, pool));
          if v \<le> s then onPool env (\<lambda>now pool. ((), Disable idx (now + rotateCooldown) pool))
          else State_Monad.return () }
        else State_Monad.return () }
      else State_Monad.return ())"

definition afterOK :: "env \<Rightarrow> Profile \<Rightarrow> rotResult \<Rightarrow> unit step" where
  "afterOK env p res = do {
     updPool env (RecordSuccess (rrIdx res));
     chargeCost env p res;
     guardFinance env p (rrIdx res);
     maybeRefreshLow env p (rrIdx res) }"

definition moveOn :: "env \<Rightarrow> bool \<Rightarrow> rotResult \<Rightarrow> unit step" where
  "moveOn env onlyOther res = do {
     onPool env (AdvanceAfter (rrHeader res));
     (nxt, _) \<leftarrow> onPool env Current;
     if 0 \<le> nxt \<and> (onlyOther \<longrightarrow> nxt \<noteq> rrIdx res)
     then startJob (OnSwitchReason (rrIdx res) nxt (rrStatus res)) else State_Monad.return () }"

text \<open>\<open>False\<close> is a panic of \<open>RecordRejection\<close>.\<close>

definition afterRotate :: "env \<Rightarrow> Profile \<Rightarrow> rotResult \<Rightarrow> bool step" where
  "afterRotate env p res = do {
     fine \<leftarrow> onPool env (\<lambda>_ pool. case RecordRejection (rrIdx res) (rejectKind (rrStatus res)) pool of
        None \<Rightarrow> (False, pool) | Some pool' \<Rightarrow> (True, pool'));
     if \<not> fine then State_Monad.return False
     else do {
       say (\<lambda>l. info l ''rotating key'' (arg ''profile'' (LText (Name p)) @ arg ''from'' (LInt (rrIdx res)) @
         arg ''reason'' (LText (''status '' @ itoa (rrStatus res))) @ arg ''masked'' (LText (maskKey (rrKey res)))));
       (if isCreditExhausted p (rrStatus res) (rrBody res)
        then do {
          disableKey env p (rrIdx res) (rrKey res);
          say (\<lambda>l. warn l ''key credit-disabled until reset'' (arg ''profile'' (LText (Name p)) @
            arg ''key'' (LInt (rrIdx res)) @ arg ''masked'' (LText (maskKey (rrKey res))))) }
        else State_Monad.return ());
       moveOn env True res;
       State_Monad.return True }}"

text \<open>What the access log will say of the request: the closure's \<open>accKey\<close>, \<open>accStatus\<close> and \<open>accCost\<close>.\<close>

record access =
  aKey :: int
  aStatus :: int
  aCost :: int

definition noAccess :: access where
  "noAccess = \<lparr>aKey = -1, aStatus = 0, aCost = 0\<rparr>"

record progress =
  pTries :: int
  pStatus :: int
  pHeader :: header
  pBody :: string
  pOverCap :: bool
  pClean :: bool
  pAccess :: access

datatype loopEnd = Broke progress | Returned answer

definition busyReject :: "Profile \<Rightarrow> answer" where
  "busyReject p = httpError (quoted (''{~success~:false,~error~:~all keys busy~,~profile~:~'' @ Name p @ ''~}'')) 429"

definition busyTimeout :: "Profile \<Rightarrow> answer" where
  "busyTimeout p =
     httpError (quoted (''{~success~:false,~error~:~all keys busy, queue timeout~,~profile~:~'' @ Name p @ ''~}'')) 503"

text \<open>The saturated branch: the early return, or None to go round again.\<close>

definition whenSaturated :: "env \<Rightarrow> Profile \<Rightarrow> string \<Rightarrow> gotime \<Rightarrow> answer option step" where
  "whenSaturated env p saturation deadline =
     (if saturation = ''reject'' then do {
        say (\<lambda>l. warn l ''all keys busy, rejecting'' (arg ''profile'' (LText (Name p))));
        State_Monad.return (Some (busyReject p)) }
      else do {
        now \<leftarrow> clock env;
        let left = timeSub deadline now;
        ok \<leftarrow> (if ConcurrencyQueue p \<le> 0 \<or> left \<le> 0 then State_Monad.return False else waitForSlot env left);
        if ok then State_Monad.return None
        else do {
          c \<leftarrow> gone env;
          if c then State_Monad.return (Some Silent)
          else do {
            ks \<leftarrow> keysNow env;
            say (\<lambda>l. warn l ''all keys busy, queue timeout'' (arg ''profile'' (LText (Name p)) @ arg ''keys'' (LKeys ks)));
            State_Monad.return (Some (busyTimeout p)) }}})"

text \<open>The switch on the result: the end of the loop, or None for \<open>continue\<close>.\<close>

definition dispatch :: "env \<Rightarrow> Profile \<Rightarrow> rotResult \<Rightarrow> progress \<Rightarrow> loopEnd option step" where
  "dispatch env p res s = (case rrKind res of
     resOK \<Rightarrow> do {
       afterOK env p res;
       State_Monad.return (Some (Broke (s\<lparr>pClean := True,
         pAccess := \<lparr>aKey = rrIdx res, aStatus = rrStatus res, aCost = costOf p (rrBody res)\<rparr>\<rparr>))) }
   | resCapped \<Rightarrow> do {
       say (\<lambda>l. warn l ''response body over MAX_BODY_BYTES, forwarding untouched''
         (arg ''profile'' (LText (Name p)) @ arg ''key'' (LInt (rrIdx res))));
       State_Monad.return (Some (Broke (s\<lparr>pOverCap := True, pClean := True,
         pAccess := (pAccess s)\<lparr>aKey := rrIdx res, aStatus := rrStatus res\<rparr>\<rparr>))) }
   | resNetErr \<Rightarrow> do {
       say (\<lambda>l. warn l ''transient errors exhausted on key, rotating'' (arg ''profile'' (LText (Name p)) @
         arg ''key'' (LInt (rrIdx res)) @ arg ''status'' (LInt (rrStatus res)) @ arg ''cause'' (LText (rrLastErr res))));
       moveOn env False res;
       State_Monad.return None }
   | resRotate \<Rightarrow> do { fine \<leftarrow> afterRotate env p res; State_Monad.return (if fine then None else Some (Returned Panic)) }
   | _ \<Rightarrow> do {
       ks \<leftarrow> keysNow env;
       say (\<lambda>l. warn l ''no usable keys (all below stop credit threshold)''
         (arg ''profile'' (LText (Name p)) @ arg ''keys'' (LKeys ks)));
       State_Monad.return (Some (Broke s)) })"

text \<open>
  The loop: \<open>maxRot\<close> is \<open>maxRotations\<close>. A saturated pass consumes no try, so the loop carries fuel;
  None is out of fuel.
\<close>

fun rotateLoop :: "nat \<Rightarrow> env \<Rightarrow> Config \<Rightarrow> Profile \<Rightarrow> inreq \<Rightarrow> string \<Rightarrow> string \<Rightarrow> gotime \<Rightarrow> int \<Rightarrow> progress
    \<Rightarrow> loopEnd option step" where
  "rotateLoop fuel env cfg p rq path saturation deadline maxRot s =
     (if maxRot \<le> pTries s then State_Monad.return (Some (Broke s))
      else case fuel of
        0 \<Rightarrow> State_Monad.return None
      | Suc fuel' \<Rightarrow> do {
          res \<leftarrow> serveOnce env cfg p rq path;
          if rrKind res = resSaturated then do {
            a \<leftarrow> whenSaturated env p saturation deadline;
            (case a of
               Some x \<Rightarrow> State_Monad.return (Some (Returned x))
             | None \<Rightarrow> rotateLoop fuel' env cfg p rq path saturation deadline maxRot s) }
          else do {
            let s1 = s\<lparr>pTries := pTries s + 1, pStatus := rrStatus res, pHeader := rrHeader res, pBody := rrBody res\<rparr>;
            e \<leftarrow> dispatch env p res s1;
            (case e of
               Some x \<Rightarrow> State_Monad.return (Some x)
             | None \<Rightarrow> rotateLoop fuel' env cfg p rq path saturation deadline maxRot s1) }})"

declare rotateLoop.simps [simp del]

section \<open>ServeHTTP\<close>

definition finalBody :: "Config \<Rightarrow> Profile \<Rightarrow> inreq \<Rightarrow> progress \<Rightarrow> string" where
  "finalBody cfg p rq s =
     (if RewriteNext p \<and> isJSON (pHeader s) then
        let base = (if ProxyBaseURL cfg = [] then ''http://'' @ iHost rq else ProxyBaseURL cfg);
            (rb, changed) = rewriteNext (pBody s) (formatProxyBase base) (UpstreamHost p)
        in if changed then rb else pBody s
      else pBody s)"

definition allExhausted :: "Profile \<Rightarrow> answer" where
  "allExhausted p = httpError
     (quoted (''{~success~:false,~error~:~all keys credit-exhausted until billing reset~,~profile~:~'' @ Name p @ ''~}'')) 503"

definition unreachable :: answer where
  "unreachable = httpError
     (quoted ''{~success~:false,~error~:~upstream unreachable (network/DNS/TLS or egress blocked)~}'') 502"

text \<open>A rotation that did not end with a reply to hand on.\<close>

definition endLog :: "env \<Rightarrow> Config \<Rightarrow> Profile \<Rightarrow> progress \<Rightarrow> unit step" where
  "endLog env cfg p s =
     (if pClean s then State_Monad.return ()
      else do {
        ks \<leftarrow> keysNow env;
        say (\<lambda>l. if pStatus s = 0
          then warn l ''all keys unreachable (network/DNS/TLS or egress blocked) - upstream unavailable''
            (arg ''profile'' (LText (Name p)) @ arg ''keys'' (LKeys ks) @ arg ''maxPasses'' (LInt (MaxPasses cfg)))
          else warn l ''all keys exhausted'' (arg ''profile'' (LText (Name p)) @ arg ''lastStatus'' (LInt (pStatus s)) @
            arg ''keys'' (LKeys ks) @ arg ''maxPasses'' (LInt (MaxPasses cfg)))) })"

definition guardLog :: "Profile \<Rightarrow> progress \<Rightarrow> unit step" where
  "guardLog p s =
     (if RewriteNext p \<and> isJSON (pHeader s) \<and> paginationGuard (pBody s)
      then say (\<lambda>l. warn l
        ''pagination response with more data but no 'next' key - rewrite skipped, pagination may bypass proxy'' [])
      else State_Monad.return ())"

text \<open>What follows the loop: the reply, and what the access log says of it.\<close>

definition finish :: "env \<Rightarrow> Config \<Rightarrow> Profile \<Rightarrow> inreq \<Rightarrow> progress \<Rightarrow> (answer \<times> access) step" where
  "finish env cfg p rq s = do {
     endLog env cfg p s;
     if pOverCap s then State_Monad.return (writeRawResponse (pStatus s) (pHeader s) (pBody s), pAccess s)
     else do {
       (idx, _) \<leftarrow> onPool env Current;
       if idx < 0 then do {
         ks \<leftarrow> keysNow env;
         say (\<lambda>l. warn l ''503: no usable key, all credit-exhausted'' (arg ''profile'' (LText (Name p)) @ arg ''keys'' (LKeys ks)));
         State_Monad.return (allExhausted p, (pAccess s)\<lparr>aStatus := 503\<rparr>) }
       else if \<not> pClean s \<and> pStatus s = 0 then State_Monad.return (unreachable, (pAccess s)\<lparr>aStatus := 502\<rparr>)
       else do {
         guardLog p s;
         State_Monad.return (writeRawResponse (pStatus s) (pHeader s) (finalBody cfg p rq s), pAccess s) }}}"

definition startProgress :: progress where
  "startProgress = \<lparr>pTries = 0, pStatus = 0, pHeader = [], pBody = [], pOverCap = False, pClean = False, pAccess = noAccess\<rparr>"

text \<open>
  The deferred line of the access log. \<open>Milliseconds\<close> rounds towards zero. An early return sets only the
  status, to the one of its reply.
\<close>

definition millis :: "duration \<Rightarrow> int" where
  "millis d = (if d < 0 then - (- d div Millisecond) else d div Millisecond)"

definition accessLog :: "env \<Rightarrow> inreq \<Rightarrow> gotime \<Rightarrow> string \<Rightarrow> bool \<Rightarrow> access \<Rightarrow> unit step" where
  "accessLog env rq start profile matched acc = do {
     now \<leftarrow> clock env;
     say (\<lambda>l. info l ''req'' (arg ''profile'' (LText profile) @ arg ''matched'' (LBool matched) @
       arg ''method'' (LText (iMethod rq)) @ arg ''path'' (LText (iPath rq)) @ arg ''key'' (LInt (aKey acc)) @
       arg ''status'' (LInt (aStatus acc)) @ arg ''dur_ms'' (LInt (millis (timeSub now start))) @
       arg ''cost'' (LInt (aCost acc)))) }"

definition earlyAccess :: "answer \<Rightarrow> access" where
  "earlyAccess a = noAccess\<lparr>aStatus := (case a of Reply status _ _ \<Rightarrow> status | _ \<Rightarrow> 0)\<rparr>"

definition queueDeadline :: "env \<Rightarrow> Profile \<Rightarrow> string \<Rightarrow> gotime step" where
  "queueDeadline env p saturation =
     (if saturation = ''queue'' \<and> 0 < ConcurrencyQueue p
      then do { now \<leftarrow> clock env; State_Monad.return (now + ConcurrencyQueue p) }
      else State_Monad.return zeroTime)"

text \<open>The handler once a profile has claimed the request.\<close>

definition serveProfile :: "nat \<Rightarrow> env \<Rightarrow> Config \<Rightarrow> Profile \<Rightarrow> inreq \<Rightarrow> string \<Rightarrow> answer option step" where
  "serveProfile fuel env cfg p rq path = do {
     start \<leftarrow> clock env;
     (case iBodyErr rq of
        Some err \<Rightarrow> do {
          accessLog env rq start (Name p) True noAccess;
          State_Monad.return (Some (httpError (''read request body: '' @ err) 400)) }
      | None \<Rightarrow> do {
          n \<leftarrow> onPool env (\<lambda>_ pool. (length (keys pool), pool));
          let saturation = (if ConcurrencySaturation p = [] then ''queue'' else ConcurrencySaturation p);
          deadline \<leftarrow> queueDeadline env p saturation;
          e \<leftarrow> rotateLoop fuel env cfg p rq path saturation deadline (wrap64 (MaxPasses cfg * int n)) startProgress;
          (case e of
             None \<Rightarrow> State_Monad.return None
           | Some (Returned a) \<Rightarrow> do {
               accessLog env rq start (Name p) True (earlyAccess a);
               State_Monad.return (Some a) }
           | Some (Broke s) \<Rightarrow> do {
               (a, acc) \<leftarrow> finish env cfg p rq s;
               accessLog env rq start (Name p) True acc;
               State_Monad.return (Some a) }) }) }"

text \<open>
  The worlds of the profiles are found by their names; the access log of a request no profile claims is
  kept under the name it carries there, none.
\<close>

definition serveUnmatched :: "env \<Rightarrow> inreq \<Rightarrow> answer option step" where
  "serveUnmatched env rq = do {
     start \<leftarrow> clock env;
     accessLog env rq start ''none'' False (noAccess\<lparr>aStatus := 404\<rparr>);
     State_Monad.return (Some (httpError (quoted ''{~success~:false,~error~:~no profile configured for this path~}'') 404)) }"

definition ServeHTTP :: "nat \<Rightarrow> env \<Rightarrow> Config \<Rightarrow> Profile list \<Rightarrow> inreq
    \<Rightarrow> (string \<Rightarrow> world) \<Rightarrow> answer option \<times> (string \<Rightarrow> world)" where
  "ServeHTTP fuel env cfg profiles rq ws =
     (case matchProfile profiles (iPath rq) (FirecrawlLegacyFallback cfg) of
        None \<Rightarrow> (case run_state (serveUnmatched env rq) (ws ''none'') of (a, w) \<Rightarrow> (a, ws(''none'' := w)))
      | Some (p, path) \<Rightarrow>
          (case run_state (serveProfile fuel env cfg p rq path) (ws (Name p)) of (a, w) \<Rightarrow> (a, ws(Name p := w))))"

end
