(* ===== verification/Go_ParseFloat.thy ===== *)
theory Go_ParseFloat
  imports Go_Float
begin

text \<open>
  \<open>strconv.ParseFloat(s, 64)\<close> on any text, which the loaders of config.go call on an environment
  variable: the spellings of infinity and NaN, a sign, decimal and hexadecimal mantissas, an exponent,
  and underscores between digits. A range error is an error like a syntax error. The value is the
  nearest double, as in \<open>Go_Float\<close>.
\<close>

definition hexLetter :: "char \<Rightarrow> bool" where
  "hexLetter c \<longleftrightarrow> lowerChar c \<in> set ''abcdef''"

definition hexVal :: "char \<Rightarrow> int" where
  "hexVal c = (if isDigit c then digitVal c else int (of_char (lowerChar c) :: nat) - 87)"

definition dropSign :: "string \<Rightarrow> bool \<times> string" where
  "dropSign s = (case s of
     [] \<Rightarrow> (False, [])
   | c # r \<Rightarrow> if c = CHR ''-'' then (True, r) else if c = CHR ''+'' then (False, r) else (False, s))"

text \<open>Infinity may carry a sign, NaN may not.\<close>

definition specialFloat :: "string \<Rightarrow> f64 option" where
  "specialFloat s =
     (case dropSign s of (neg, r) \<Rightarrow>
        if toLower r = ''inf'' \<or> toLower r = ''infinity'' then Some (Infinite neg)
        else if toLower s = ''nan'' then Some NotANumber
        else None)"

text \<open>The digits before and after the point, and what the mantissa loop leaves.\<close>

fun scanMantissa :: "bool \<Rightarrow> bool \<Rightarrow> string \<Rightarrow> string \<times> string \<times> string" where
  "scanMantissa hex dot [] = ([], [], [])"
| "scanMantissa hex dot (c # s) =
     (if c = CHR ''_'' then scanMantissa hex dot s
      else if c = CHR ''.'' \<and> \<not> dot then scanMantissa hex True s
      else if isDigit c \<or> (hex \<and> hexLetter c) then
        (case scanMantissa hex dot s of (a, b, r) \<Rightarrow> if dot then (a, c # b, r) else (c # a, b, r))
      else ([], [], c # s))"

text \<open>The exponent, which a hexadecimal number must have; \<open>None\<close> when the text does not end with it.\<close>

definition readExponent :: "bool \<Rightarrow> string \<Rightarrow> int option" where
  "readExponent hex s = (case s of
     [] \<Rightarrow> if hex then None else Some 0
   | c # r \<Rightarrow>
       if lowerChar c \<noteq> (if hex then CHR ''p'' else CHR ''e'') then None
       else (case dropSign r of (neg, ds) \<Rightarrow>
         if ds = [] \<or> \<not> isDigit (hd ds) \<or> \<not> list_all (\<lambda>d. isDigit d \<or> d = CHR ''_'') ds then None
         else (let e = expNat (filter isDigit ds) in Some (if neg then - e else e))))"

text \<open>An underscore stands between digits, the base prefix counting as one.\<close>

fun underscoresBetween :: "bool \<Rightarrow> bool \<Rightarrow> bool \<Rightarrow> string \<Rightarrow> bool" where
  "underscoresBetween hex digit und [] = (\<not> und)"
| "underscoresBetween hex digit und (c # s) =
     (if isDigit c \<or> (hex \<and> hexLetter c) then underscoresBetween hex True False s
      else if c = CHR ''_'' then digit \<and> underscoresBetween hex False True s
      else \<not> und \<and> underscoresBetween hex False False s)"

definition underscoreOK :: "string \<Rightarrow> bool" where
  "underscoreOK s = (case snd (dropSign s) of
     z # x # r \<Rightarrow>
       if z = CHR ''0'' \<and> lowerChar x \<in> set ''box'' then underscoresBetween (lowerChar x = CHR ''x'') True False r
       else underscoresBetween False False False (z # x # r)
   | r \<Rightarrow> underscoresBetween False False False r)"

definition hexPrefixed :: "string \<Rightarrow> bool" where
  "hexPrefixed r \<longleftrightarrow> 2 < length r \<and> r ! 0 = CHR ''0'' \<and> lowerChar (r ! 1) = CHR ''x''"

definition hexValue :: "bool \<Rightarrow> string \<Rightarrow> int \<Rightarrow> f64" where
  "hexValue neg ds E =
     (let D = foldl (\<lambda>n c. 16 * n + hexVal c) 0 ds; s = (if neg then - 1 else 1)
      in if D = 0 then Finite 0 0 else roundScaled (s * D) E)"

definition parseFloat :: "string \<Rightarrow> f64 option" where
  "parseFloat s =
     (case specialFloat s of Some x \<Rightarrow> Some x | None \<Rightarrow>
       (case dropSign s of (neg, r) \<Rightarrow>
         let hex = hexPrefixed r in
         (case scanMantissa hex False (if hex then drop 2 r else r) of (ip, fp, rest) \<Rightarrow>
           if ip @ fp = [] \<or> (CHR ''_'' \<in> set s \<and> \<not> underscoreOK s) then None
           else (case readExponent hex rest of
               None \<Rightarrow> None
             | Some E \<Rightarrow>
                 let x = (if hex then hexValue neg (ip @ fp) (E - 4 * int (length fp))
                          else decimalValue neg (digitsNat (ip @ fp)) (E - int (length fp))
                            (length (dropWhile (\<lambda>c. c = CHR ''0'') (ip @ fp))))
                 in case x of Infinite _ \<Rightarrow> None | _ \<Rightarrow> Some x))))"

text \<open>The spellings, closed.\<close>

lemma parseFloat_examples:
  "parseFloat ''0.007'' = parseFloatLit ''0.007''"
  "parseFloat ''+.5'' = Some (Finite (2 ^ 52) (- 53))"
  "parseFloat ''5.'' = Some (Finite (5 * 2 ^ 50) (- 50))"
  "parseFloat ''0x1p-2'' = Some (Finite (2 ^ 52) (- 54))"
  "parseFloat ''1_0'' = Some (Finite (10 * 2 ^ 49) (- 49))"
  "parseFloat ''1__0'' = None" "parseFloat ''_1'' = None" "parseFloat ''0x1'' = None" "parseFloat ''1e'' = None"
  "parseFloat ''1e400'' = None" "parseFloat ''1.2.3'' = None" "parseFloat ''$1'' = None" "parseFloat [] = None"
  "parseFloat ''-Infinity'' = Some (Infinite True)" "parseFloat ''NaN'' = Some NotANumber" "parseFloat ''-nan'' = None"
  by code_simp+

end
