(* ===== verification/Config.thy ===== *)
theory Config
  imports Profile Go_ParseFloat Go_Url
begin

text \<open>
  The loaders of config.go: environment variables to a \<open>Config\<close>, or the first error. The environment is
  the function \<open>os.Getenv\<close>, empty for a variable that is not set; an error keeps the kind and the
  variable, not the wording.
\<close>

type_synonym environ = "string \<Rightarrow> string"

datatype configError =
    Missing string
  | BadUrl string
  | NotInteger string
  | NotAmount string
  | OutOfRange string
  | BadChoice string
  | BadPrefix string
  | ReservedPath string
  | AboveLimit string string

type_synonym 'a loaded = "configError + 'a"

text \<open>\<open>x, err := m; if err != nil { return err }\<close>, and a check that may return an error.\<close>

definition andThen :: "'a loaded \<Rightarrow> ('a \<Rightarrow> 'b loaded) \<Rightarrow> 'b loaded" where
  "andThen m f = (case m of Inl e \<Rightarrow> Inl e | Inr x \<Rightarrow> f x)"

definition refuseIf :: "bool \<Rightarrow> configError \<Rightarrow> 'b loaded \<Rightarrow> 'b loaded" where
  "refuseIf bad e k = (if bad then Inl e else k)"

section \<open>Single variables\<close>

definition envStr :: "environ \<Rightarrow> string \<Rightarrow> string \<Rightarrow> string" where
  "envStr env key dflt = (let v = trimSpace (env key) in if v \<noteq> [] then v else dflt)"

definition envInt :: "environ \<Rightarrow> string \<Rightarrow> int \<Rightarrow> int loaded" where
  "envInt env key dflt =
     (let v = trimSpace (env key)
      in if v = [] then Inr dflt
         else (case atoi v of None \<Rightarrow> Inl (NotInteger key) | Some n \<Rightarrow> Inr n))"

definition envInt64 :: "environ \<Rightarrow> string \<Rightarrow> int \<Rightarrow> int loaded" where
  "envInt64 env key dflt =
     (let v = trimSpace (env key)
      in if v = [] then Inr dflt
         else (case parseInt64 v of None \<Rightarrow> Inl (NotInteger key) | Some n \<Rightarrow> Inr n))"

definition parseKeys :: "string \<Rightarrow> string list" where
  "parseKeys raw = filter (\<lambda>k. k \<noteq> []) (map trimSpace (splitOn (CHR '','') raw))"

text \<open>\<open>None\<close> is \<open>set == false\<close>.\<close>

definition parseOptInt64 :: "environ \<Rightarrow> string \<Rightarrow> int option loaded" where
  "parseOptInt64 env name =
     (let v = trimSpace (env name)
      in if v = [] then Inr None
         else (case parseInt64 v of
             None \<Rightarrow> Inl (OutOfRange name)
           | Some n \<Rightarrow> if n < 0 then Inl (OutOfRange name) else Inr (Some n)))"

definition parseDailyBudget :: "environ \<Rightarrow> string \<Rightarrow> int option loaded" where
  "parseDailyBudget env name =
     andThen (parseOptInt64 env name) (\<lambda>n.
       refuseIf (case n of Some k \<Rightarrow> k < 1 | None \<Rightarrow> False) (OutOfRange name) (Inr n))"

definition envUsd :: "environ \<Rightarrow> string \<Rightarrow> f64 \<Rightarrow> f64 loaded" where
  "envUsd env key dflt =
     (let v = trimSpace (env key)
      in if v = [] then Inr dflt
         else (case parseFloat v of
             None \<Rightarrow> Inl (NotAmount key)
           | Some f \<Rightarrow> if isNeg f then Inl (NotAmount key) else Inr f))"

definition envUsdMicro :: "environ \<Rightarrow> string \<Rightarrow> int \<Rightarrow> int loaded" where
  "envUsdMicro env key dflt =
     (let v = trimSpace (env key)
      in if v = [] then Inr dflt
         else (case parseFloat v of
             None \<Rightarrow> Inl (NotAmount key)
           | Some f \<Rightarrow> if isNeg f then Inl (NotAmount key)
                       else Inr (toInt64 (mathRound (fmul f (fint 1000000))))))"

definition envUsdCents :: "environ \<Rightarrow> string \<Rightarrow> int \<Rightarrow> int loaded" where
  "envUsdCents env key dflt =
     (let v = trimSpace (env key)
      in if v = [] then Inr dflt
         else (case parseFloat v of
             None \<Rightarrow> Inl (NotAmount key)
           | Some f \<Rightarrow> if isNeg f then Inl (NotAmount key)
                       else Inr (toInt64 (mathRound (fmul f (fint 100))))))"

text \<open>The check of an upstream URL every loader makes, and its value without trailing slashes.\<close>

definition httpUrl :: "string \<Rightarrow> string \<Rightarrow> url loaded" where
  "httpUrl name upstream = (case urlParse upstream of
     None \<Rightarrow> Inl (BadUrl name)
   | Some u \<Rightarrow> if uHost u = [] \<or> (uScheme u \<noteq> ''http'' \<and> uScheme u \<noteq> ''https'') then Inl (BadUrl name) else Inr u)"

text \<open>\<open>checkRoutePrefix\<close>, and the same two tests where the loaders of tavily, apify and exa write them out.\<close>

definition checkRoutePrefix :: "string \<Rightarrow> string \<Rightarrow> unit loaded" where
  "checkRoutePrefix name prefix =
     (if \<not> hasPrefix prefix ''/'' \<or> length prefix < 2 \<or> hasSuffix prefix ''/'' then Inl (BadPrefix (name @ ''_ROUTE_PREFIX''))
      else if prefix = ''/healthz'' \<or> prefix = ''/status'' then Inl (ReservedPath (name @ ''_ROUTE_PREFIX''))
      else Inr ())"

section \<open>One provider each\<close>

definition loadTavilyConfig :: "environ \<Rightarrow> int \<Rightarrow> int \<Rightarrow> int \<Rightarrow> TavilyConfig loaded" where
  "loadTavilyConfig env sharedLow sharedStop retries403 =
     (let prefix = envStr env ''TAVILY_ROUTE_PREFIX'' ''/tavily'';
          upstream = envStr env ''TAVILY_UPSTREAM'' ''https://api.tavily.com'' in
      andThen (httpUrl ''TAVILY_UPSTREAM'' upstream) (\<lambda>_.
      andThen (checkRoutePrefix ''TAVILY'' prefix) (\<lambda>_.
      andThen (parseOptInt64 env ''TAVILY_LOW_CREDIT_THRESHOLD'') (\<lambda>lo.
      andThen (parseOptInt64 env ''TAVILY_STOP_CREDIT_THRESHOLD'') (\<lambda>st.
      let low = case_option sharedLow id lo; stop = case_option sharedStop id st in
      refuseIf (stop > low) (AboveLimit ''TAVILY_STOP_CREDIT_THRESHOLD'' ''TAVILY_LOW_CREDIT_THRESHOLD'')
      (Inr \<lparr>tvAPIKeys = parseKeys (env ''TAVILY_API_KEYS''), tvUpstream = trimRightChar (CHR ''/'') upstream,
         tvRoutePrefix = prefix, tvLowCredit = low, tvStopCredit = stop, tvRetries403 = retries403\<rparr>))))))"

definition loadApifyConfig :: "environ \<Rightarrow> ApifyConfig loaded" where
  "loadApifyConfig env =
     (let prefix = envStr env ''APIFY_ROUTE_PREFIX'' ''/apify'';
          upstream = envStr env ''APIFY_UPSTREAM'' ''https://api.apify.com'';
          timeout = trimSpace (env ''APIFY_TIMEOUT_SEC'') in
      andThen (httpUrl ''APIFY_UPSTREAM'' upstream) (\<lambda>_.
      andThen (checkRoutePrefix ''APIFY'' prefix) (\<lambda>_.
      andThen (if timeout = [] then Inr 180
               else (case atoi timeout of
                   None \<Rightarrow> Inl (OutOfRange ''APIFY_TIMEOUT_SEC'')
                 | Some n \<Rightarrow> if n < 1 then Inl (OutOfRange ''APIFY_TIMEOUT_SEC'') else Inr n)) (\<lambda>sec.
      andThen (envUsd env ''APIFY_FREE_CREDIT_USD'' (Finite 0 0)) (\<lambda>freeUsd.
      andThen (envUsdCents env ''APIFY_LOW_CREDIT_USD'' 10) (\<lambda>low.
      andThen (envUsdCents env ''APIFY_STOP_CREDIT_USD'' 5) (\<lambda>stop.
      refuseIf (stop > low) (AboveLimit ''APIFY_STOP_CREDIT_USD'' ''APIFY_LOW_CREDIT_USD'')
      (Inr \<lparr>apAPIKeys = parseKeys (env ''APIFY_API_KEYS''), apUpstream = trimRightChar (CHR ''/'') upstream,
         apRoutePrefix = prefix, apTimeoutSec = sec, apFreeCreditUsd = freeUsd,
         apLowCreditCents = low, apStopCreditCents = stop\<rparr>))))))))"

text \<open>The budget is \<open>-1\<close> when it is not set.\<close>

definition financeDailyThresholds ::
  "environ \<Rightarrow> string \<Rightarrow> string \<Rightarrow> string \<Rightarrow> int \<Rightarrow> int \<Rightarrow> (int \<times> int \<times> int) loaded" where
  "financeDailyThresholds env lowName stopName budgetName defLow defStop =
     andThen (parseDailyBudget env budgetName) (\<lambda>bu.
     andThen (parseOptInt64 env lowName) (\<lambda>lo.
     andThen (parseOptInt64 env stopName) (\<lambda>st.
     let budget = case_option (- 1) id bu; low = case_option defLow id lo; stop = case_option defStop id st in
     refuseIf (bu \<noteq> None \<and> stop > budget) (AboveLimit stopName budgetName) (
     refuseIf (stop > low) (AboveLimit stopName lowName) (
     Inr (budget, low, stop))))))"

text \<open>
  \<open>loadFMPConfig\<close>, \<open>loadAlphaVantageConfig\<close> and \<open>loadMarketauxConfig\<close> are the same code with other
  names and defaults.
\<close>

definition loadFinance ::
  "environ \<Rightarrow> string \<Rightarrow> string \<Rightarrow> string \<Rightarrow> int \<Rightarrow> int \<Rightarrow> FinanceConfig loaded" where
  "loadFinance env name defPrefix defUpstream defBudget defLow =
     (let prefix = envStr env (name @ ''_ROUTE_PREFIX'') defPrefix;
          upstream = envStr env (name @ ''_UPSTREAM'') defUpstream in
      andThen (httpUrl (name @ ''_UPSTREAM'') upstream) (\<lambda>_.
      andThen (checkRoutePrefix name prefix) (\<lambda>_.
      andThen (financeDailyThresholds env (name @ ''_LOW_CREDIT'') (name @ ''_STOP_CREDIT'') (name @ ''_DAILY_BUDGET'') defLow 1)
        (\<lambda>(budget, low, stop).
      Inr \<lparr>fnAPIKeys = parseKeys (env (name @ ''_API_KEYS'')), fnUpstream = trimRightChar (CHR ''/'') upstream,
         fnRoutePrefix = prefix, fnDailyBudget = (if 0 < budget then budget else defBudget),
         fnLowCredit = low, fnStopCredit = stop\<rparr>))))"

definition loadFMPConfig :: "environ \<Rightarrow> FinanceConfig loaded" where
  "loadFMPConfig env = loadFinance env ''FMP'' ''/fmp'' ''https://financialmodelingprep.com'' 250 10"

definition loadAlphaVantageConfig :: "environ \<Rightarrow> FinanceConfig loaded" where
  "loadAlphaVantageConfig env = loadFinance env ''ALPHAVANTAGE'' ''/alphavantage'' ''https://www.alphavantage.co'' 25 5"

definition loadMarketauxConfig :: "environ \<Rightarrow> FinanceConfig loaded" where
  "loadMarketauxConfig env = loadFinance env ''MARKETAUX'' ''/marketaux'' ''https://api.marketaux.com'' 100 10"

definition loadExaConfig :: "environ \<Rightarrow> ExaConfig loaded" where
  "loadExaConfig env =
     (let prefix = envStr env ''EXA_ROUTE_PREFIX'' ''/exa'';
          upstream = envStr env ''EXA_UPSTREAM'' ''https://api.exa.ai'' in
      andThen (httpUrl ''EXA_UPSTREAM'' upstream) (\<lambda>_.
      andThen (checkRoutePrefix ''EXA'' prefix) (\<lambda>_.
      andThen (envUsdMicro env ''EXA_BUDGET_USD'' 10000000) (\<lambda>budget.
      andThen (envUsdMicro env ''EXA_LOW_CREDIT_USD'' 500000) (\<lambda>low.
      andThen (envUsdMicro env ''EXA_STOP_CREDIT_USD'' 100000) (\<lambda>stop.
      refuseIf (stop > low) (AboveLimit ''EXA_STOP_CREDIT_USD'' ''EXA_LOW_CREDIT_USD'') (
      refuseIf (budget \<le> 0) (OutOfRange ''EXA_BUDGET_USD'')
      (Inr \<lparr>exAPIKeys = parseKeys (env ''EXA_API_KEYS''), exUpstream = trimRightChar (CHR ''/'') upstream,
         exRoutePrefix = prefix, exBudgetMicro = budget, exLowMicro = low, exStopMicro = stop\<rparr>))))))))"

section \<open>The whole configuration\<close>

definition checkProxyUrl :: "string \<Rightarrow> unit loaded" where
  "checkProxyUrl proxyStr =
     (if proxyStr = [] then Inr ()
      else (case urlParse proxyStr of
          None \<Rightarrow> Inl (BadUrl ''UPSTREAM_PROXY'')
        | Some pu \<Rightarrow>
            if uHost pu = [] then Inl (BadUrl ''UPSTREAM_PROXY'')
            else if uScheme pu \<in> {''http'', ''https'', ''socks5'', ''socks5h''} then Inr ()
            else Inl (BadChoice ''UPSTREAM_PROXY'')))"

text \<open>The firecrawl prefix is checked only when it is not empty.\<close>

definition checkFirecrawlPrefix :: "string \<Rightarrow> unit loaded" where
  "checkFirecrawlPrefix prefix = (if prefix \<noteq> [] then checkRoutePrefix ''FIRECRAWL'' prefix else Inr ())"

definition LoadConfig :: "environ \<Rightarrow> Config loaded" where
  "LoadConfig env =
     (let ks = parseKeys (env ''FIRECRAWL_API_KEYS'');
          upstream = envStr env ''UPSTREAM'' ''https://api.firecrawl.dev'';
          proxyStr = trimSpace (env ''UPSTREAM_PROXY'');
          saturation = envStr env ''FIRECRAWL_CONCURRENCY_SATURATION'' ''queue'';
          fcPrefix = envStr env ''FIRECRAWL_ROUTE_PREFIX'' ''/firecrawl'' in
      refuseIf (ks = []) (Missing ''FIRECRAWL_API_KEYS'') (
      andThen (httpUrl ''UPSTREAM'' upstream) (\<lambda>u.
      andThen (envInt env ''MAX_PASSES'' 2) (\<lambda>maxPasses.
      refuseIf (maxPasses < 1) (OutOfRange ''MAX_PASSES'') (
      andThen (envInt64 env ''MAX_BODY_BYTES'' (16 * 1024 * 1024)) (\<lambda>maxBody.
      refuseIf (maxBody < 0) (OutOfRange ''MAX_BODY_BYTES'') (
      andThen (envInt env ''CREDIT_RESET_DAY'' 1) (\<lambda>resetDay.
      refuseIf (resetDay < 1 \<or> resetDay > 31) (OutOfRange ''CREDIT_RESET_DAY'') (
      andThen (envInt64 env ''LOW_CREDIT_THRESHOLD'' 10) (\<lambda>lowCredit.
      refuseIf (lowCredit < 0) (OutOfRange ''LOW_CREDIT_THRESHOLD'') (
      andThen (envInt64 env ''STOP_CREDIT_THRESHOLD'' 2) (\<lambda>stopCredit.
      refuseIf (stopCredit < 0) (OutOfRange ''STOP_CREDIT_THRESHOLD'') (
      refuseIf (stopCredit > lowCredit) (AboveLimit ''STOP_CREDIT_THRESHOLD'' ''LOW_CREDIT_THRESHOLD'') (
      andThen (envInt env ''CREDIT_REFRESH_INTERVAL'' 300) (\<lambda>refreshSec.
      refuseIf (refreshSec < 10) (OutOfRange ''CREDIT_REFRESH_INTERVAL'') (
      andThen (checkProxyUrl proxyStr) (\<lambda>_.
      andThen (envInt env ''FIRECRAWL_403_RETRIES'' 1) (\<lambda>retries403.
      refuseIf (retries403 < 0) (OutOfRange ''FIRECRAWL_403_RETRIES'') (
      andThen (loadTavilyConfig env lowCredit stopCredit retries403) (\<lambda>tavily.
      andThen (loadApifyConfig env) (\<lambda>apify.
      andThen (loadExaConfig env) (\<lambda>exa.
      andThen (loadFMPConfig env) (\<lambda>fmp.
      andThen (loadAlphaVantageConfig env) (\<lambda>alpha.
      andThen (loadMarketauxConfig env) (\<lambda>marketaux.
      andThen (envInt env ''FIRECRAWL_MAX_CONCURRENT_PER_KEY'' 1) (\<lambda>maxConc.
      refuseIf (maxConc < 0) (OutOfRange ''FIRECRAWL_MAX_CONCURRENT_PER_KEY'') (
      refuseIf (saturation \<noteq> ''queue'' \<and> saturation \<noteq> ''reject'') (BadChoice ''FIRECRAWL_CONCURRENCY_SATURATION'') (
      andThen (envInt env ''FIRECRAWL_CONCURRENCY_QUEUE_MS'' 15000) (\<lambda>queueMs.
      refuseIf (queueMs < 0) (OutOfRange ''FIRECRAWL_CONCURRENCY_QUEUE_MS'') (
      andThen (checkFirecrawlPrefix fcPrefix) (\<lambda>_.
      Inr \<lparr>APIKeys = ks, cfgUpstream = trimRightChar (CHR ''/'') upstream, cfgUpstreamHost = uHost u,
        Port = envStr env ''PORT'' ''8788'', Host = envStr env ''HOST'' ''0.0.0.0'',
        MaxPasses = maxPasses, MaxBodyBytes = maxBody, ProxyBaseURL = trimSpace (env ''PROXY_BASE_URL''),
        UpstreamProxy = proxyStr, LogLevel = envStr env ''LOG_LEVEL'' ''info'', cfgCreditResetDay = resetDay,
        LowCreditThreshold = lowCredit, StopCreditThreshold = stopCredit, CreditRefreshSec = refreshSec,
        FirecrawlMaxConcurrentPerKey = maxConc, FirecrawlConcurrencySaturation = saturation,
        FirecrawlConcurrencyQueueMs = queueMs, Firecrawl403Retries = retries403,
        FirecrawlRoutePrefix = fcPrefix, FirecrawlLegacyFallback = (env ''FIRECRAWL_LEGACY_FALLBACK'' \<noteq> ''false''),
        Tavily = tavily, Apify = apify, Exa = exa, FMP = fmp, AlphaVantage = alpha, Marketaux = marketaux\<rparr>
      )))))))))))))))))))))))))))))))"

end
