(* ===== verification/Json_Print.thy ===== *)
theory Json_Print
  imports Rewrite
begin

text \<open>
  \<open>json.NewEncoder(w).Encode(v)\<close> for values whose members have a fixed order: HTML characters are
  escaped and a byte that is not part of valid UTF-8 is printed as the replacement character. The
  parser of Go_Json reads such a text back.
\<close>

section \<open>Strings\<close>

text \<open>One character: a byte below 128, or a whole UTF-8 sequence.\<close>

definition quoteRune :: "string \<Rightarrow> string" where
  "quoteRune r =
     (if length r = 1 then quoteByte (hd r)
      else if r = [CHR 0xE2, CHR 0x80, CHR 0xA8] then backslash # ''u2028''
      else if r = [CHR 0xE2, CHR 0x80, CHR 0xA9] then backslash # ''u2029''
      else r)"

function escapeStr :: "string \<Rightarrow> string" where
  "escapeStr s =
     (if s = [] then []
      else if runeLen s = 0 then backslash # ''ufffd'' @ escapeStr (tl s)
      else quoteRune (take (runeLen s) s) @ escapeStr (drop (runeLen s) s))"
  by auto
termination by (relation "measure length") auto

declare escapeStr.simps [simp del]

definition quoteText :: "string \<Rightarrow> string" where
  "quoteText s = CHR 0x22 # escapeStr s @ [CHR 0x22]"

section \<open>Values\<close>

fun render :: "json \<Rightarrow> string" where
  "render JNull = ''null''"
| "render (JBool b) = (if b then ''true'' else ''false'')"
| "render (JNum l) = l"
| "render (JStr s) = quoteText s"
| "render (JArr xs) = CHR ''['' # commaJoin (map render xs) @ '']''"
| "render (JObj ms) = CHR ''{'' # commaJoin (map (\<lambda>(k, v). quoteText k @ CHR '':'' # render v) ms) @ ''}''"

section \<open>Characters\<close>

text \<open>The lead byte fixes the length; the rest of a sequence is checked against it.\<close>

definition second3 :: "char \<Rightarrow> char \<Rightarrow> bool" where
  "second3 c c1 = (if byteOf c = 224 then byteIn 160 191 c1
     else if byteOf c = 237 then byteIn 128 159 c1 else contByte c1)"

definition second4 :: "char \<Rightarrow> char \<Rightarrow> bool" where
  "second4 c c1 = (if byteOf c = 240 then byteIn 144 191 c1
     else if byteOf c = 244 then byteIn 128 143 c1 else contByte c1)"

fun runeTail :: "char \<Rightarrow> string \<Rightarrow> nat" where
  "runeTail c (c1 # c2 # c3 # r) =
     (if byteIn 194 223 c then (if contByte c1 then 2 else 0)
      else if byteIn 224 239 c then (if second3 c c1 \<and> contByte c2 then 3 else 0)
      else if byteIn 240 244 c \<and> second4 c c1 \<and> contByte c2 \<and> contByte c3 then 4 else 0)"
| "runeTail c [c1, c2] =
     (if byteIn 194 223 c then (if contByte c1 then 2 else 0)
      else if byteIn 224 239 c then (if second3 c c1 \<and> contByte c2 then 3 else 0) else 0)"
| "runeTail c [c1] = (if byteIn 194 223 c then (if contByte c1 then 2 else 0) else 0)"
| "runeTail c [] = 0"

lemma runeLen_tail: "runeLen (c # r) = (if byteOf c < 128 then 1 else runeTail c r)"
  by (cases "(c, r)" rule: runeTail.cases)
    (simp_all only: runeLen_def list.case runeTail.simps second3_def [symmetric] second4_def [symmetric] prod.inject if_cancel)

lemma runeLen_Nil [simp]: "runeLen [] = 0"
  by (simp add: runeLen_def)

lemma runeTail_two: "byteIn 194 223 c \<Longrightarrow> runeTail c (c1 # t) = (if contByte c1 then 2 else 0)"
  by (cases "(c, c1 # t)" rule: runeTail.cases) simp_all

lemma runeTail_three:
  "\<not> byteIn 194 223 c \<Longrightarrow> byteIn 224 239 c \<Longrightarrow> runeTail c (c1 # c2 # t) = (if second3 c c1 \<and> contByte c2 then 3 else 0)"
  by (cases "(c, c1 # c2 # t)" rule: runeTail.cases) simp_all

text \<open>A sequence of several bytes: its length, its bytes, and that only they matter.\<close>

lemma runeTail_cases:
  assumes "runeTail c r \<noteq> 0"
  obtains (two) c1 t where "r = c1 # t" "byteIn 194 223 c" "contByte c1" "runeTail c r = 2"
  | (three) c1 c2 t where "r = c1 # c2 # t" "\<not> byteIn 194 223 c" "byteIn 224 239 c" "second3 c c1" "contByte c2" "runeTail c r = 3"
  | (four) c1 c2 c3 t where "r = c1 # c2 # c3 # t" "\<not> byteIn 194 223 c" "\<not> byteIn 224 239 c" "byteIn 240 244 c"
      "second4 c c1" "contByte c2" "contByte c3" "runeTail c r = 4"
  using assms by (cases "(c, r)" rule: runeTail.cases) (auto split: if_splits)

lemma runeTail_take: "runeTail c r \<noteq> 0 \<Longrightarrow> runeTail c (take (runeTail c r - 1) r @ t) = runeTail c r"
  by (cases rule: runeTail_cases [of c r]) (simp_all add: runeTail_two runeTail_three)

lemma runeTail_le: "runeTail c r \<noteq> 0 \<Longrightarrow> 2 \<le> runeTail c r \<and> runeTail c r \<le> Suc (length r)"
  by (cases rule: runeTail_cases [of c r]) simp_all

lemma high_bytes: "contByte c \<Longrightarrow> 128 \<le> byteOf c" "second3 a c \<Longrightarrow> 128 \<le> byteOf c" "second4 a c \<Longrightarrow> 128 \<le> byteOf c"
  "128 \<le> lo \<Longrightarrow> byteIn lo hi c \<Longrightarrow> 128 \<le> byteOf c"
  by (auto simp: contByte_def second3_def second4_def byteIn_def split: if_splits)

lemma runeTail_high:
  assumes "runeTail c r \<noteq> 0" and "x \<in> set (c # take (runeTail c r - 1) r)"
  shows "128 \<le> byteOf x"
  using assms(1)
proof (cases rule: runeTail_cases)
  case (two c1 t)
  then show ?thesis using assms(2) high_bytes(4) [of 194 223 c] high_bytes(1) [of c1] by auto
next
  case (three c1 c2 t)
  then show ?thesis
    using assms(2) high_bytes(4) [of 224 239 c] high_bytes(2) [of c c1] high_bytes(1) [of c2] by auto
next
  case (four c1 c2 c3 t)
  then show ?thesis
    using assms(2) high_bytes(4) [of 240 244 c] high_bytes(3) [of c c1] high_bytes(1) [of c2] high_bytes(1) [of c3] by auto
qed

text \<open>A character at the head of a text: one byte below 128, or several above.\<close>

lemma runeLen_cases:
  assumes "runeLen s \<noteq> 0"
  obtains (ascii) c r where "s = c # r" "byteOf c < 128" "runeLen s = 1"
  | (high) c r where "s = c # r" "128 \<le> byteOf c" "runeLen s = runeTail c r" "runeTail c r \<noteq> 0"
  using assms by (cases s) (auto simp: runeLen_tail split: if_splits)

lemma runeLen_le: "runeLen s \<le> length s"
proof (cases "runeLen s = 0")
  case False
  then show ?thesis
  proof (cases rule: runeLen_cases)
    case (high c r)
    then show ?thesis using runeTail_le [of c r] by simp
  qed simp
qed simp

lemma runeLen_ascii: "byteOf c < 128 \<Longrightarrow> runeLen (c # r) = 1"
  by (simp add: runeLen_tail)

lemma runeLen_take:
  assumes "runeLen s \<noteq> 0"
  shows "runeLen (take (runeLen s) s @ t) = runeLen s"
  using assms
proof (cases rule: runeLen_cases)
  case (high c r)
  then have "take (runeLen s) s @ t = c # (take (runeTail c r - 1) r @ t)" by (simp add: take_Cons')
  with high runeTail_take [of c r t] show ?thesis by (simp only: runeLen_tail) simp
next
  case (ascii c r)
  have "take (runeLen s) s @ t = c # t" unfolding ascii(3) by (simp add: ascii(1))
  then show ?thesis using ascii(3) runeLen_ascii [OF ascii(2), of t] by (simp only:)
qed

lemma byteOf_char_of: "n < 256 \<Longrightarrow> byteOf (char_of n) = n"
  by (simp add: byteOf_def)

lemma char_of_byteOf: "byteOf c = n \<Longrightarrow> c = char_of n"
  by (auto simp: byteOf_def)

lemma control_chars:
  "char_of (8 :: nat) = CHR 0x08" "char_of (12 :: nat) = CHR 0x0C" "char_of (10 :: nat) = CHR 0x0A"
  "char_of (13 :: nat) = CHR 0x0D" "char_of (9 :: nat) = CHR 0x09"
  by code_simp+

lemma utf8_chars:
  "char_of (226 :: nat) = CHR 0xE2" "char_of (128 :: nat) = CHR 0x80" "char_of (168 :: nat) = CHR 0xA8"
  "char_of (169 :: nat) = CHR 0xA9" "char_of (239 :: nat) = CHR 0xEF" "char_of (191 :: nat) = CHR 0xBF"
  "char_of (189 :: nat) = CHR 0xBD" "char_of (48 :: nat) = CHR ''0''"
  by code_simp+

lemma hexDigit_lowHex: "n < 16 \<Longrightarrow> hexDigit (lowHex n) = Some n"
  by (auto simp: lowHex_def hexDigit_def byteIn_def isDigit_def byteOf_char_of byteOf_def)

lemma lowHex_ascii: "n < 16 \<Longrightarrow> byteOf (lowHex n) < 128"
  by (simp add: lowHex_def byteOf_char_of)

text \<open>The three ways a single byte is printed.\<close>

lemma quoteByte_cases:
  assumes "byteOf c < 128"
  obtains (plain) "quoteByte c = [c]" "c \<noteq> CHR 0x22" "c \<noteq> backslash" "32 \<le> byteOf c"
  | (short) e where "quoteByte c = [backslash, e]" "map_of simpleEscapes e = Some c" "byteOf e < 128"
  | (hex) x y where "quoteByte c = [backslash, CHR ''u'', CHR ''0'', CHR ''0'', x, y]"
      "hexDigit x = Some (byteOf c div 16)" "hexDigit y = Some (byteOf c mod 16)" "byteOf x < 128" "byteOf y < 128"
proof -
  let ?n = "byteOf c"
  have short': thesis if "quoteByte c = [backslash, e]" "map_of simpleEscapes e = Some c" "byteOf e < 128" for e
    using short that by blast
  have q: "quoteByte c = [backslash, e]" if "c = backslash \<or> c = CHR 0x22" "e = c" for e
    using that by (simp add: quoteByte_def Let_def)
  show thesis
  proof (cases "c \<in> {backslash, CHR 0x22} \<or> ?n \<in> {8, 12, 10, 13, 9}")
    case True
    then consider "c = backslash" | "c = CHR 0x22" | "?n = 8" | "?n = 12" | "?n = 10" | "?n = 13" | "?n = 9" by blast
    then show thesis
    proof cases
      case 1
      then show ?thesis using assms by (intro short' [OF q]) (simp_all add: simpleEscapes_def backslash_def)
    next
      case 2
      then show ?thesis using assms by (intro short' [OF q]) (simp_all add: simpleEscapes_def)
    next
      case 3
      then show ?thesis by (intro short' [of "CHR ''b''"]) (use char_of_byteOf [OF 3] in \<open>simp_all add: quoteByte_def simpleEscapes_def backslash_def byteOf_def control_chars\<close>)
    next
      case 4
      then show ?thesis by (intro short' [of "CHR ''f''"]) (use char_of_byteOf [OF 4] in \<open>simp_all add: quoteByte_def simpleEscapes_def backslash_def byteOf_def control_chars\<close>)
    next
      case 5
      then show ?thesis by (intro short' [of "CHR ''n''"]) (use char_of_byteOf [OF 5] in \<open>simp_all add: quoteByte_def simpleEscapes_def backslash_def byteOf_def control_chars\<close>)
    next
      case 6
      then show ?thesis by (intro short' [of "CHR ''r''"]) (use char_of_byteOf [OF 6] in \<open>simp_all add: quoteByte_def simpleEscapes_def backslash_def byteOf_def control_chars\<close>)
    next
      case 7
      then show ?thesis by (intro short' [of "CHR ''t''"]) (use char_of_byteOf [OF 7] in \<open>simp_all add: quoteByte_def simpleEscapes_def backslash_def byteOf_def control_chars\<close>)
    qed
  next
    case False
    show thesis
    proof (cases "?n < 32 \<or> c \<in> set ''<>&''")
      case True
      then have "quoteByte c = [backslash, CHR ''u'', CHR ''0'', CHR ''0'', lowHex (?n div 16), lowHex (?n mod 16)]"
        using False by (simp add: quoteByte_def Let_def)
      moreover have "?n div 16 < 16" "?n mod 16 < 16" using assms by simp_all
      ultimately show thesis using hex hexDigit_lowHex lowHex_ascii by blast
    next
      case plain': False
      then show thesis using False plain by (auto simp: quoteByte_def Let_def)
    qed
  qed
qed

section \<open>Reading a string back\<close>

text \<open>What is printed for one character: it is valid UTF-8, scanned as a whole, and unescaped to the character.\<close>

definition readsAs :: "string \<Rightarrow> string \<Rightarrow> bool" where
  "readsAs q r \<longleftrightarrow> (\<forall>t. toValidUtf8 (q @ t) = q @ toValidUtf8 t \<and>
     scanString (q @ t) = map_option (\<lambda>(raw, rest). (q @ raw, rest)) (scanString t) \<and>
     unescape (q @ t) = r @ unescape t)"

lemma toValidUtf8_ascii_append: "\<forall>c\<in>set s. byteOf c < 128 \<Longrightarrow> toValidUtf8 (s @ t) = s @ toValidUtf8 t"
  by (induction s) (simp_all add: toValidUtf8.simps [of "_ # _"] runeLen_tail)

lemma map_option_pair: "map_option (\<lambda>(a, b). (x # a, b)) (map_option (\<lambda>(a, b). (y @ a, b)) z) = map_option (\<lambda>(a, b). (x # y @ a, b)) z"
  by (cases z) auto

lemma scanString_high: "\<forall>c\<in>set q. 128 \<le> byteOf c \<Longrightarrow>
    scanString (q @ t) = map_option (\<lambda>(raw, rest). (q @ raw, rest)) (scanString t)"
proof (induction q)
  case (Cons c q)
  have "c \<noteq> CHR 0x22" "c \<noteq> backslash" "\<not> byteOf c < 32" using Cons.prems by (auto simp: byteOf_def backslash_def)
  then show ?case using Cons by (simp add: map_option_pair)
qed (simp add: option.map_ident_strong split: prod.split)

lemma unescape_high: "\<forall>c\<in>set q. 128 \<le> byteOf c \<Longrightarrow> unescape (q @ t) = q @ unescape t"
proof (induction q)
  case (Cons c q)
  have "c \<noteq> backslash" using Cons.prems by (auto simp: byteOf_def backslash_def)
  then show ?case using Cons by (simp add: unescape.simps [of "c # _"])
qed simp

lemma readsAs_high:
  assumes "runeLen s \<noteq> 0" and "\<forall>c\<in>set (take (runeLen s) s). 128 \<le> byteOf c"
  shows "readsAs (take (runeLen s) s) (take (runeLen s) s)"
proof -
  let ?q = "take (runeLen s) s"
  have "length ?q = runeLen s" using runeLen_le [of s] by simp
  then have "toValidUtf8 (?q @ t) = ?q @ toValidUtf8 t" for t
    using runeLen_take [OF assms(1), of t] assms(1) by (subst toValidUtf8.simps) auto
  then show ?thesis using assms(2) scanString_high unescape_high by (simp add: readsAs_def)
qed

lemma readsAs_ascii:
  assumes "\<forall>c\<in>set q. byteOf c < 128"
    and "\<And>t. scanString (q @ t) = map_option (\<lambda>(raw, rest). (q @ raw, rest)) (scanString t)"
    and "\<And>t. unescape (q @ t) = r @ unescape t"
  shows "readsAs q r"
  using assms by (simp add: readsAs_def toValidUtf8_ascii_append)

lemma hex4_digits:
  assumes "hexDigit a = Some i" "hexDigit b = Some j" "hexDigit c = Some k" "hexDigit d = Some l"
  shows "hex4 (a # b # c # d # t) = Some (16 * (16 * (16 * i + j) + k) + l)"
  using assms by (simp add: hex4_def)

lemma hex4_len: "hex4 s \<noteq> None \<Longrightarrow> 4 \<le> length s"
  by (auto simp: hex4_def split: if_splits)

lemma hexDigit_plain: "hexDigit c = Some i \<Longrightarrow> c \<noteq> CHR 0x22 \<and> c \<noteq> backslash \<and> \<not> byteOf c < 32 \<and> byteOf c < 128"
  by (auto simp: hexDigit_def isDigit_def byteIn_def byteOf_def backslash_def split: if_splits)

lemma scanString_plain:
  "\<forall>c\<in>set q. c \<noteq> CHR 0x22 \<and> c \<noteq> backslash \<and> \<not> byteOf c < 32 \<Longrightarrow>
    scanString (q @ t) = map_option (\<lambda>(raw, rest). (q @ raw, rest)) (scanString t)"
proof (induction q)
  case (Cons c q)
  then show ?case by (simp add: map_option_pair)
qed (simp add: option.map_ident_strong split: prod.split)

text \<open>An escape of four hexadecimal digits.\<close>

lemma readsAs_unicode:
  assumes "hexDigit a = Some i" "hexDigit b = Some j" "hexDigit c = Some k" "hexDigit d = Some l"
    and "\<not> surrogate (16 * (16 * (16 * i + j) + k) + l)" and "utf8Encode (16 * (16 * (16 * i + j) + k) + l) = r"
  shows "readsAs [backslash, CHR ''u'', a, b, c, d] r"
proof (rule readsAs_ascii)
  note h = assms(1-4) [THEN hexDigit_plain]
  show "\<forall>x\<in>set [backslash, CHR ''u'', a, b, c, d]. byteOf x < 128" using h by (auto simp: byteOf_def backslash_def)
  fix t
  note x = hex4_digits [OF assms(1-4), of t]
  have u: "map_of simpleEscapes (CHR ''u'') = None" by (simp add: simpleEscapes_def)
  have q: "backslash \<noteq> CHR 0x22" by (simp add: backslash_def)
  have p: "scanString ([a, b, c, d] @ t) = map_option (\<lambda>(raw, rest). ([a, b, c, d] @ raw, rest)) (scanString t)"
    using h by (intro scanString_plain) auto
  have "scanString ([backslash, CHR ''u'', a, b, c, d] @ t) =
      map_option (\<lambda>(raw, rest). (backslash # CHR ''u'' # raw, rest)) (scanString ([a, b, c, d] @ t))"
    using x q by (simp del: scanString.simps add: scanString.simps(2) [of backslash] u)
  then show "scanString ([backslash, CHR ''u'', a, b, c, d] @ t) =
      map_option (\<lambda>(raw, rest). ([backslash, CHR ''u'', a, b, c, d] @ raw, rest)) (scanString t)"
    unfolding p by (cases "scanString t") auto
  show "unescape ([backslash, CHR ''u'', a, b, c, d] @ t) = r @ unescape t"
    using x assms(5,6) u by (subst unescape.simps) simp
qed

lemma readsAs_byte:
  assumes "byteOf c < 128"
  shows "readsAs (quoteByte c) [c]"
  using assms
proof (cases rule: quoteByte_cases)
  case plain
  then show ?thesis
    using assms by (auto intro!: readsAs_ascii simp: map_option_case unescape.simps [of "c # _"] split: option.split)
next
  case (short e)
  have "backslash \<noteq> CHR 0x22" "byteOf backslash < 128" by (simp_all add: backslash_def byteOf_def)
  then show ?thesis
    using short by (auto intro!: readsAs_ascii simp: map_option_case  unescape.simps [of "backslash # _"] split: option.split)
next
  case (hex x y)
  have n: "16 * (byteOf c div 16) + byteOf c mod 16 = byteOf c" by simp
  have z: "hexDigit (CHR ''0'') = Some 0" by (simp add: hexDigit_def isDigit_def byteOf_def)
  have "utf8Encode (byteOf c) = [c]" using assms by (simp add: utf8Encode_def byteOf_def)
  then show ?thesis
    unfolding hex(1) using assms
    by (intro readsAs_unicode [OF z z hex(2,3)]) (simp_all add: n surrogate_def del: mult_div_mod_eq)
qed

lemma readsAs_rune:
  assumes "runeLen s \<noteq> 0"
  shows "readsAs (quoteRune (take (runeLen s) s)) (take (runeLen s) s)"
  using assms
proof (cases rule: runeLen_cases)
  case (ascii c r)
  have "take (runeLen s) s = [c]" unfolding ascii(3) by (simp add: ascii(1))
  then show ?thesis using readsAs_byte [OF ascii(2)] by (simp add: quoteRune_def)
next
  case (high c r)
  let ?q = "take (runeLen s) s"
  have q: "?q = c # take (runeTail c r - 1) r" using high by (simp add: take_Cons')
  have len: "length ?q \<noteq> 1" using runeTail_le [OF high(4)] high(3) runeLen_le [of s] by simp
  have d: "hexDigit (CHR ''2'') = Some 2" "hexDigit (CHR ''0'') = Some 0" "hexDigit (CHR ''8'') = Some 8" "hexDigit (CHR ''9'') = Some 9"
    by (simp_all add: hexDigit_def isDigit_def byteOf_def)
  have e: "utf8Encode 8232 = [CHR 0xE2, CHR 0x80, CHR 0xA8]" "utf8Encode 8233 = [CHR 0xE2, CHR 0x80, CHR 0xA9]"
    by (simp_all add: utf8Encode_def utf8_chars)
  have "readsAs (backslash # ''u2028'') [CHR 0xE2, CHR 0x80, CHR 0xA8]"
    by (rule readsAs_unicode [OF d(1,2,1,3)]) (simp_all add: surrogate_def e)
  moreover have "readsAs (backslash # ''u2029'') [CHR 0xE2, CHR 0x80, CHR 0xA9]"
    by (rule readsAs_unicode [OF d(1,2,1,4)]) (simp_all add: surrogate_def e)
  moreover have "readsAs ?q ?q"
    using runeTail_high [OF high(4)] by (intro readsAs_high assms) (simp only: q, blast)
  ultimately show ?thesis using len by (simp add: quoteRune_def)
qed

lemma readsAs_escape: "readsAs (escapeStr s) (toValidUtf8 s)"
proof (induction s rule: escapeStr.induct)
  case (1 s)
  have step: "readsAs (q @ q') (r @ r')" if "readsAs q r" "readsAs q' r'" for q r q' r'
    using that by (auto simp: readsAs_def map_option_case split: option.split)
  consider "s = []" | "s \<noteq> []" "runeLen s = 0" | "s \<noteq> []" "runeLen s \<noteq> 0" by blast
  then show ?case
  proof cases
    case 1
    then show ?thesis by (simp add: readsAs_def escapeStr.simps map_option_case split: option.split)
  next
    case 2
    have f: "hexDigit (CHR ''f'') = Some 15" "hexDigit (CHR ''d'') = Some 13" by (simp_all add: hexDigit_def isDigit_def byteIn_def byteOf_def)
    have e: "utf8Encode 65533 = runeError" by (simp add: utf8Encode_def runeError_def utf8_chars)
    have "readsAs (backslash # ''ufffd'') runeError"
      by (rule readsAs_unicode [OF f(1,1,1,2)]) (simp_all add: surrogate_def e)
    then have "readsAs (backslash # ''ufffd'' @ escapeStr (tl s)) (runeError @ toValidUtf8 (tl s))"
      using step [OF \<open>readsAs (backslash # ''ufffd'') runeError\<close> "1.IH"(1) [OF 2]] by (simp only: append.simps)
    then show ?thesis using 2 by (subst escapeStr.simps, subst toValidUtf8.simps) simp
  next
    case 3
    have "readsAs (quoteRune (take (runeLen s) s) @ escapeStr (drop (runeLen s) s)) (take (runeLen s) s @ toValidUtf8 (drop (runeLen s) s))"
      by (rule step [OF readsAs_rune [OF 3(2)] "1.IH"(2) [OF 3]])
    then show ?thesis using 3 by (subst escapeStr.simps, subst toValidUtf8.simps) simp
  qed
qed

text \<open>A printed string is scanned up to its closing quote and decodes to the string, invalid bytes replaced.\<close>

lemma scanString_quoted: "scanString (escapeStr s @ CHR 0x22 # t) = Some (escapeStr s, t)"
  using readsAs_escape [of s] by (simp add: readsAs_def)

lemma unquote_escape: "unquote (escapeStr s) = toValidUtf8 s"
proof -
  have "\<forall>t. toValidUtf8 (escapeStr s @ t) = escapeStr s @ toValidUtf8 t \<and> unescape (escapeStr s @ t) = toValidUtf8 s @ unescape t"
    using readsAs_escape [of s] by (simp add: readsAs_def)
  from spec [OF this, of "[]"] show ?thesis by (simp add: unquote_def unescape.simps)
qed

section \<open>Reading a value back\<close>

fun validText :: "json \<Rightarrow> json" where
  "validText (JStr s) = JStr (toValidUtf8 s)"
| "validText (JArr xs) = JArr (map validText xs)"
| "validText (JObj ms) = JObj (map (\<lambda>(k, v). (toValidUtf8 k, validText v)) ms)"
| "validText j = j"

text \<open>The numbers are the texts of integers.\<close>

fun wholeNumbers :: "json \<Rightarrow> bool" where
  "wholeNumbers (JNum l) = (\<exists>n. l = itoa n)"
| "wholeNumbers (JArr xs) = list_all wholeNumbers xs"
| "wholeNumbers (JObj ms) = list_all (\<lambda>(k, v). wholeNumbers v) ms"
| "wholeNumbers j = True"

definition ends :: "string \<Rightarrow> bool" where
  "ends t \<longleftrightarrow> t = [] \<or> \<not> isDigit (hd t) \<and> hd t \<notin> {CHR ''.'', CHR ''e'', CHR ''E''}"

lemma natDigits_head: "0 < n \<Longrightarrow> hd (natDigits n) \<noteq> CHR ''0''"
proof (induction n rule: natDigits.induct)
  case (1 n)
  show ?case
  proof (cases "n < 10")
    case True
    have "digitVal (digitChar n) \<noteq> digitVal (CHR ''0'')" using True 1 by (simp add: digitVal_def digitChar_def)
    then have "digitChar n \<noteq> CHR ''0''" by metis
    then show ?thesis using True by (subst natDigits.simps) simp
  next
    case False
    then have "hd (natDigits (n div 10)) \<noteq> CHR ''0''" using 1 by simp
    then show ?thesis using False by (subst natDigits.simps) simp
  qed
qed

lemma lexInt_digits: "ends t \<Longrightarrow> lexInt (natDigits n @ t) = Some (natDigits n, t)"
proof -
  assume t: "ends t"
  obtain c r where c: "natDigits n = c # r" by (cases "natDigits n") simp_all
  have d: "\<forall>x\<in>set (c # r). isDigit x" using natDigits_digits [of _ n] c by auto
  show ?thesis
  proof (cases "c = CHR ''0''")
    case True
    then have "n = 0" using natDigits_head [of n] c by auto
    then have "natDigits n = ''0''" by (simp add: natDigits.simps digitChar_def utf8_chars)
    then show ?thesis using True c by (simp add: lexInt_def)
  next
    case False
    have "spanDigits ((c # r) @ t) = (c # r, t)"
      using d t by (cases t) (simp_all add: spanDigits_def ends_def takeWhile_append2 dropWhile_append2)
    then show ?thesis using False d c by (simp add: lexInt_def)
  qed
qed

lemma lexNumber_itoa: "ends t \<Longrightarrow> lexNumber (itoa n @ t) = Some (itoa n, t)"
proof -
  assume t: "ends t"
  have f: "lexFrac t = Some ([], t)" "lexExp t = Some ([], t)"
    using t by (cases t; simp add: lexFrac_def lexExp_def ends_def)+
  have m: "\<not> hasPrefix (natDigits k @ t) ''-''" for k
    using natDigits_hd [of k] by (cases "natDigits k") auto
  show ?thesis using m lexInt_digits [OF t] f by (simp add: lexNumber_def itoa_def)
qed

text \<open>The lexer on each kind of token.\<close>

lemma lexAll_punct: "map_of punct c = Some t \<Longrightarrow> lexAll (c # s) = map_option ((#) t) (lexAll s)"
proof -
  assume t: "map_of punct c = Some t"
  then have "\<not> isWs c" by (auto simp: punct_def isWs_def split: if_splits)
  then show ?thesis using t by (subst lexAll.simps) (simp add: lexOne_def)
qed

lemma lexAll_string: "lexAll (quoteText s @ t) = map_option ((#) (TStr (toValidUtf8 s))) (lexAll t)"
  by (subst lexAll.simps) (simp add: quoteText_def isWs_def lexOne_def punct_def scanString_quoted unquote_escape)

lemma lexAll_literal: "(w, t) \<in> set literals \<Longrightarrow> lexAll (w @ s) = map_option ((#) t) (lexAll s)"
  by (subst lexAll.simps) (auto simp: literals_def isWs_def lexOne_def punct_def)

lemma lexAll_int:
  assumes "ends t"
  shows "lexAll (itoa n @ t) = map_option ((#) (TNum (itoa n))) (lexAll t)"
proof -
  obtain c r where c: "itoa n = c # r" by (cases "itoa n") (auto simp: itoa_def split: if_splits)
  have "isDigit c \<or> c = CHR ''-''"
  proof (cases "n < 0")
    case False
    then have "c \<in> set (natDigits (nat n))" using c by (simp add: itoa_def)
    then show ?thesis using natDigits_digits by blast
  qed (use c in \<open>simp add: itoa_def\<close>)
  then have h: "c \<noteq> CHR 0x22" "\<not> isWs c" "map_of punct c = None" "find (\<lambda>(w, t). hasPrefix (c # s) w) literals = None" for s
    by (auto simp: isWs_def punct_def literals_def isDigit_def)
  have "lexOne (itoa n @ t) = Some (TNum (itoa n), t)"
    using lexNumber_itoa [OF assms, of n] h(1,3) h(4) [of "r @ t"] by (simp add: lexOne_def c)
  then show ?thesis using h(2) by (subst lexAll.simps) (simp add: c)
qed

lemma commaJoin_Cons: "commaJoin (x # y # zs) = x @ CHR '','' # commaJoin (y # zs)"
  by (simp add: commaJoin_def)

lemma commaJoin_one: "commaJoin [x] = x" "commaJoin [] = []"
  by (simp_all add: commaJoin_def)

lemma lexAll_comma: "lexAll (CHR '','' # s) = map_option ((#) TComma) (lexAll s)"
  by (rule lexAll_punct) (simp add: punct_def)

text \<open>A list of items between brackets; \<open>f\<close> prints an item, \<open>g\<close> gives its tokens.\<close>

lemma lexAll_items:
  assumes "\<And>x t. x \<in> set xs \<Longrightarrow> ends t \<Longrightarrow> lexAll (f x @ t) = map_option ((@) (g x)) (lexAll t)"
    and "map_of punct c = Some k"
  shows "lexAll (commaJoin (map f xs) @ c # t) = map_option (\<lambda>ts. commaSep (map g xs) @ k # ts) (lexAll t)"
  using assms(1)
proof (induction xs)
  case Nil
  then show ?case using lexAll_punct [OF assms(2)] by (simp add: commaJoin_one)
next
  case (Cons x xs)
  have p: "ends (d # s)" if "map_of punct d = Some k'" for d s k'
    using that by (auto simp: punct_def ends_def isDigit_def split: if_splits)
  show ?case
  proof (cases xs)
    case Nil
    then show ?thesis
      using Cons.prems [of x "c # t"] p [OF assms(2)] lexAll_punct [OF assms(2), of t]
      by (simp add: commaJoin_one option.map_comp comp_def)
  next
    case (Cons y ys)
    have "lexAll (commaJoin (map f xs) @ c # t) = map_option (\<lambda>ts. commaSep (map g xs) @ k # ts) (lexAll t)"
      by (rule Cons.IH) (use Cons.prems in auto)
    then show ?thesis
      using Cons.prems [of x "CHR '','' # commaJoin (map f xs) @ c # t"] p [of "CHR '',''" TComma]
      by (simp add: Cons commaJoin_Cons lexAll_comma option.map_comp comp_def punct_def)
  qed
qed

lemma lexAll_render:
  "wholeNumbers j \<Longrightarrow> ends t \<Longrightarrow> lexAll (render j @ t) = map_option ((@) (linear (validText j))) (lexAll t)"
proof (induction j arbitrary: t)
  case (JNum l)
  then show ?case using lexAll_int by auto
next
  case (JStr s)
  then show ?case by (simp add: lexAll_string)
next
  case (JArr xs)
  have "lexAll (commaJoin (map render xs) @ CHR '']'' # t) =
      map_option (\<lambda>ts. commaSep (map (linear \<circ> validText) xs) @ TRBrack # ts) (lexAll t)"
    using JArr by (intro lexAll_items) (auto simp: list_all_iff punct_def)
  then show ?case
    using lexAll_punct [of "CHR ''[''" TLBrack] by (simp add: punct_def option.map_comp comp_def)
next
  case (JObj ms)
  let ?f = "\<lambda>(k, v). quoteText k @ CHR '':'' # render v"
  let ?g = "\<lambda>(k, v). TStr (toValidUtf8 k) # TColon # linear (validText v)"
  have "lexAll (commaJoin (map ?f ms) @ CHR ''}'' # t) = map_option (\<lambda>ts. commaSep (map ?g ms) @ TRBrace # ts) (lexAll t)"
  proof (rule lexAll_items)
    fix m t assume m: "m \<in> set ms" and t: "ends t"
    obtain k v where kv: "m = (k, v)" by (cases m)
    have "lexAll (render v @ t) = map_option ((@) (linear (validText v))) (lexAll t)"
      using JObj m t kv by (auto simp: list_all_iff)
    then show "lexAll (?f m @ t) = map_option ((@) (?g m)) (lexAll t)"
      using lexAll_punct [of "CHR '':''" TColon "render v @ t"]
      by (cases "lexAll t") (simp_all add: kv lexAll_string punct_def)
  qed (simp add: punct_def)
  note items = this
  have g: "map (\<lambda>(k, v). TStr k # TColon # linear v) (map (\<lambda>(k, v). (toValidUtf8 k, validText v)) ms) = map ?g ms"
    by auto
  show ?case
    unfolding validText.simps linear.simps render.simps g
    using items lexAll_punct [of "CHR ''{''" TLBrace] by (simp add: punct_def option.map_comp comp_def)
next
  case JNull
  show ?case using lexAll_literal [of "''null''" TNull t] by (cases "lexAll t") (simp_all add: literals_def)
next
  case (JBool b)
  show ?case
    using lexAll_literal [of "''true''" "TBool True" t] lexAll_literal [of "''false''" "TBool False" t]
    by (cases b; cases "lexAll t") (simp_all add: literals_def)
qed

lemma nesting_validText: "nesting (validText j) = nesting j"
proof (induction j)
  case (JArr xs)
  then have "map (nesting \<circ> validText) xs = map nesting xs" by simp
  then show ?case by (simp only: validText.simps nesting.simps map_map)
next
  case (JObj ms)
  then have "map ((\<lambda>(k, v). nesting v) \<circ> (\<lambda>(k, v). (toValidUtf8 k, validText v))) ms = map (\<lambda>(k, v). nesting v) ms"
    by (auto simp: snds.simps)
  then show ?case by (simp only: validText.simps nesting.simps map_map)
qed simp_all

text \<open>Printing and parsing give the value back, white space after it included.\<close>

lemma parse_render:
  assumes "wholeNumbers j" and "nesting j \<le> maxNesting" and "list_all isWs ws"
  shows "parseJson (render j @ ws) = Some (validText j)"
proof -
  have "lexAll ws = Some []" using assms(3) by (induction ws) (simp_all add: lexAll.simps)
  moreover have "ends ws" using assms(3) by (cases ws) (auto simp: ends_def isWs_def isDigit_def)
  ultimately have "lexAll (render j @ ws) = Some (linear (validText j))" using lexAll_render [OF assms(1)] by simp
  then show ?thesis using assms(2) nesting_validText [of j] by (simp add: parseJson_def parseTokens_iff)
qed

end
