(* ===== verification/Server.thy ===== *)
theory Server
  imports Proxy Config Json_Print Logger
begin

text \<open>
  main.go, server.go and transport.go: what \<open>buildServer\<close> puts together, the two status handlers, the
  routing of the mux, and the process around them. Outside the model stay the sockets: whether
  \<open>ListenAndServe\<close> returns and what the health check's request gets are arguments.
\<close>

section \<open>The handlers of server.go\<close>

text \<open>A value that cannot be marshalled is None: \<open>Encode\<close> then writes nothing.\<close>

definition writeJSON :: "int \<Rightarrow> json option \<Rightarrow> answer" where
  "writeJSON status v = Reply status [(''Content-Type'', [''application/json''])]
     (case v of None \<Rightarrow> [] | Some j \<Rightarrow> render j @ [CHR 0x0A])"

definition healthzHandler :: "key_pool list \<Rightarrow> answer" where
  "healthzHandler pools =
     (if list_ex (\<lambda>pool. 0 < length (keys pool) \<and> AnyUsable pool) pools
      then writeJSON 200 (Some (JObj [(''ok'', JBool True)])) else writeJSON 503 (Some (JObj [(''ok'', JBool False)])))"

text \<open>
  The structs of keys.go with their tags. A \<open>time.Time\<close> is printed in the zone it carries, which the
  model of an instant leaves out: \<open>off\<close> is that zone's offset for a key that is disabled (the zero
  time is in UTC).
\<close>

abbreviation jint :: "int \<Rightarrow> json" where
  "jint n \<equiv> JNum (itoa n)"

definition statJson :: "keyStat \<Rightarrow> json" where
  "statJson s = JObj [(''success'', jint (Success s)), (''exhausted'', jint (Exhausted s)),
     (''rateLimited'', jint (RateLimited s)), (''auth'', jint (Auth s)), (''retries'', jint (Retries s))]"

definition keyJson :: "int \<Rightarrow> keySnapshot \<Rightarrow> json option" where
  "keyJson off k = map_option (\<lambda>t. JObj
       [(''index'', jint (sIndex k)), (''last4'', JStr (sLast4 k)), (''stats'', statJson (sStats k)),
        (''disabled'', JBool (sDisabled k)), (''disabledUntil'', JStr t),
        (''remainingCredits'', jint (sRemainingCredits k))])
     (marshalTime (if sDisabled k then off else 0) (sDisabledUntil k))"

definition snapshotJson :: "(int \<Rightarrow> int) \<Rightarrow> PoolSnapshot \<Rightarrow> json option" where
  "snapshotJson off s = map_option (\<lambda>ks. JObj
       [(''poolSize'', jint (PoolSize s)), (''currentIndex'', jint (CurrentIndex s)), (''keys'', JArr ks)])
     (those (map (\<lambda>k. keyJson (off (sIndex k)) k) (Keys s)))"

text \<open>A map is printed with its keys in order; a later profile of the same name replaces an earlier one.\<close>

fun insertNamed :: "string \<times> 'a \<Rightarrow> (string \<times> 'a) list \<Rightarrow> (string \<times> 'a) list" where
  "insertNamed e [] = [e]"
| "insertNamed e (f # fs) = (if bytesLeq (fst e) (fst f) then e # f # fs else f # insertNamed e fs)"

definition statusValue :: "(string \<Rightarrow> int \<Rightarrow> int) \<Rightarrow> (string \<times> key_pool) list \<Rightarrow> json option" where
  "statusValue zones pools =
     (let snaps = fold (\<lambda>(name, pool). AList.update name (Snapshot pool)) pools [] in
      map_option (\<lambda>ms. JObj [(''profiles'', JObj ms)])
        (those (map (\<lambda>(name, s). map_option (Pair name) (snapshotJson (zones name) s)) (foldr insertNamed snaps []))))"

definition statusHandler :: "(string \<Rightarrow> int \<Rightarrow> int) \<Rightarrow> (string \<times> key_pool) list \<Rightarrow> answer" where
  "statusHandler zones pools = writeJSON 200 (statusValue zones pools)"

section \<open>The transport\<close>

datatype egress = SystemProxy | ViaProxy url

definition buildTransport :: "Config \<Rightarrow> egress option" where
  "buildTransport cfg =
     (if UpstreamProxy cfg = [] then Some SystemProxy
      else (case urlParse (UpstreamProxy cfg) of
          None \<Rightarrow> None
        | Some u \<Rightarrow> Some (ViaProxy (if uScheme u = ''socks5h'' then u\<lparr>uScheme := ''socks5''\<rparr> else u))))"

section \<open>buildServer\<close>

record server =
  svCfg :: Config
  svProfiles :: "Profile list"
  svWorlds :: "string \<Rightarrow> world"
  svTransport :: egress
  svTimeouts :: "duration list"
  svLogger :: logger
  svStarted :: "entry option"
  svAddr :: string

text \<open>The timeout of a profile's client: its own, or the shared one's 30 seconds.\<close>

definition clientTimeout :: "Profile \<Rightarrow> duration" where
  "clientTimeout p = (if 0 < UpstreamTimeout p then UpstreamTimeout p else 30 * Second)"

text \<open>A profile's world when the server starts: its pool, and its refresher over the pool's keys.\<close>

definition startWorldOf :: "Config \<Rightarrow> key_pool \<Rightarrow> world" where
  "startWorldOf cfg pool = \<lparr>wpool = pool, wrefresh = Some (NewRefresher cfg pool), wtick = 0, wcalls = [],
     wsent = [], wjobs = [], wlogger = newLogger (LogLevel cfg), wlog = []\<rparr>"

definition noWorld :: "Config \<Rightarrow> world" where
  "noWorld cfg = \<lparr>wpool = NewKeyPool [], wrefresh = None, wtick = 0, wcalls = [], wsent = [], wjobs = [],
     wlogger = newLogger (LogLevel cfg), wlog = []\<rparr>"

definition startWorlds :: "Config \<Rightarrow> string \<Rightarrow> world" where
  "startWorlds cfg name =
     (case map_of (map (\<lambda>(p, pool). (Name p, startWorldOf cfg pool)) (buildProfiles cfg)) name of
        None \<Rightarrow> noWorld cfg | Some w \<Rightarrow> w)"

text \<open>The line that announces the start: settings and numbers of keys.\<close>

definition startArgs :: "Config \<Rightarrow> nat \<Rightarrow> logval list" where
  "startArgs cfg profiles =
     (let n = (\<lambda>xs. LInt (int (length xs))) in concat [
        arg ''profiles'' (LInt (int profiles)),
        arg ''keys'' (n (APIKeys cfg)), arg ''upstream'' (LText (cfgUpstream cfg)), arg ''maxPasses'' (LInt (MaxPasses cfg)),
        arg ''tavilyKeys'' (n (tvAPIKeys (Tavily cfg))), arg ''tavilyUpstream'' (LText (tvUpstream (Tavily cfg))),
        arg ''tavilyPrefix'' (LText (tvRoutePrefix (Tavily cfg))),
        arg ''apifyKeys'' (n (apAPIKeys (Apify cfg))), arg ''apifyUpstream'' (LText (apUpstream (Apify cfg))),
        arg ''apifyPrefix'' (LText (apRoutePrefix (Apify cfg))), arg ''apifyTimeoutSec'' (LInt (apTimeoutSec (Apify cfg))),
        arg ''apifyFreeCreditUsd'' (LFloat (apFreeCreditUsd (Apify cfg))),
        arg ''apifyLowCents'' (LInt (apLowCreditCents (Apify cfg))), arg ''apifyStopCents'' (LInt (apStopCreditCents (Apify cfg))),
        arg ''exaKeys'' (n (exAPIKeys (Exa cfg))), arg ''exaUpstream'' (LText (exUpstream (Exa cfg))),
        arg ''exaPrefix'' (LText (exRoutePrefix (Exa cfg))), arg ''exaBudgetMicro'' (LInt (exBudgetMicro (Exa cfg))),
        arg ''exaLowMicro'' (LInt (exLowMicro (Exa cfg))), arg ''exaStopMicro'' (LInt (exStopMicro (Exa cfg))),
        arg ''fmpKeys'' (n (fnAPIKeys (FMP cfg))), arg ''fmpUpstream'' (LText (fnUpstream (FMP cfg))),
        arg ''fmpPrefix'' (LText (fnRoutePrefix (FMP cfg))), arg ''fmpDailyBudget'' (LInt (fnDailyBudget (FMP cfg))),
        arg ''fmpLow'' (LInt (fnLowCredit (FMP cfg))), arg ''fmpStop'' (LInt (fnStopCredit (FMP cfg))),
        arg ''alphaKeys'' (n (fnAPIKeys (AlphaVantage cfg))), arg ''alphaUpstream'' (LText (fnUpstream (AlphaVantage cfg))),
        arg ''alphaPrefix'' (LText (fnRoutePrefix (AlphaVantage cfg))), arg ''alphaDailyBudget'' (LInt (fnDailyBudget (AlphaVantage cfg))),
        arg ''alphaLow'' (LInt (fnLowCredit (AlphaVantage cfg))), arg ''alphaStop'' (LInt (fnStopCredit (AlphaVantage cfg))),
        arg ''marketauxKeys'' (n (fnAPIKeys (Marketaux cfg))), arg ''marketauxUpstream'' (LText (fnUpstream (Marketaux cfg))),
        arg ''marketauxPrefix'' (LText (fnRoutePrefix (Marketaux cfg))), arg ''marketauxDailyBudget'' (LInt (fnDailyBudget (Marketaux cfg))),
        arg ''marketauxLow'' (LInt (fnLowCredit (Marketaux cfg))), arg ''marketauxStop'' (LInt (fnStopCredit (Marketaux cfg))),
        arg ''creditResetDay'' (LInt (cfgCreditResetDay cfg)), arg ''lowCreditThreshold'' (LInt (LowCreditThreshold cfg)),
        arg ''stopCreditThreshold'' (LInt (StopCreditThreshold cfg)), arg ''creditRefreshSec'' (LInt (CreditRefreshSec cfg)),
        arg ''fcMaxConcurrentPerKey'' (LInt (FirecrawlMaxConcurrentPerKey cfg)),
        arg ''fcConcurrencySaturation'' (LText (FirecrawlConcurrencySaturation cfg)),
        arg ''fcConcurrencyQueueMs'' (LInt (FirecrawlConcurrencyQueueMs cfg)),
        arg ''fc403Retries'' (LInt (Firecrawl403Retries cfg))])"

text \<open>From the environment to the server, or the first error.\<close>

definition buildServer :: "environ \<Rightarrow> server loaded" where
  "buildServer getenv =
     andThen (LoadConfig getenv) (\<lambda>cfg.
     andThen (case buildTransport cfg of None \<Rightarrow> Inl (BadUrl ''UPSTREAM_PROXY'') | Some tr \<Rightarrow> Inr tr) (\<lambda>tr.
     let profiles = map fst (buildProfiles cfg); lg = newLogger (LogLevel cfg) in
     Inr \<lparr>svCfg = cfg, svProfiles = profiles, svWorlds = startWorlds cfg, svTransport = tr,
       svTimeouts = map clientTimeout profiles, svLogger = lg,
       svStarted = info lg ''api-key-rotator starting'' (startArgs cfg (length profiles)), svAddr = Host cfg @ '':'' @ Port cfg\<rparr>))"

section \<open>The mux\<close>

text \<open>
  \<open>http.ServeMux\<close> redirects a path that is not clean; \<open>path.Clean\<close> drops empty and dot elements and
  resolves dot-dot, and the mux keeps a trailing slash. That test is on the escaped path; the status
  handlers take their exact paths.
\<close>

fun cleanElems :: "string list \<Rightarrow> string list \<Rightarrow> string list" where
  "cleanElems acc [] = rev acc"
| "cleanElems acc (e # es) =
     (if e = [] \<or> e = ''.'' then cleanElems acc es
      else if e = ''..'' then cleanElems (tl acc) es
      else cleanElems (e # acc) es)"

definition cleanPath :: "string \<Rightarrow> string" where
  "cleanPath p =
     (if p = [] then ''/''
      else
        let elems = cleanElems [] (splitOn (CHR ''/'') p);
            clean = (if elems = [] then ''/'' else concat (map (\<lambda>e. CHR ''/'' # e) elems))
        in if last p = CHR ''/'' \<and> clean \<noteq> ''/'' then clean @ ''/'' else clean)"

datatype route = Redirect string | Healthz | StatusPage | Rotator

definition muxRoute :: "string \<Rightarrow> string \<Rightarrow> string \<Rightarrow> route" where
  "muxRoute verb escaped path =
     (if verb \<noteq> ''CONNECT'' \<and> cleanPath escaped \<noteq> escaped then Redirect (cleanPath escaped)
      else if path = ''/healthz'' then Healthz
      else if path = ''/status'' then StatusPage
      else Rotator)"

text \<open>A request to the server: the handler the mux picks, on the profiles' worlds.\<close>

datatype response = Redirected string | Handled "answer option"

definition poolsOf :: "server \<Rightarrow> (string \<Rightarrow> world) \<Rightarrow> (string \<times> key_pool) list" where
  "poolsOf sv ws = map (\<lambda>p. (Name p, wpool (ws (Name p)))) (svProfiles sv)"

definition handle :: "nat \<Rightarrow> env \<Rightarrow> (string \<Rightarrow> int \<Rightarrow> int) \<Rightarrow> server \<Rightarrow> string \<Rightarrow> inreq
    \<Rightarrow> (string \<Rightarrow> world) \<Rightarrow> response \<times> (string \<Rightarrow> world)" where
  "handle fuel env zones sv escaped rq ws =
     (case muxRoute (iMethod rq) escaped (iPath rq) of
        Redirect path \<Rightarrow> (Redirected path, ws)
      | Healthz \<Rightarrow> (Handled (Some (healthzHandler (map snd (poolsOf sv ws)))), ws)
      | StatusPage \<Rightarrow> (Handled (Some (statusHandler zones (poolsOf sv ws))), ws)
      | Rotator \<Rightarrow> (case ServeHTTP fuel env (svCfg sv) (svProfiles sv) rq ws of (a, ws') \<Rightarrow> (Handled a, ws')))"

section \<open>The process\<close>

text \<open>
  \<open>flag.Parse\<close> for the one Boolean flag: its value, or the exit code (0 for the help text, 2 for a
  mistake). Parsing stops at the first argument that is no flag.
\<close>

definition parseBool :: "string \<Rightarrow> bool option" where
  "parseBool s =
     (if s \<in> {''1'', ''t'', ''T'', ''TRUE'', ''true'', ''True''} then Some True
      else if s \<in> {''0'', ''f'', ''F'', ''FALSE'', ''false'', ''False''} then Some False else None)"

definition cutValue :: "string \<Rightarrow> string \<times> string option" where
  "cutValue name =
     (case dropWhile (\<lambda>c. c \<noteq> CHR ''='') (tl name) of
        [] \<Rightarrow> (name, None)
      | _ # v \<Rightarrow> (hd name # takeWhile (\<lambda>c. c \<noteq> CHR ''='') (tl name), Some v))"

fun parseFlags :: "bool \<Rightarrow> string list \<Rightarrow> int + bool" where
  "parseFlags b [] = Inr b"
| "parseFlags b (s # rest) =
     (if length s < 2 \<or> hd s \<noteq> CHR ''-'' \<or> s = ''--'' then Inr b
      else
        let name = (if s ! 1 = CHR ''-'' then drop 2 s else tl s) in
        if hd name = CHR ''-'' \<or> hd name = CHR ''='' then Inl 2
        else (case cutValue name of (n, v) \<Rightarrow>
          if n \<noteq> ''healthcheck'' then Inl (if n = ''help'' \<or> n = ''h'' then 0 else 2)
          else (case v of
              None \<Rightarrow> parseFlags True rest
            | Some t \<Rightarrow> (case parseBool t of None \<Rightarrow> Inl 2 | Some x \<Rightarrow> parseFlags x rest))))"

text \<open>\<open>-healthcheck\<close>: the exit code; \<open>get\<close> is the status of the answer to a GET, None for an error.\<close>

definition healthcheckUrl :: "Config \<Rightarrow> string" where
  "healthcheckUrl cfg = ''http://127.0.0.1:'' @ Port cfg @ ''/healthz''"

definition healthcheck :: "environ \<Rightarrow> (string \<Rightarrow> int option) \<Rightarrow> int" where
  "healthcheck getenv get =
     (case LoadConfig getenv of
        Inl e \<Rightarrow> 1
      | Inr cfg \<Rightarrow> if get (healthcheckUrl cfg) = Some 200 then 0 else 1)"

text \<open>\<open>ListenAndServe\<close> returns only with an error; \<open>fails\<close> says whether it does.\<close>

datatype process = Exit int | Serving server

definition main :: "environ \<Rightarrow> string list \<Rightarrow> (string \<Rightarrow> int option) \<Rightarrow> (server \<Rightarrow> bool) \<Rightarrow> process" where
  "main getenv args get fails =
     (case parseFlags False args of
        Inl code \<Rightarrow> Exit code
      | Inr True \<Rightarrow> Exit (healthcheck getenv get)
      | Inr False \<Rightarrow>
          (case buildServer getenv of
             Inl e \<Rightarrow> Exit 1
           | Inr sv \<Rightarrow> if fails sv then Exit 1 else Serving sv))"

end
