(* ===== verification/Refresh_Properties.thy ===== *)
theory Refresh_Properties
  imports Refresh Usage_Properties
begin

text \<open>
  When balances are fetched: the two throttles share one contract, and the warm-up ends.
\<close>

section \<open>Throttles\<close>

text \<open>The clock readings of the turns that started a job, and what it means that two are apart.\<close>

fun turnStarts :: "('op \<Rightarrow> 's \<Rightarrow> bool \<times> 's) \<Rightarrow> ('op \<Rightarrow> gotime \<times> gotime) \<Rightarrow> 'op list \<Rightarrow> 's \<Rightarrow> (gotime \<times> gotime) list" where
  "turnStarts turn clk [] s = []"
| "turnStarts turn clk (x # xs) s =
     (case turn x s of (b, s') \<Rightarrow> (if b then [clk x] else []) @ turnStarts turn clk xs s')"

definition apart :: "duration \<Rightarrow> gotime \<times> gotime \<Rightarrow> gotime \<times> gotime \<Rightarrow> bool" where
  "apart d a b \<longleftrightarrow> isZero (snd a) \<or> d \<le> timeSub (fst b) (snd a)"

text \<open>
  A turn may start a job; it checks the clock and stamps it. \<open>clk\<close> gives the two readings,
  \<open>stamped\<close> the last stamp.
\<close>

locale throttle =
  fixes turn :: "'op \<Rightarrow> 's \<Rightarrow> bool \<times> 's"
    and clk :: "'op \<Rightarrow> gotime \<times> gotime"
    and stamped :: "'s \<Rightarrow> gotime"
    and interval :: "'s \<Rightarrow> duration"
    and ok :: "'s \<Rightarrow> bool"
  assumes turn_ok: "ok s \<Longrightarrow> turn x s = (b, s') \<Longrightarrow> ok s' \<and> interval s' = interval s"
    and turn_starts: "ok s \<Longrightarrow> turn x s = (True, s') \<Longrightarrow>
      (isZero (stamped s) \<or> interval s \<le> timeSub (fst (clk x)) (stamped s)) \<and> stamped s' = snd (clk x)"
    and turn_idle: "ok s \<Longrightarrow> turn x s = (False, s') \<Longrightarrow> stamped s' = stamped s"
begin

lemma starts_spaced:
  "ok s \<Longrightarrow> interval s = d \<Longrightarrow> successively (apart d) ((t0, stamped s) # turnStarts turn clk xs s)"
proof (induction xs arbitrary: s t0)
  case (Cons x xs)
  obtain b s' where t: "turn x s = (b, s')" by (cases "turn x s")
  note k = turn_ok [OF Cons.prems(1) t]
  show ?case
  proof (cases b)
    case True
    then have ts: "turn x s = (True, s')" using t by simp
    note n = turn_starts [OF Cons.prems(1) ts]
    have "successively (apart d) ((fst (clk x), stamped s') # turnStarts turn clk xs s')"
      using Cons.IH [of s'] k Cons.prems(2) by simp
    moreover have "(fst (clk x), stamped s') = clk x" using n by (simp add: prod_eq_iff)
    moreover have "apart d (t0, stamped s) (clk x)" using n Cons.prems(2) by (auto simp: apart_def)
    ultimately show ?thesis using ts by (simp add: successively_Cons)
  next
    case False
    then have "stamped s' = stamped s" using turn_idle [OF Cons.prems(1)] t by auto
    then show ?thesis using Cons.IH [of s' t0] k t False Cons.prems(2) by simp
  qed
qed simp

end

definition refresher_ok :: "nat \<Rightarrow> refresher \<Rightarrow> bool" where
  "refresher_ok k r \<longleftrightarrow> k < length (rkeys r) \<and> length (lastLow r) = length (rkeys r) \<and>
     length (lastDaily r) = length (rkeys r)"

text \<open>One served response: the key, the two clock readings and the pool at that moment.\<close>

record lowCall =
  lcKey :: nat
  lcTimes :: "gotime \<times> gotime"
  lcPool :: key_pool

definition lowTurn :: "Profile \<Rightarrow> nat \<Rightarrow> lowCall \<Rightarrow> refresher \<Rightarrow> bool \<times> refresher" where
  "lowTurn p k c r =
     (case MaybeRefreshLow p (int (lcKey c)) (fst (lcTimes c)) (snd (lcTimes c)) (lcPool c) (Some r) of
        (Some r', j) \<Rightarrow> (j = Some [int k], r')
      | (None, j) \<Rightarrow> (False, r))"

interpretation low: throttle "lowTurn p k" lcTimes "\<lambda>r. lastLow r ! k" lowInterval "refresher_ok k" for p k
  by unfold_locales
    (auto simp: lowTurn_def MaybeRefreshLow_def refresher_ok_def Let_def nth_list_update split: if_splits)

definition cadenceTurn :: "nat \<Rightarrow> gotime \<Rightarrow> refresher \<Rightarrow> bool \<times> refresher" where
  "cadenceTurn k now r = (case DailyRefresh now (Some r) of
     (Some r', js) \<Rightarrow> ([int k] \<in> set js, r') | (None, js) \<Rightarrow> (False, r))"

definition dueNow :: "gotime \<Rightarrow> nat \<Rightarrow> refresher \<Rightarrow> bool" where
  "dueNow now k r \<longleftrightarrow> isZero (lastDaily r ! k) \<or> dailyRefresh \<le> timeSub now (lastDaily r ! k)"

lemma dailyKey_frame:
  "length (lastDaily (fst (dailyKey now i w))) = length (lastDaily (fst w))"
  "rkeys (fst (dailyKey now i w)) = rkeys (fst w)" "lastLow (fst (dailyKey now i w)) = lastLow (fst w)"
  by (auto simp: dailyKey_def Let_def split: prod.split)

lemma dailyKey_other: "i \<noteq> k \<Longrightarrow> lastDaily (fst (dailyKey now i w)) ! k = lastDaily (fst w) ! k \<and>
    ([int k] \<in> set (snd (dailyKey now i w)) \<longleftrightarrow> [int k] \<in> set (snd w))"
  by (auto simp: dailyKey_def Let_def split: prod.split)

lemma dailyKey_self: "k < length (lastDaily (fst w)) \<Longrightarrow>
    lastDaily (fst (dailyKey now k w)) ! k = (if dueNow now k (fst w) then now else lastDaily (fst w) ! k) \<and>
    ([int k] \<in> set (snd (dailyKey now k w)) \<longleftrightarrow> [int k] \<in> set (snd w) \<or> dueNow now k (fst w))"
  by (auto simp: dailyKey_def dueNow_def Let_def not_le split: prod.split)

lemma daily_frame:
  "length (lastDaily (fst (fold (dailyKey now) is w))) = length (lastDaily (fst w))"
  "rkeys (fst (fold (dailyKey now) is w)) = rkeys (fst w)" "lastLow (fst (fold (dailyKey now) is w)) = lastLow (fst w)"
  by (induction "is" arbitrary: w) (simp_all add: dailyKey_frame)

lemma daily_skip: "k \<notin> set is \<Longrightarrow> lastDaily (fst (fold (dailyKey now) is w)) ! k = lastDaily (fst w) ! k \<and>
    ([int k] \<in> set (snd (fold (dailyKey now) is w)) \<longleftrightarrow> [int k] \<in> set (snd w))"
  by (induction "is" arbitrary: w) (simp_all add: dailyKey_other)

lemma daily_upto:
  "k < n \<Longrightarrow> k < length (lastDaily (fst w)) \<Longrightarrow>
    lastDaily (fst (fold (dailyKey now) [0..<n] w)) ! k = (if dueNow now k (fst w) then now else lastDaily (fst w) ! k) \<and>
    ([int k] \<in> set (snd (fold (dailyKey now) [0..<n] w)) \<longleftrightarrow> [int k] \<in> set (snd w) \<or> dueNow now k (fst w))"
proof (induction n)
  case (Suc n)
  let ?v = "fold (dailyKey now) [0..<n] w"
  show ?case
  proof (cases "k = n")
    case True
    have "lastDaily (fst ?v) ! k = lastDaily (fst w) ! k \<and> ([int k] \<in> set (snd ?v) \<longleftrightarrow> [int k] \<in> set (snd w))"
      by (rule daily_skip) (use True in simp)
    moreover have "k < length (lastDaily (fst ?v))" using Suc.prems daily_frame by simp
    ultimately show ?thesis using dailyKey_self [of k ?v now] True by (simp add: dueNow_def)
  next
    case False
    then show ?thesis using Suc dailyKey_other [of n k now ?v] by simp
  qed
qed simp

lemma DailyRefresh_turn:
  assumes "refresher_ok k r" and "cadenceTurn k now r = (b, r')"
  shows "refresher_ok k r' \<and>
    b = (isZero (lastDaily r ! k) \<or> dailyRefresh \<le> timeSub now (lastDaily r ! k)) \<and>
    lastDaily r' ! k = (if b then now else lastDaily r ! k)"
proof -
  define w where "w = fold (dailyKey now) [0..<length (rkeys r)] (r, [])"
  have k: "k < length (rkeys r)" "length (lastDaily r) = length (rkeys r)" "length (lastLow r) = length (rkeys r)"
    using assms(1) by (auto simp: refresher_ok_def)
  have "b = ([int k] \<in> set (snd w))" "r' = fst w"
    using assms(2) by (auto simp: cadenceTurn_def DailyRefresh_def w_def split: prod.splits)
  then show ?thesis
    using daily_upto [of k "length (rkeys r)" "(r, [])" now] daily_frame [of now "[0..<length (rkeys r)]" "(r, [])"] k
    by (auto simp: refresher_ok_def dueNow_def w_def)
qed

interpretation daily: throttle "cadenceTurn k" "\<lambda>now. (now, now)" "\<lambda>r. lastDaily r ! k" "\<lambda>r. dailyRefresh" "refresher_ok k" for k
  by unfold_locales (use DailyRefresh_turn in \<open>force+\<close>)

text \<open>
  However many responses are served on a low balance, and with whatever keys in between, the
  refreshes that \<open>MaybeRefreshLow\<close> starts for one key are at least the configured interval apart,
  measured from the stamp of one to the check of the next.
\<close>

theorem low_refresh_throttled:
  assumes "refresher_ok k r" and "lowInterval r = d"
  shows "successively (apart d) (turnStarts (lowTurn p k) lcTimes calls r)"
  using low.starts_spaced [OF assms, of undefined p calls] by (cases "turnStarts (lowTurn p k) lcTimes calls r") auto

text \<open>
  However often the ticker pokes it, the daily pass refreshes a key at most once in 24 hours.
\<close>

theorem daily_refresh_cadence:
  assumes "refresher_ok k r"
  shows "successively (apart dailyRefresh) (turnStarts (cadenceTurn k) (\<lambda>now. (now, now)) ticks r)"
  using daily.starts_spaced [OF assms refl, of undefined ticks] by (cases "turnStarts (cadenceTurn k) (\<lambda>now. (now, now)) ticks r") auto

text \<open>Three calls a minute apart, with an interval of 100 seconds: the second is held back.\<close>

definition demoRefresher :: refresher where
  "demoRefresher = \<lparr>rkeys = [''k0'', ''k1''], lowInterval = 100 * Second,
     lastLow = [zeroTime, zeroTime], lastDaily = [zeroTime, zeroTime]\<rparr>"

definition demoCall :: "gotime \<Rightarrow> lowCall" where
  "demoCall t = \<lparr>lcKey = 1, lcTimes = (t, t), lcPool = SetCredits 1 50 (NewKeyPool [''k0'', ''k1''])\<rparr>"

theorem low_refresh_throttled_witness:
  "successively (apart (100 * Second)) (turnStarts (lowTurn fcDemo 1) lcTimes
     (map demoCall [goDate 2026 1 1, goDate 2026 1 1 + 60 * Second, goDate 2026 1 1 + 120 * Second]) demoRefresher) \<and>
   length (turnStarts (lowTurn fcDemo 1) lcTimes
     (map demoCall [goDate 2026 1 1, goDate 2026 1 1 + 60 * Second, goDate 2026 1 1 + 120 * Second]) demoRefresher) = 2"
proof (rule conjI)
  show "successively (apart (100 * Second)) (turnStarts (lowTurn fcDemo 1) lcTimes
     (map demoCall [goDate 2026 1 1, goDate 2026 1 1 + 60 * Second, goDate 2026 1 1 + 120 * Second]) demoRefresher)"
    by (rule low_refresh_throttled) (simp_all add: demoRefresher_def refresher_ok_def)
qed code_simp

theorem daily_refresh_cadence_witness:
  "turnStarts (cadenceTurn 1) (\<lambda>now. (now, now)) [goDate 2026 1 1, goDate 2026 1 1 + 23 * Hour, goDate 2026 1 2] demoRefresher
     = map (\<lambda>t. (t, t)) [goDate 2026 1 1, goDate 2026 1 2] \<and>
   successively (apart dailyRefresh) (turnStarts (cadenceTurn 1) (\<lambda>now. (now, now))
     [goDate 2026 1 1, goDate 2026 1 1 + 23 * Hour, goDate 2026 1 2] demoRefresher)"
proof (rule conjI)
  show "successively (apart dailyRefresh) (turnStarts (cadenceTurn 1) (\<lambda>now. (now, now))
     [goDate 2026 1 1, goDate 2026 1 1 + 23 * Hour, goDate 2026 1 2] demoRefresher)"
    by (rule daily_refresh_cadence) (simp add: demoRefresher_def refresher_ok_def)
qed code_simp

section \<open>The warm-up ends\<close>

definition unmeasuredCount :: "key_pool \<Rightarrow> int" where
  "unmeasuredCount pool = int (length (filter (\<lambda>k. sRemainingCredits k < 0) (Keys (Snapshot pool))))"

text \<open>From call \<open>N\<close> on, every usage fetch returns a balance (one that is not the marker of "unmeasured").\<close>

definition usageServedFrom :: "network \<Rightarrow> Profile \<Rightarrow> string list \<Rightarrow> nat \<Rightarrow> bool" where
  "usageServedFrom net p ks N \<longleftrightarrow> (\<forall>key\<in>set ks. \<forall>sent. N \<le> length sent \<longrightarrow>
     isOk (fst (fetchUsageFor net p key sent)) \<and> remaining (fst (fetchUsageFor net p key sent)) < MaxInt64)"

definition warm_ok :: "refresher \<Rightarrow> key_pool \<Rightarrow> bool" where
  "warm_ok r pool \<longleftrightarrow> rkeys r = keys pool \<and> pool_wf pool"

lemma unmeasuredCount_zero:
  assumes "pool_wf pool"
  shows "unmeasuredCount pool = 0 \<longleftrightarrow> (\<forall>i<length (keys pool). remainingCredits pool ! i < MaxInt64)"
proof -
  have "sRemainingCredits (snapshotKey pool i) < 0 \<longleftrightarrow> \<not> remainingCredits pool ! i < MaxInt64"
    if "i < length (keys pool)" for i
    using pool_wf_credits [OF assms that] by (auto simp: snapshotKey_def)
  then show ?thesis by (auto simp: unmeasuredCount_def Snapshot_def filter_empty_conv)
qed

text \<open>A fetch that returns a balance has made a call.\<close>

lemma served_calls:
  assumes "usageServedFrom net p ks N" and "key \<in> set ks"
  shows "length sent < length (snd (fetchUsageFor net p key sent))"
proof -
  define sent0 :: "request list" where "sent0 = replicate N undefined"
  have ok: "isOk (fst (fetchUsageFor net p key sent0))" using assms by (auto simp: usageServedFrom_def sent0_def)
  then have na: "\<not> accountedProfile p" using usage_fetch_none by (auto simp: zeroUsage_def)
  have "usageQuery p key \<noteq> None"
  proof
    assume "usageQuery p key = None"
    from any.unbuilt_ends [OF this] show False
      using ok fetchUsageFor_loop [OF na, of net key sent0] by (simp add: zeroUsage_def)
  qed
  then show ?thesis using fetch_traffic [of net p key sent] na by (auto simp: traffic_def)
qed

lemma fetch_grows: "length sent \<le> length (snd (fetchUsageFor net p key sent))"
  using fetch_traffic [of net p key sent] by auto

lemma refreshOne_effect:
  assumes "warm_ok r pool" and "i < length (keys pool)"
    and "refreshOne net p now (int i) (r, pool, sent) = (r', pool', sent')"
  shows "warm_ok r' pool' \<and> keys pool' = keys pool \<and> length sent \<le> length sent' \<and>
      (usageServedFrom net p (keys pool) N \<longrightarrow> length sent < length sent')"
    and "usageServedFrom net p (keys pool) N \<Longrightarrow> N \<le> length sent \<Longrightarrow>
      remainingCredits pool' ! i < MaxInt64 \<and>
      (\<forall>j<length (keys pool). remainingCredits pool ! j < MaxInt64 \<longrightarrow> remainingCredits pool' ! j < MaxInt64)"
proof -
  let ?f = "fetchUsageFor net p (rkeys r ! i) sent"
  have i: "i < length (rkeys r)" "rkeys r ! i \<in> set (keys pool)" and wf: "pool_wf pool"
    using assms by (auto simp: warm_ok_def)
  have sent': "sent' = snd ?f" and pool': "pool' = (if isOk (fst ?f) then SetCredits (int i) (remaining (fst ?f)) pool else pool)"
    and r': "rkeys r' = rkeys r"
    using assms(3) i(1) by (auto simp: refreshOne_def refreshKey_def split: prod.splits if_splits)
  have rng: "remaining (fst ?f) \<le> MaxInt64"
    using fetched_balance_range [of net p "rkeys r ! i" sent] by (simp add: in64_def)
  have "pool_wf pool'" using wf rng by (simp add: pool' SetCredits_wf)
  moreover have "keys pool' = keys pool" by (simp add: pool' SetCredits_def)
  moreover have "length sent \<le> length sent' \<and> (usageServedFrom net p (keys pool) N \<longrightarrow> length sent < length sent')"
    using fetch_grows [of sent net p "rkeys r ! i"] served_calls [OF _ i(2), of net p N sent] by (auto simp: sent')
  ultimately show "warm_ok r' pool' \<and> keys pool' = keys pool \<and> length sent \<le> length sent' \<and>
      (usageServedFrom net p (keys pool) N \<longrightarrow> length sent < length sent')"
    using assms(1) r' by (simp add: warm_ok_def)
  assume s: "usageServedFrom net p (keys pool) N" "N \<le> length sent"
  then have "isOk (fst ?f)" "remaining (fst ?f) < MaxInt64" using i(2) by (auto simp: usageServedFrom_def)
  then show "remainingCredits pool' ! i < MaxInt64 \<and>
      (\<forall>j<length (keys pool). remainingCredits pool ! j < MaxInt64 \<longrightarrow> remainingCredits pool' ! j < MaxInt64)"
    using assms(2) pool_wf_lengths [OF wf] by (auto simp: pool' SetCredits_def nth_list_update)
qed

lemma refresh_fold:
  assumes "warm_ok r pool" and "\<forall>i\<in>set is. i < length (keys pool)"
    and "fold (refreshOne net p now) (map int is) (r, pool, sent) = (r', pool', sent')"
  shows "warm_ok r' pool' \<and> keys pool' = keys pool \<and> length sent \<le> length sent' \<and>
    (usageServedFrom net p (keys pool) N \<longrightarrow> length sent + length is \<le> length sent') \<and>
    (usageServedFrom net p (keys pool) N \<and> N \<le> length sent \<longrightarrow>
      (\<forall>i<length (keys pool). i \<in> set is \<or> remainingCredits pool ! i < MaxInt64 \<longrightarrow> remainingCredits pool' ! i < MaxInt64))"
  using assms
proof (induction "is" arbitrary: r pool sent)
  case (Cons i "is")
  obtain r1 pool1 sent1 where s: "refreshOne net p now (int i) (r, pool, sent) = (r1, pool1, sent1)" by (metis prod_cases3)
  have i: "i < length (keys pool)" using Cons.prems by simp
  note e = refreshOne_effect [OF Cons.prems(1) i s]
  have f: "fold (refreshOne net p now) (map int is) (r1, pool1, sent1) = (r', pool', sent')"
    using Cons.prems s by simp
  have "\<forall>j\<in>set is. j < length (keys pool1)" using e(1) [of N] Cons.prems(2) by simp
  note IH = Cons.IH [OF _ this f]
  show ?case
  proof (intro conjI impI allI)
    fix j assume h: "usageServedFrom net p (keys pool) N \<and> N \<le> length sent" "j < length (keys pool)"
      "j \<in> set (i # is) \<or> remainingCredits pool ! j < MaxInt64"
    then have "j \<in> set is \<or> remainingCredits pool1 ! j < MaxInt64" using e(2) by auto
    then show "remainingCredits pool' ! j < MaxInt64" using IH e(1) [of N] h by (elim disjE) simp_all
  qed (use IH e(1) [of N] in auto)
qed simp

definition allKeysOrder :: "key_pool \<Rightarrow> nat list \<Rightarrow> bool" where
  "allKeysOrder pool order \<longleftrightarrow> set order = {..<length (keys pool)}"

lemma RefreshAll_effect:
  assumes "warm_ok r pool" and "allKeysOrder pool order"
    and "RefreshAll net p now order (Some r, pool, sent) = (u, ro, pool', sent')"
  shows "\<exists>r'. ro = Some r' \<and> warm_ok r' pool' \<and> keys pool' = keys pool \<and> u = unmeasuredCount pool' \<and>
    (keys pool \<noteq> [] \<and> usageServedFrom net p (keys pool) N \<longrightarrow> length sent < length sent') \<and>
    (usageServedFrom net p (keys pool) N \<and> N \<le> length sent \<longrightarrow> u = 0)"
proof -
  let ?r1 = "r\<lparr>lastDaily := replicate (length (rkeys r)) now\<rparr>"
  obtain r' where f: "fold (refreshOne net p now) (map int order) (?r1, pool, sent) = (r', pool', sent')"
    and u: "u = unmeasuredCount pool'" "ro = Some r'"
    using assms(3) by (auto simp: RefreshAll_def unmeasuredCount_def Let_def split: prod.splits)
  have "warm_ok ?r1 pool" using assms(1) by (simp add: warm_ok_def)
  moreover have "\<forall>i\<in>set order. i < length (keys pool)" using assms(2) by (auto simp: allKeysOrder_def)
  ultimately have e: "warm_ok r' pool' \<and> keys pool' = keys pool \<and> length sent \<le> length sent' \<and>
    (usageServedFrom net p (keys pool) N \<longrightarrow> length sent + length order \<le> length sent') \<and>
    (usageServedFrom net p (keys pool) N \<and> N \<le> length sent \<longrightarrow>
      (\<forall>i<length (keys pool). i \<in> set order \<or> remainingCredits pool ! i < MaxInt64 \<longrightarrow> remainingCredits pool' ! i < MaxInt64))"
    by (rule refresh_fold [OF _ _ f])
  have "keys pool = [] \<or> 0 < length order" using assms(2) by (cases order) (auto simp: allKeysOrder_def)
  with e have "keys pool \<noteq> [] \<and> usageServedFrom net p (keys pool) N \<longrightarrow> length sent < length sent'" by linarith
  moreover have "u = 0" if "usageServedFrom net p (keys pool) N \<and> N \<le> length sent"
  proof -
    have "\<forall>i<length (keys pool'). remainingCredits pool' ! i < MaxInt64"
      using e that assms(2) by (simp add: allKeysOrder_def)
    then show ?thesis using unmeasuredCount_zero [of pool'] e u by (simp add: warm_ok_def)
  qed
  ultimately show ?thesis using e u by blast
qed

text \<open>
  C31: The warm-up ends: if from some call on the usage endpoint answers every key, the loop returns, and
  then every key is measured, whatever the order in which each pass's goroutines finish and however
  many passes have failed before.
\<close>

theorem warmup_terminates:
  assumes "warm_ok r pool" and "\<forall>k. allKeysOrder pool (order k)" and "usageServedFrom net p (keys pool) N"
  shows "\<exists>k ro pool' sent'. warmupLoop net p now order (Some r, pool, sent) = Some (k, ro, pool', sent') \<and>
    keys pool' = keys pool \<and> (\<forall>i<length (keys pool). remainingCredits pool' ! i < MaxInt64)"
proof -
  have "\<exists>k' ro pool' sent'. warmupFrom net p now order k (Some r1, pool1, sent1) = Some (k', ro, pool', sent') \<and>
      keys pool' = keys pool \<and> (\<forall>i<length (keys pool). remainingCredits pool' ! i < MaxInt64)"
    if "warm_ok r1 pool1" "keys pool1 = keys pool" for k r1 pool1 sent1
    using that
  proof (induction "N - length sent1" arbitrary: k r1 pool1 sent1 rule: less_induct)
    case less
    obtain u ro pool2 sent2 where s: "RefreshAll net p (now k) (order k) (Some r1, pool1, sent1) = (u, ro, pool2, sent2)"
      by (metis prod_cases4)
    have "allKeysOrder pool1 (order k)" using assms(2) less.prems by (simp add: allKeysOrder_def)
    from RefreshAll_effect [OF less.prems(1) this s, of N] obtain r2 where
      e: "ro = Some r2" "warm_ok r2 pool2" "keys pool2 = keys pool" "u = unmeasuredCount pool2"
        "keys pool \<noteq> [] \<longrightarrow> length sent1 < length sent2" "N \<le> length sent1 \<longrightarrow> u = 0"
      using less.prems assms(3) by auto
    show ?case
    proof (cases "u = 0")
      case True
      then show ?thesis
        using s e unmeasuredCount_zero [of pool2] by (subst warmupFrom.simps) (auto simp: warm_ok_def)
    next
      case False
      then have "keys pool \<noteq> []" using e by (auto simp: unmeasuredCount_def Snapshot_def)
      then have "N - length sent2 < N - length sent1" using e False by auto
      from less.hyps [OF this e(2,3), of "Suc k"] show ?thesis
        using s e False by (subst warmupFrom.simps) simp
    qed
  qed
  from this [OF assms(1) refl] show ?thesis by (simp add: warmupLoop_def)
qed

lemma flaky_served: "usageServedFrom flakyNet fcDemo [''k0'', ''k1''] 2"
proof -
  have q: "\<forall>key\<in>{''k0'', ''k1''}. usageRequest (''https://api.firecrawl.dev'' @ ''/v2/team/credit-usage'') key \<noteq> None"
    by code_simp
  have len: "length creditReply = 49" by code_simp
  have na: "\<not> accountedProfile fcDemo" by (simp add: fcDemo_def accountedProfile_def isDailyCappedFinance_def)
  have "fst (usageStep flakyNet fcDemo key sent) = (zeroUsage\<lparr>remaining := 1234, isOk := True\<rparr>, [])"
    if "key \<in> {''k0'', ''k1''}" "2 \<le> length sent" for key sent
    using bspec [OF q that(1)] that(2) len
    by (auto simp: usageStep_def fcDemo_def fetchUsageOnce_def usageCall_def usageAnswer_def flakyNet_def readLimited_def creditReply_usage)
  note step = this
  have "fst (fetchUsageFor flakyNet fcDemo key sent) = zeroUsage\<lparr>remaining := 1234, isOk := True\<rparr>"
    if "key \<in> {''k0'', ''k1''}" "2 \<le> length sent" for key sent
  proof -
    note step [OF that]
    then obtain x where "usageStep flakyNet fcDemo key sent = ((zeroUsage\<lparr>remaining := 1234, isOk := True\<rparr>, []), x)"
      by (metis prod.collapse)
    then show ?thesis unfolding fetchUsageFor_loop [OF na] by (subst fetchLoop.simps) simp
  qed
  then show ?thesis by (auto simp: usageServedFrom_def)
qed

theorem warmup_terminates_witness:
  "warmupLoop flakyNet fcDemo (\<lambda>_. goDate 2026 1 1) (\<lambda>_. [1, 0])
     (Some demoRefresher, NewKeyPool [''k0'', ''k1''], []) \<noteq> None"
proof -
  have "warm_ok demoRefresher (NewKeyPool [''k0'', ''k1''])"
    by (simp add: warm_ok_def demoRefresher_def NewKeyPool_wf) (simp add: NewKeyPool_def)
  moreover have "\<forall>k. allKeysOrder (NewKeyPool [''k0'', ''k1'']) ((\<lambda>_::nat. [1, 0]) k)"
    by (auto simp: allKeysOrder_def NewKeyPool_def)
  moreover have "usageServedFrom flakyNet fcDemo (keys (NewKeyPool [''k0'', ''k1''])) 2"
    using flaky_served by (simp add: NewKeyPool_def)
  ultimately show ?thesis
    using warmup_terminates [of demoRefresher "NewKeyPool [''k0'', ''k1'']" "\<lambda>_. [1, 0]" flakyNet fcDemo 2
        "\<lambda>_. goDate 2026 1 1" "[]"] by auto
qed

end
