(* ===== verification/Proxy_Laws.thy ===== *)
theory Proxy_Laws
  imports Proxy Refresh_Properties Pool_Properties
begin

text \<open>
  How a step of a request relates the world before it to the world after it. A relation that is
  reflexive and transitive and contains the handler's elementary writes contains the whole handler;
  this is proved once, in \<open>handler_relation\<close> and its extensions, and used for several relations: the pool
  stays well formed and configured, the slots in use stay balanced, the traces grow only by requests
  built for the profile.
\<close>

section \<open>Computations that keep a relation\<close>

named_theorems keeps \<open>a computation keeps a relation on worlds\<close>

locale world_relation =
  fixes R :: "world \<Rightarrow> world \<Rightarrow> bool"
  assumes R_refl: "R w w"
    and R_trans: "R a b \<Longrightarrow> R b c \<Longrightarrow> R a c"
begin

lemma keeps_return: "state_io_rel R (State_Monad.return a)"
  by (simp add: state_io_rel_def R_refl)

lemma keeps_bind: "state_io_rel R m \<Longrightarrow> (\<And>a. state_io_rel R (f a)) \<Longrightarrow> state_io_rel R (State_Monad.bind m f)"
  unfolding state_io_rel_def by (auto split: prod.split) (metis R_trans snd_conv)

lemma keeps_bind_with:
  "state_io_rel R m \<Longrightarrow> (\<And>a w w'. run_state m w = (a, w') \<Longrightarrow> state_io_rel R (f a)) \<Longrightarrow> state_io_rel R (State_Monad.bind m f)"
  unfolding state_io_rel_def by (auto split: prod.split) (metis R_trans prod.collapse snd_conv)

text \<open>What is known of a result where the relation is not trivial.\<close>

lemma keeps_bind_live:
  assumes "state_io_rel R m"
    and "\<And>a w w' v. \<not> R w v \<Longrightarrow> run_state m w = (a, w') \<Longrightarrow> state_io_rel R (f a)"
  shows "state_io_rel R (State_Monad.bind m f)"
proof (rule state_io_relI)
  fix b w w' assume run: "run_state (State_Monad.bind m f) w = (b, w')"
  obtain a w1 where m: "run_state m w = (a, w1)" by (metis surj_pair)
  then have "run_state (f a) w1 = (b, w')" using run by simp
  then show "R w w'" using assms(2) [OF _ m] assms(1) m R_trans by blast
qed

lemma keeps_if: "(b \<Longrightarrow> state_io_rel R m) \<Longrightarrow> (\<not> b \<Longrightarrow> state_io_rel R m') \<Longrightarrow> state_io_rel R (if b then m else m')"
  by simp

lemma keeps_foldl: "(\<And>w x. x \<in> set xs \<Longrightarrow> R w (f w x)) \<Longrightarrow> R w (foldl f w xs)"
  by (induction xs arbitrary: w) (auto intro: R_refl R_trans)

end

section \<open>What the other goroutines may do\<close>

definition env_ok :: "(pool_op \<Rightarrow> bool) \<Rightarrow> env \<Rightarrow> bool" where
  "env_ok A env \<longleftrightarrow> (\<forall>k. list_all A (others_at env k) \<and> list_all (\<lambda>e. list_all A (fst e)) (waits_at env k))"

abbreviation onlyPool :: "key_pool \<Rightarrow> world \<Rightarrow> world" where
  "onlyPool pool w \<equiv> w\<lparr>wpool := pool\<rparr>"

lemma settle_same: "wcalls (settle env w) = wcalls w" "wsent (settle env w) = wsent w" "wjobs (settle env w) = wjobs w"
  "wlogger (settle env w) = wlogger w" "wlog (settle env w) = wlog w"
  by (simp_all add: settle_def)

text \<open>What a refresh and a disabling add to the trace: at most four times the key's usage request.\<close>

lemma refreshOne_trace:
  assumes "refreshOne net p now idx (r, pool, sent) = (r', pool', sent')"
  shows "\<exists>k\<le>4. sent' = sent @ traffic (usageQuery p (rkeys r ! nat idx)) k \<and>
    (k \<noteq> 0 \<longrightarrow> \<not> accountedProfile p \<and> rkeys r ! nat idx \<in> set (rkeys r))"
proof (cases "idx < 0 \<or> int (length (rkeys r)) \<le> idx")
  case True
  then show ?thesis using assms by (intro exI [of _ 0]) (simp add: refreshOne_def traffic_def split: option.split)
next
  case False
  then have "sent' = snd (fetchUsageFor net p (rkeys r ! nat idx) sent)"
    using assms by (auto simp: refreshOne_def refreshKey_def split: prod.splits if_splits)
  then show ?thesis using fetch_traffic [of net p "rkeys r ! nat idx" sent] False by auto
qed

lemma disable_trace:
  assumes "disableUntilReset net p idx key now (pool, sent) = (pool', sent')"
  shows "\<exists>k\<le>4. sent' = sent @ traffic (usageQuery p key) k \<and> (k \<noteq> 0 \<longrightarrow> \<not> accountedProfile p)"
proof (cases "hasPeriodEnd (Name p)")
  case True
  then have "sent' = snd (fetchUsageFor net p key sent)"
    using assms by (auto simp: disableUntilReset_def split: prod.splits)
  then show ?thesis using fetch_traffic [of net p key sent] by auto
next
  case False
  then show ?thesis using assms by (intro exI [of _ 0]) (simp add: disableUntilReset_def traffic_def split: option.split)
qed

locale handler_relation = world_relation R for R +
  fixes A :: "pool_op \<Rightarrow> bool"
  assumes quiet_allowed: "\<not> slotOp x \<Longrightarrow> A x"
    and op_law: "A x \<Longrightarrow> R w (onlyPool (exec_op (wpool w) x) w)"
    and charge_law: "R w (onlyPool (Decrement i c (wpool w)) w)"
    and credit_law: "c \<le> MaxInt64 \<Longrightarrow> R w (onlyPool (SetCredits i c (wpool w)) w)"
    and token_law: "R w (onlyPool ((wpool w)\<lparr>slotFree := False\<rparr>) w)"
    and refresh_law: "map_option rkeys ro = map_option rkeys (wrefresh w) \<Longrightarrow> R w (w\<lparr>wrefresh := ro\<rparr>)"
    and clock_law: "wtick w \<le> k \<Longrightarrow> R w (w\<lparr>wtick := k\<rparr>)"
    and job_law: "R w (w\<lparr>wjobs := js\<rparr>)"
begin

lemma pool_same: "R w (onlyPool (wpool w) w)"
  using R_refl [of w] by simp

lemma run_law: "list_all A xs \<Longrightarrow> R w (onlyPool (run_pool xs (wpool w)) w)"
proof (induction xs arbitrary: w)
  case (Cons x xs)
  let ?v = "onlyPool (exec_op (wpool w) x) w"
  have "R ?v (onlyPool (run_pool xs (wpool ?v)) ?v)" by (rule Cons.IH) (use Cons.prems in simp)
  then show ?case using op_law [of x w] Cons.prems by (auto intro: R_trans)
qed (simp add: R_refl)

lemma settle_law: "env_ok A env \<Longrightarrow> R w (settle env w)"
proof -
  assume e: "env_ok A env"
  let ?w1 = "onlyPool (run_pool (others_at env (wtick w)) (wpool w)) w"
  let ?ro = "map_option (\<lambda>r. foldl putStamp r (stamps_at env (wtick w))) (wrefresh w)"
  have st: "rkeys (foldl putStamp r xs) = rkeys r" for r xs
  proof (induction xs arbitrary: r)
    case (Cons x xs)
    then show ?case by (cases x) simp_all
  qed simp
  have "R w ?w1" using e by (intro run_law) (simp add: env_ok_def)
  moreover have "R ?w1 (?w1\<lparr>wrefresh := ?ro\<rparr>)" by (rule refresh_law) (simp add: option.map_comp o_def st)
  moreover have "R (?w1\<lparr>wrefresh := ?ro\<rparr>) ((?w1\<lparr>wrefresh := ?ro\<rparr>)\<lparr>wtick := Suc (wtick w)\<rparr>)" by (rule clock_law) simp
  ultimately show ?thesis by (auto simp: settle_def intro: R_trans)
qed

lemma keeps_onPool:
  assumes "env_ok A env" and "\<And>now w. R w (onlyPool (snd (f now (wpool w))) w)"
  shows "state_io_rel R (onPool env f)"
  unfolding state_io_rel_def onPool_def
  using settle_law [OF assms(1)] assms(2) by (auto simp: Let_def split: prod.split intro: R_trans) (metis R_trans snd_conv)

lemma keeps_updPool:
  "env_ok A env \<Longrightarrow> (\<And>w. R w (onlyPool (f (wpool w)) w)) \<Longrightarrow> state_io_rel R (updPool env f)"
  unfolding updPool_def by (rule keeps_onPool) simp_all

lemma keeps_clock: "env_ok A env \<Longrightarrow> state_io_rel R (clock env)"
  by (simp add: state_io_rel_def clock_def settle_law)

lemma keeps_gone: "env_ok A env \<Longrightarrow> state_io_rel R (gone env)"
  by (simp add: state_io_rel_def gone_def settle_law)

lemma keeps_startJob: "state_io_rel R (startJob f)"
  by (simp add: state_io_rel_def startJob_def job_law R_refl split: option.split)

lemma wait_law: "list_all (\<lambda>e. list_all A (fst e)) evs \<Longrightarrow> R w (onlyPool (snd (waitLoop evs (wpool w))) w)"
proof (induction evs arbitrary: w)
  case Nil
  then show ?case by (subst waitLoop.simps) (simp add: R_refl)
next
  case (Cons e es)
  obtain ops x where e: "e = (ops, x)" by (cases e)
  let ?v = "onlyPool (run_pool ops (wpool w)) w"
  let ?u = "onlyPool ((wpool ?v)\<lparr>slotFree := False\<rparr>) ?v"
  have v: "R w ?v" using Cons.prems e by (intro run_law) simp
  have u: "R ?v ?u" by (rule token_law)
  have "R ?u (onlyPool (snd (waitLoop es (wpool ?u))) ?u)" by (rule Cons.IH) (use Cons.prems in simp)
  with v u have "R w (onlyPool (snd (waitLoop es ((run_pool ops (wpool w))\<lparr>slotFree := False\<rparr>))) w)"
    by (auto intro: R_trans)
  with v show ?case by (subst waitLoop.simps) (auto simp: e Let_def R_refl split: wakeup.split)
qed

lemma keeps_waitForSlot: "env_ok A env \<Longrightarrow> state_io_rel R (waitForSlot env timeout)"
proof -
  assume e: "env_ok A env"
  have "R w (onlyPool (snd (WaitForSlot (waits_at env k) timeout (wpool w))) w)" for k w
    using e wait_law [of "waits_at env k" w] by (auto simp: WaitForSlot_def env_ok_def R_refl)
  then show ?thesis
    unfolding state_io_rel_def waitForSlot_def
    using settle_law [OF e] by (auto simp: Let_def split: prod.split intro: R_trans) (metis R_trans snd_conv)
qed

text \<open>A step that settles and then writes the world through related intermediate worlds.\<close>

lemma settle_then: "env_ok A env \<Longrightarrow> R (settle env w) w' \<Longrightarrow> R w w'"
  using settle_law R_trans by blast

lemma refresh_pool_law:
  assumes "refreshOne net p now idx (r, wpool w, wcalls w) = (r', pool', sent')" and "wrefresh w = Some r"
  shows "R w (w\<lparr>wrefresh := Some r', wpool := pool'\<rparr>)"
proof -
  have r': "rkeys r' = rkeys r" and pool': "pool' = wpool w \<or> (\<exists>c. c \<le> MaxInt64 \<and> pool' = SetCredits idx c (wpool w))"
    using assms(1) fetched_balance_range [of net p "rkeys r ! nat idx" "wcalls w"]
    by (auto simp: refreshOne_def refreshKey_def in64_def split: prod.splits if_splits intro!: exI [of _ "remaining _"])
  let ?w1 = "w\<lparr>wrefresh := Some r'\<rparr>"
  have "R w ?w1" by (rule refresh_law) (simp add: assms(2) r')
  moreover have "R ?w1 (onlyPool pool' ?w1)" using pool' credit_law [of _ ?w1 idx] pool_same [of ?w1] by auto
  ultimately have "R w (onlyPool pool' ?w1)" by (rule R_trans)
  then show ?thesis by simp
qed

text \<open>The two operations of the handler that call the usage endpoint, given what a call does.\<close>

lemma measured_keeps:
  assumes e: "env_ok A env"
    and one: "\<And>w r now i r' pool' sent'. refreshOne (net_of env) p now i (r, wpool w, wcalls w) = (r', pool', sent') \<Longrightarrow>
      wrefresh w = Some r \<Longrightarrow> R w (w\<lparr>wrefresh := Some r', wpool := pool', wcalls := sent'\<rparr>)"
  shows "state_io_rel R (ensureMeasured env p idx)"
proof (rule state_io_relI)
  fix a :: unit and w w' assume run: "run_state (ensureMeasured env p idx) w = (a, w')"
  define w1 where "w1 = settle env w"
  define k where "k = wtick w1"
  obtain ro pool sent where m: "EnsureMeasured (net_of env) p (now_at env k) (others_at env k) idx (wrefresh w1, wpool w1, wcalls w1) = (ro, pool, sent)"
    by (metis prod_cases3)
  have w': "w' = w1\<lparr>wrefresh := ro, wpool := pool, wcalls := sent, wtick := Suc k\<rparr>"
    using run m by (simp add: ensureMeasured_def w1_def k_def Let_def)
  have "R w1 (w1\<lparr>wrefresh := ro, wpool := pool, wcalls := sent\<rparr>)"
  proof (cases "(ro, pool, sent) = (wrefresh w1, wpool w1, wcalls w1)")
    case True
    then show ?thesis by (simp add: R_refl)
  next
    case False
    then obtain r r' where r: "wrefresh w1 = Some r" "ro = Some r'"
      "refreshOne (net_of env) p (now_at env k) idx (r, run_pool (others_at env k) (wpool w1), wcalls w1) = (r', pool, sent)"
      using m by (auto simp: EnsureMeasured_def split: option.splits if_splits prod.splits)
    let ?v = "onlyPool (run_pool (others_at env k) (wpool w1)) w1"
    have "R w1 ?v" using e by (intro run_law) (simp add: env_ok_def)
    moreover have "R ?v (?v\<lparr>wrefresh := Some r', wpool := pool, wcalls := sent\<rparr>)"
      by (rule one [where r = r and now = "now_at env k" and i = idx]) (use r in simp_all)
    ultimately show ?thesis using r by (auto intro: R_trans)
  qed
  moreover have "R (w1\<lparr>wrefresh := ro, wpool := pool, wcalls := sent\<rparr>) w'" 
    using clock_law [of "w1\<lparr>wrefresh := ro, wpool := pool, wcalls := sent\<rparr>" "Suc k"] by (simp add: w' k_def)
  ultimately show "R w w'" using settle_then [OF e] by (auto simp: w1_def intro: R_trans)
qed

lemma disabled_keeps:
  assumes one: "\<And>w now t sent'. disableUntilReset (net_of env) p idx key now (wpool w, wcalls w) = (Disable idx t (wpool w), sent') \<Longrightarrow>
      R w (w\<lparr>wcalls := sent'\<rparr>)"
    and e: "env_ok A env"
  shows "state_io_rel R (disableKey env p idx key)"
proof (rule state_io_relI)
  fix a :: unit and w w' assume run: "run_state (disableKey env p idx key) w = (a, w')"
  define w1 where "w1 = settle env w"
  obtain t sent where d: "disableUntilReset (net_of env) p idx key (now_at env (wtick w)) (wpool w1, wcalls w1) = (Disable idx t (wpool w1), sent)"
    by (cases "fetchUsageFor (net_of env) p key (wcalls w1)"; cases "hasPeriodEnd (Name p)")
      (simp_all add: disableUntilReset_def)
  have "R w1 (w1\<lparr>wcalls := sent\<rparr>)" by (rule one [OF d])
  moreover have "R (w1\<lparr>wcalls := sent\<rparr>) (onlyPool (Disable idx t (wpool w1)) (w1\<lparr>wcalls := sent\<rparr>))"
    using op_law [of "OpDisable idx t" "w1\<lparr>wcalls := sent\<rparr>"] quiet_allowed [of "OpDisable idx t"] by simp
  moreover have "w' = onlyPool (Disable idx t (wpool w1)) (w1\<lparr>wcalls := sent\<rparr>)"
    using run d by (auto simp: disableKey_def w1_def Let_def)
  ultimately show "R w w'" using settle_then [OF e] by (auto simp: w1_def intro: R_trans)
qed

lemma keeps_maybeRefreshLow:
  assumes e: "env_ok A env"
  shows "state_io_rel R (maybeRefreshLow env p idx)"
proof (rule state_io_relI)
  fix a :: unit and w w' assume run: "run_state (maybeRefreshLow env p idx) w = (a, w')"
  define w1 where "w1 = settle env w"
  obtain ro j where m: "MaybeRefreshLow p idx (now_at env (wtick w)) (now_at env (wtick w)) (wpool w1) (wrefresh w1) = (ro, j)"
    by (metis surj_pair)
  have "map_option rkeys ro = map_option rkeys (wrefresh w1)"
    using m by (cases "wrefresh w1") (auto simp: MaybeRefreshLow_def Let_def dest: sym split: if_splits)
  then have "R w1 (w1\<lparr>wrefresh := ro\<rparr>)" by (rule refresh_law)
  moreover have "R (w1\<lparr>wrefresh := ro\<rparr>) w'"
    using run m job_law [of "w1\<lparr>wrefresh := ro\<rparr>"] by (auto simp: maybeRefreshLow_def w1_def Let_def)
  ultimately show "R w w'" using settle_then [OF e] by (auto simp: w1_def intro: R_trans)
qed

text \<open>The pool operations of the handler, as operations of the pool's interleavings.\<close>

lemma quiet_op: "\<not> slotOp x \<Longrightarrow> exec_op (wpool w) x = pool \<Longrightarrow> R w (onlyPool pool w)"
  using op_law quiet_allowed by blast

lemma keeps_current: "env_ok A env \<Longrightarrow> state_io_rel R (onPool env Current)"
  by (rule keeps_onPool, assumption, rule quiet_op [where x = "OpCurrent _"]) simp_all

lemma keeps_advance: "env_ok A env \<Longrightarrow> state_io_rel R (onPool env (AdvanceAfter h))"
  by (rule keeps_onPool, assumption, rule quiet_op [where x = "OpAdvanceAfter h _"]) simp_all

lemma keeps_success: "env_ok A env \<Longrightarrow> state_io_rel R (updPool env (RecordSuccess i))"
  by (rule keeps_updPool, assumption, rule quiet_op [where x = "OpRecordSuccess i"]) simp_all

lemma keeps_charge: "env_ok A env \<Longrightarrow> state_io_rel R (updPool env (Decrement i c))"
  by (rule keeps_updPool) (simp_all add: charge_law)

lemma keeps_read: "env_ok A env \<Longrightarrow> state_io_rel R (onPool env (\<lambda>_ pool. (f pool, pool)))"
  by (rule keeps_onPool) (simp_all add: pool_same [simplified])

lemma keeps_pause: "env_ok A env \<Longrightarrow> state_io_rel R (onPool env (\<lambda>now pool. ((), Disable i (now + d) pool)))"
  by (rule keeps_onPool, assumption, rule quiet_op [where x = "OpDisable i _"]) simp_all

lemma keeps_reject:
  "env_ok A env \<Longrightarrow> state_io_rel R (onPool env (\<lambda>_ pool. case RecordRejection i kind pool of
     None \<Rightarrow> (False, pool) | Some pool' \<Rightarrow> (True, pool')))"
  by (rule keeps_onPool, assumption, rule quiet_op [where x = "OpRecordRejection i kind"]) (simp_all split: option.split)

lemma keeps_keysNow: "env_ok A env \<Longrightarrow> state_io_rel R (keysNow env)"
  unfolding keysNow_def by (rule keeps_read)

lemmas keeps_steps = keeps_keysNow keeps_return keeps_bind keeps_if keeps_current keeps_advance keeps_success keeps_charge
  keeps_read keeps_pause keeps_reject keeps_clock keeps_gone keeps_startJob keeps_waitForSlot
  keeps_maybeRefreshLow

lemma keeps_moveOn: "env_ok A env \<Longrightarrow> state_io_rel R (moveOn env b res)"
  unfolding moveOn_def by (auto intro!: keeps_steps split: prod.split)

lemma keeps_afterOK: "env_ok A env \<Longrightarrow> state_io_rel R (afterOK env p res)"
  unfolding afterOK_def chargeCost_def guardFinance_def Let_def by (intro keeps_steps)

lemma keeps_queueDeadline: "env_ok A env \<Longrightarrow> state_io_rel R (queueDeadline env p sat)"
  unfolding queueDeadline_def by (intro keeps_steps)

definition sends :: "request \<Rightarrow> bool" where
  "sends q \<longleftrightarrow> (\<forall>w. R w (w\<lparr>wcalls := wcalls w @ [q], wsent := wsent w @ [q]\<rparr>))"

lemma keeps_clientDo:
  assumes "env_ok A env" and "sends q"
  shows "state_io_rel R (clientDo env q)"
proof (rule state_io_relI)
  fix out w w' assume "run_state (clientDo env q) w = (out, w')"
  then have w': "w' = (settle env w)\<lparr>wcalls := wcalls (settle env w) @ [q], wsent := wsent (settle env w) @ [q]\<rparr>"
    by (simp add: clientDo_def settle_same)
  show "R w w'" unfolding w' using assms settle_law R_trans sends_def by blast
qed

end

text \<open>A relation that says nothing of the trace of all calls.\<close>

locale calling_relation = handler_relation R A for R A +
  assumes call_law: "R w (w\<lparr>wcalls := wcalls w @ qs\<rparr>)"
begin

lemma refreshOne_law:
  assumes "refreshOne net p now idx (r, wpool w, wcalls w) = (r', pool', sent')" and "wrefresh w = Some r"
  shows "R w (w\<lparr>wrefresh := Some r', wpool := pool', wcalls := sent'\<rparr>)"
proof -
  obtain qs where sent': "sent' = wcalls w @ qs" using refreshOne_trace [OF assms(1)] by blast
  let ?w1 = "w\<lparr>wrefresh := Some r', wpool := pool'\<rparr>"
  have "R w ?w1" by (rule refresh_pool_law [OF assms])
  moreover have "R ?w1 (?w1\<lparr>wcalls := wcalls ?w1 @ qs\<rparr>)" by (rule call_law)
  ultimately show ?thesis using R_trans by (simp add: sent')
qed

lemma keeps_ensureMeasured: "env_ok A env \<Longrightarrow> state_io_rel R (ensureMeasured env p idx)"
  by (rule measured_keeps [OF _ refreshOne_law])

lemma keeps_disableKey: "env_ok A env \<Longrightarrow> state_io_rel R (disableKey env p idx key)"
proof (rule disabled_keeps)
  fix w :: world and now t sent' assume "disableUntilReset (net_of env) p idx key now (wpool w, wcalls w) = (Disable idx t (wpool w), sent')"
  then obtain qs where sent': "sent' = wcalls w @ qs" using disable_trace by blast
  show "R w (w\<lparr>wcalls := sent'\<rparr>)" unfolding sent' by (rule call_law)
qed

end

section \<open>The entries of the log\<close>

text \<open>
  The texts a handler of the profile may write: short ones (a mask has four bytes), the fixed labels and
  causes, the profile's name, a status; and the texts of network errors.
\<close>

definition logWords :: "string list" where
  "logWords = [''profile'', ''status'', ''attempt'', ''reason'', ''masked'', ''cause'', ''lastStatus'', ''maxPasses'',
     ''matched'', ''method'', ''dur_ms'',
     ''no attempt'', ''build request: '', ''canceled'']"

definition publicText :: "Profile \<Rightarrow> string \<Rightarrow> bool" where
  "publicText p s \<longleftrightarrow> length s \<le> 4 \<or> s \<in> set logWords \<or> s = Name p \<or> (\<exists>n. s = ''status '' @ itoa n)"

definition netText :: "env \<Rightarrow> string \<Rightarrow> bool" where
  "netText env s \<longleftrightarrow> (\<exists>n q err. net_of env n q = Failed err \<and> (s = err \<or> s = ''net: '' @ err))"

definition masksOnly :: "keySnapshot list \<Rightarrow> bool" where
  "masksOnly ks \<longleftrightarrow> list_all (\<lambda>k. length (sLast4 k) \<le> 4) ks"

definition noteValue :: "env \<Rightarrow> Profile \<Rightarrow> logval \<Rightarrow> bool" where
  "noteValue env p v = (case v of LText s \<Rightarrow> publicText p s \<or> netText env s | LKeys ks \<Rightarrow> masksOnly ks | _ \<Rightarrow> True)"

definition noteEntry :: "env \<Rightarrow> Profile \<Rightarrow> entry \<Rightarrow> bool" where
  "noteEntry env p e \<longleftrightarrow> eMsg e \<noteq> ''req'' \<and> list_all (noteValue env p) (eArgs e)"

lemma maskKey_short: "length (maskKey k) \<le> 4"
  by (simp add: maskKey_def)

lemma noteValue_simps [simp]:
  "noteValue env p (LInt n)" "noteValue env p (LKeys ks) = masksOnly ks"
  "noteValue env p (LText (Name p))" "noteValue env p (LText (maskKey k))"
  "w \<in> set logWords \<Longrightarrow> noteValue env p (LText w)" "length w \<le> 4 \<Longrightarrow> noteValue env p (LText w)"
  by (auto simp: noteValue_def publicText_def maskKey_short)

lemma noteValue_status [simplified, simp]: "noteValue env p (LText (''status '' @ itoa n))"
  by (auto simp: noteValue_def publicText_def)

lemma noteValue_net: "net_of env n q = Failed err \<Longrightarrow> noteValue env p (LText err) \<and> noteValue env p (LText (''net: '' @ err))"
  by (auto simp: noteValue_def netText_def)

lemma logWords_members [simp]: "''profile'' \<in> set logWords" "''status'' \<in> set logWords" "''attempt'' \<in> set logWords"
  "''reason'' \<in> set logWords" "''masked'' \<in> set logWords" "''cause'' \<in> set logWords" "''lastStatus'' \<in> set logWords"
  "''maxPasses'' \<in> set logWords" "''matched'' \<in> set logWords" "''method'' \<in> set logWords" "''dur_ms'' \<in> set logWords"
  "''matched'' \<in> set logWords" "''method'' \<in> set logWords" "''dur_ms'' \<in> set logWords"
  "''no attempt'' \<in> set logWords" "''build request: '' \<in> set logWords" "''canceled'' \<in> set logWords"
  by (simp_all add: logWords_def)

lemma keysNow_masks: "run_state (keysNow env) w = (ks, w') \<Longrightarrow> masksOnly ks"
  by (auto simp: keysNow_def onPool_def Let_def masksOnly_def list_all_iff Snapshot_def snapshotKey_def maskKey_short
      split: prod.splits if_splits)

lemma rate_reason: "fst (shouldRotate p 429 b) \<Longrightarrow> snd (shouldRotate p 429 b) = ''status '' @ itoa 429"
  by (auto simp: shouldRotate_def rotateOn_def split: if_splits)

text \<open>The entry that carries the cause of a failed key.\<close>

definition causeEntry :: "Profile \<Rightarrow> rotResult \<Rightarrow> entry" where
  "causeEntry p res = \<lparr>eLevel = ''warn'', eMsg = ''transient errors exhausted on key, rotating'',
     eArgs = arg ''profile'' (LText (Name p)) @ arg ''key'' (LInt (rrIdx res)) @ arg ''status'' (LInt (rrStatus res)) @
       arg ''cause'' (LText (rrLastErr res))\<rparr>"

text \<open>A relation kept by the entries in \<open>L\<close>, over the other elementary writes.\<close>

locale logging_relation = handler_relation R A for R A +
  fixes L :: "entry \<Rightarrow> bool"
  assumes log_law: "L e \<Longrightarrow> R w (w\<lparr>wlog := wlog w @ [e]\<rparr>)"
begin

lemma logged_say: "(\<And>l e. f l = Some e \<Longrightarrow> L e) \<Longrightarrow> state_io_rel R (say f)"
  by (auto simp: state_io_rel_def say_def R_refl intro: log_law split: option.split)

lemma logged_keys:
  assumes "env_ok A env" and "\<And>ks. masksOnly ks \<Longrightarrow> state_io_rel R (f ks)"
  shows "state_io_rel R (State_Monad.bind (keysNow env) f)"
  by (rule keeps_bind_with [OF keeps_keysNow [OF assms(1)]]) (use assms(2) keysNow_masks in blast)

lemmas logged_steps = logged_keys keeps_steps keeps_moveOn keeps_afterOK

lemma logged_note: "(\<And>e. noteEntry env p e \<Longrightarrow> L e) \<Longrightarrow> (\<And>l. pred_option (noteEntry env p) (f l)) \<Longrightarrow> state_io_rel R (say f)"
  by (rule logged_say) (metis option.pred_inject(2))

lemma logged_afterRotate:
  assumes "env_ok A env" and "\<And>e. noteEntry env p e \<Longrightarrow> L e"
    and "state_io_rel R (disableKey env p (rrIdx res) (rrKey res))"
  shows "state_io_rel R (afterRotate env p res)"
  unfolding afterRotate_def
  by (intro logged_steps assms(1,3) logged_note [OF assms(2)]) (auto simp: info_def warn_def noteEntry_def)

lemma logged_whenSaturated:
  assumes "env_ok A env" and "\<And>e. noteEntry env p e \<Longrightarrow> L e"
  shows "state_io_rel R (whenSaturated env p sat d)"
  unfolding whenSaturated_def Let_def
  by (intro logged_steps assms(1) logged_note [OF assms(2)]) (auto simp: info_def warn_def noteEntry_def)

lemma logged_dispatch:
  assumes "env_ok A env" and "\<And>e. noteEntry env p e \<Longrightarrow> L e" and "L (causeEntry p res)"
    and "rrKind res = resRotate \<Longrightarrow> state_io_rel R (disableKey env p (rrIdx res) (rrKey res))"
  shows "state_io_rel R (dispatch env p res s)"
proof (cases "rrKind res")
  case resRotate
  then show ?thesis
    using assms(4) unfolding dispatch_def by (auto intro!: logged_steps assms(1) logged_afterRotate [OF assms(1,2)])
next
  case resNetErr
  have "state_io_rel R (say (\<lambda>l. warn l ''transient errors exhausted on key, rotating'' (arg ''profile'' (LText (Name p)) @
      arg ''key'' (LInt (rrIdx res)) @ arg ''status'' (LInt (rrStatus res)) @ arg ''cause'' (LText (rrLastErr res)))))"
    using assms(3) by (intro logged_say) (auto simp: warn_def causeEntry_def)
  then show ?thesis unfolding dispatch_def resNetErr rotResultKind.case by (intro logged_steps assms(1))
qed (unfold dispatch_def rotResultKind.case, simp_all only: rotResultKind.case,
  (intro logged_steps assms(1) logged_note [OF assms(2)],
    auto simp: warn_def noteEntry_def)+)

lemma logged_finish:
  assumes "env_ok A env" and "\<And>e. noteEntry env p e \<Longrightarrow> L e"
  shows "state_io_rel R (finish env cfg p rq s)"
  unfolding finish_def endLog_def guardLog_def case_prod_beta
  by (intro logged_steps assms(1) logged_note [OF assms(2)]) (auto simp: warn_def noteEntry_def)

lemma logged_attemptLog:
  assumes "\<And>e. noteEntry env p e \<Longrightarrow> L e" and "\<And>err. out = Failed err \<Longrightarrow> noteValue env p (LText err)"
  shows "state_io_rel R (attemptLog cfg p idx k out)"
  using assms(2)
  by (cases "judge cfg p k out"; cases out)
    (auto simp: attemptLog_def Let_def intro!: keeps_return logged_note [OF assms(1)], auto simp: warn_def noteEntry_def)

lemma logged_concurrencyLog:
  assumes "\<And>e. noteEntry env p e \<Longrightarrow> L e"
  shows "state_io_rel R (concurrencyLog p idx t)"
  using rate_reason [of p "tBody t"]
  by (auto simp: concurrencyLog_def case_prod_beta intro!: keeps_return logged_note [OF assms])
    (auto simp: info_def noteEntry_def)

lemma logged_tryKey:
  assumes "env_ok A env" and "\<And>e. noteEntry env p e \<Longrightarrow> L e"
    and "\<And>q. buildUpstream p key rq path = Some q \<Longrightarrow> sends q"
  shows "state_io_rel R (tryKey env cfg p idx key rq path)"
proof -
  have err: "noteValue env p (LText err)" if "run_state (clientDo env q) w = (Failed err, w')" for q w w' err
    using that noteValue_net by (auto simp: clientDo_def)
  have "state_io_rel R (tryLoop env cfg p idx key rq path left err)" for left err
  proof (induction left arbitrary: err)
    case (Suc left)
    have "state_io_rel R (attemptLog cfg p idx k out)" if "run_state (clientDo env q) w = (out, w')" for k q w out w'
      by (rule logged_attemptLog [OF assms(2)]) (use that err in auto)
    then have step: "state_io_rel R (do { out \<leftarrow> clientDo env q; attemptLog cfg p idx k out; f out })"
      if "sends q" "\<And>out. state_io_rel R (f out)" for q k f
      by (intro keeps_bind_with [OF keeps_clientDo [OF assms(1) that(1)]] keeps_bind that(2))
    have after: "state_io_rel R (case judge cfg p k out of Finished t \<Rightarrow> State_Monad.return t
        | Again e t \<Rightarrow> do { c \<leftarrow> sleepOrCancel env d; if c then State_Monad.return t else tryLoop env cfg p idx key rq path left e })"
      for k out d
      using assms(1) by (auto simp: sleepOrCancel_def intro!: keeps_return keeps_bind keeps_gone Suc split: verdict.split)
    show ?case
      using step [OF assms(3) after] by (cases "buildUpstream p key rq path") (simp_all add: Let_def keeps_return)
  qed (simp add: keeps_return)
  then show ?thesis unfolding tryKey_def .
qed

lemma logged_rotateLoop:
  assumes "env_ok A env" and "\<And>e. noteEntry env p e \<Longrightarrow> L e" and "state_io_rel R (serveOnce env cfg p rq path)"
    and "\<And>w res w'. run_state (serveOnce env cfg p rq path) w = (res, w') \<Longrightarrow> L (causeEntry p res)"
    and "\<And>w v res w'. \<not> R w v \<Longrightarrow> run_state (serveOnce env cfg p rq path) w = (res, w') \<Longrightarrow>
      rrKind res = resRotate \<Longrightarrow> state_io_rel R (disableKey env p (rrIdx res) (rrKey res))"
  shows "state_io_rel R (rotateLoop fuel env cfg p rq path sat d maxRot s)"
proof (induction fuel arbitrary: s)
  case 0
  show ?case by (subst rotateLoop.simps) (auto intro!: keeps_steps)
next
  case (Suc fuel)
  note steps = logged_whenSaturated [OF assms(1,2)] logged_dispatch [OF assms(1,2)] assms(4)
  have dispatch: "state_io_rel R (dispatch env p res s')"
    if "\<not> R w v" "run_state (serveOnce env cfg p rq path) w = (res, w')" for w v res w' s'
    using that assms(5) by (intro logged_dispatch [OF assms(1,2) assms(4)]) blast+
  show ?case
    by (subst rotateLoop.simps)
      (auto simp: Let_def intro!: keeps_return keeps_bind_live [OF assms(3)] keeps_bind Suc dispatch
        logged_whenSaturated [OF assms(1,2)] split: option.split)
qed

end

text \<open>A relation that says nothing of the log: the handler keeps it if its usage fetches do.\<close>

locale talking_relation = handler_relation R A for R A +
  assumes log_all: "R w (w\<lparr>wlog := es\<rparr>)"

sublocale talking_relation \<subseteq> entries: logging_relation R A "\<lambda>_. True"
  by unfold_locales (rule log_all)

context talking_relation
begin

lemma keeps_say: "state_io_rel R (say f)"
  by (rule entries.logged_say) simp

lemma keeps_attemptLog: "state_io_rel R (attemptLog cfg p idx k out)"
  by (auto simp: attemptLog_def Let_def intro: keeps_say keeps_return split: verdict.split outcome.split)

lemma keeps_concurrencyLog: "state_io_rel R (concurrencyLog p idx t)"
  by (rule entries.logged_concurrencyLog) simp

lemma keeps_accessLog: "env_ok A env \<Longrightarrow> state_io_rel R (accessLog env rq start n b acc)"
  unfolding accessLog_def by (intro keeps_steps keeps_say)

lemma keeps_whenSaturated: "env_ok A env \<Longrightarrow> state_io_rel R (whenSaturated env p sat d)"
  by (rule entries.logged_whenSaturated) simp_all

lemma keeps_finish: "env_ok A env \<Longrightarrow> state_io_rel R (finish env cfg p rq s)"
  by (rule entries.logged_finish) simp_all

lemma keeps_tryKey: "env_ok A env \<Longrightarrow> (\<And>q. buildUpstream p key rq path = Some q \<Longrightarrow> sends q) \<Longrightarrow>
    state_io_rel R (tryKey env cfg p idx key rq path)"
  by (rule entries.logged_tryKey) simp_all

lemma talked_rotateLoop:
  assumes "env_ok A env" and "state_io_rel R (serveOnce env cfg p rq path)"
    and "\<And>w v res w'. \<not> R w v \<Longrightarrow> run_state (serveOnce env cfg p rq path) w = (res, w') \<Longrightarrow>
      rrKind res = resRotate \<Longrightarrow> state_io_rel R (disableKey env p (rrIdx res) (rrKey res))"
  shows "state_io_rel R (rotateLoop fuel env cfg p rq path sat d maxRot s)"
  by (rule entries.logged_rotateLoop [OF assms(1) _ assms(2) _ assms(3)]) simp_all

lemma talked_serveProfile:
  assumes "env_ok A env" and "state_io_rel R (serveOnce env cfg p rq path)"
    and "\<And>w v res w'. \<not> R w v \<Longrightarrow> run_state (serveOnce env cfg p rq path) w = (res, w') \<Longrightarrow>
      rrKind res = resRotate \<Longrightarrow> state_io_rel R (disableKey env p (rrIdx res) (rrKey res))"
  shows "state_io_rel R (serveProfile fuel env cfg p rq path)"
  unfolding serveProfile_def Let_def
  by (auto intro!: keeps_return keeps_bind keeps_read keeps_clock keeps_accessLog keeps_queueDeadline
      talked_rotateLoop [OF assms(1,2)] keeps_finish assms split: option.split loopEnd.split prod.split)

lemma keeps_serveUnmatched: "env_ok A env \<Longrightarrow> state_io_rel R (serveUnmatched env rq)"
  unfolding serveUnmatched_def by (intro keeps_steps keeps_accessLog)

end

text \<open>A relation that says nothing of the log and of the trace of all calls: the whole handler keeps it.\<close>

locale saying_relation = talking_relation R A + calling_relation R A for R A
begin

lemma keeps_dispatch: "env_ok A env \<Longrightarrow> state_io_rel R (dispatch env p res s)"
  by (rule entries.logged_dispatch) (simp_all add: keeps_disableKey)

lemma keeps_afterRotate: "env_ok A env \<Longrightarrow> state_io_rel R (afterRotate env p res)"
  by (rule entries.logged_afterRotate) (simp_all add: keeps_disableKey)

lemma keeps_rotateLoop: "env_ok A env \<Longrightarrow> state_io_rel R (serveOnce env cfg p rq path) \<Longrightarrow>
    state_io_rel R (rotateLoop fuel env cfg p rq path sat d maxRot s)"
  by (rule talked_rotateLoop) (simp_all add: keeps_disableKey)

lemma keeps_serveProfile: "env_ok A env \<Longrightarrow> state_io_rel R (serveOnce env cfg p rq path) \<Longrightarrow>
    state_io_rel R (serveProfile fuel env cfg p rq path)"
  by (rule talked_serveProfile) (simp_all add: keeps_disableKey)

end

section \<open>One pass\<close>

text \<open>An entry changes nothing but the log.\<close>

lemma say_frame: "\<exists>es. run_state (say f) w = ((), w\<lparr>wlog := wlog w @ es\<rparr>)"
proof (cases "f (wlogger w)")
  case None
  then show ?thesis by (intro exI [of _ "[]"]) (simp add: say_def)
qed (auto simp: say_def)

lemma return_frame: "\<exists>es. run_state (State_Monad.return ()) w = ((), w\<lparr>wlog := wlog w @ es\<rparr>)"
  by (intro exI [of _ "[]"]) simp

lemma attemptLog_frame: "\<exists>es. run_state (attemptLog cfg p idx k out) w = ((), w\<lparr>wlog := wlog w @ es\<rparr>)"
  by (cases "judge cfg p k out"; cases out) (auto simp: attemptLog_def Let_def return_frame [simplified] intro: say_frame)

lemma concurrencyLog_frame: "\<exists>es. run_state (concurrencyLog p idx t) w = ((), w\<lparr>wlog := wlog w @ es\<rparr>)"
  using say_frame return_frame by (auto simp: concurrencyLog_def split: prod.split)

text \<open>The three ways through \<open>serveOnce\<close>.\<close>

lemma serveOnce_cases:
  assumes "run_state (serveOnce env cfg p rq path) w = (res, w')"
  obtains (exhausted) idx key w1 where "run_state (onPool env Current) w = ((idx, key), w1)" "idx < 0"
      "res = noResult resExhausted 0 []" "w' = w1"
  | (saturated) idx key w1 where "run_state (onPool env Current) w = ((idx, key), w1)" "0 \<le> idx"
      "run_state (onPool env (\<lambda>_. TryAcquire idx)) w1 = (False, w')" "res = noResult resSaturated idx key"
  | (served) idx key w1 w2 w3 t w4 w5 where "run_state (onPool env Current) w = ((idx, key), w1)" "0 \<le> idx"
      "run_state (onPool env (\<lambda>_. TryAcquire idx)) w1 = (True, w2)"
      "run_state (ensureMeasured env p idx) w2 = ((), w3)"
      "run_state (tryKey env cfg p idx key rq path) w3 = (t, w4)"
      "run_state (concurrencyLog p idx t) w4 = ((), w5)"
      "run_state (updPool env (Release idx)) w5 = ((), w')" "res = classify p idx key t"
proof -
  obtain idx key w1 where c: "run_state (onPool env Current) w = ((idx, key), w1)" by (metis surj_pair)
  obtain got w2 where a: "run_state (onPool env (\<lambda>_. TryAcquire idx)) w1 = (got, w2)" by (metis surj_pair)
  obtain w3 where e: "run_state (ensureMeasured env p idx) w2 = ((), w3)" by (metis old.unit.exhaust surj_pair)
  obtain t w4 where k: "run_state (tryKey env cfg p idx key rq path) w3 = (t, w4)" by (metis surj_pair)
  obtain w5 where l: "run_state (concurrencyLog p idx t) w4 = ((), w5)" by (metis old.unit.exhaust surj_pair)
  obtain w6 where r: "run_state (updPool env (Release idx)) w5 = ((), w6)" by (metis old.unit.exhaust surj_pair)
  show thesis
  proof (cases "idx < 0")
    case True
    then show ?thesis using assms c by (intro exhausted [OF c]) (simp_all add: serveOnce_def)
  next
    case pos: False
    show ?thesis
    proof (cases got)
      case True
      show ?thesis
        by (rule served [OF c _ _ e k l]) (use pos True assms c a e k l r in \<open>simp_all add: serveOnce_def\<close>)
    next
      case False
      show ?thesis
        by (rule saturated [OF c]) (use pos False assms c a in \<open>simp_all add: serveOnce_def\<close>)
    qed
  qed
qed

text \<open>The whole request: an unreadable body, or the loop and what follows it.\<close>

abbreviation saturationOf :: "Profile \<Rightarrow> string" where
  "saturationOf p \<equiv> if ConcurrencySaturation p = [] then ''queue'' else ConcurrencySaturation p"

lemma serveProfile_cases:
  assumes "run_state (serveProfile fuel env cfg p rq path) w = (a, w')"
  obtains (unread) err start w0 where "iBodyErr rq = Some err" "run_state (clock env) w = (start, w0)"
      "run_state (accessLog env rq start (Name p) True noAccess) w0 = ((), w')"
      "a = Some (httpError (''read request body: '' @ err) 400)"
  | (endless) start w0 n w1 d w2 where "iBodyErr rq = None" "run_state (clock env) w = (start, w0)"
      "run_state (onPool env (\<lambda>_ pool. (length (keys pool), pool))) w0 = (n, w1)"
      "run_state (queueDeadline env p (saturationOf p)) w1 = (d, w2)"
      "run_state (rotateLoop fuel env cfg p rq path (saturationOf p) d (wrap64 (MaxPasses cfg * int n)) startProgress) w2 = (None, w')"
      "a = None"
  | (early) start w0 n w1 d w2 x w3 where "iBodyErr rq = None" "run_state (clock env) w = (start, w0)"
      "run_state (onPool env (\<lambda>_ pool. (length (keys pool), pool))) w0 = (n, w1)"
      "run_state (queueDeadline env p (saturationOf p)) w1 = (d, w2)"
      "run_state (rotateLoop fuel env cfg p rq path (saturationOf p) d (wrap64 (MaxPasses cfg * int n)) startProgress) w2
        = (Some (Returned x), w3)"
      "run_state (accessLog env rq start (Name p) True (earlyAccess x)) w3 = ((), w')" "a = Some x"
  | (ended) start w0 n w1 d w2 s w3 b acc w4 where "iBodyErr rq = None" "run_state (clock env) w = (start, w0)"
      "run_state (onPool env (\<lambda>_ pool. (length (keys pool), pool))) w0 = (n, w1)"
      "run_state (queueDeadline env p (saturationOf p)) w1 = (d, w2)"
      "run_state (rotateLoop fuel env cfg p rq path (saturationOf p) d (wrap64 (MaxPasses cfg * int n)) startProgress) w2
        = (Some (Broke s), w3)"
      "run_state (finish env cfg p rq s) w3 = ((b, acc), w4)"
      "run_state (accessLog env rq start (Name p) True acc) w4 = ((), w')" "a = Some b"
proof -
  obtain start w0 where c: "run_state (clock env) w = (start, w0)" by (metis surj_pair)
  show thesis
  proof (cases "iBodyErr rq")
    case (Some err)
    then show ?thesis using assms c unread by (auto simp: serveProfile_def split: prod.splits)
  next
    case None
    obtain n w1 where n: "run_state (onPool env (\<lambda>_ pool. (length (keys pool), pool))) w0 = (n, w1)" by (metis surj_pair)
    obtain d w2 where d: "run_state (queueDeadline env p (saturationOf p)) w1 = (d, w2)" by (metis surj_pair)
    obtain e w3 where e: "run_state (rotateLoop fuel env cfg p rq path (saturationOf p) d (wrap64 (MaxPasses cfg * int n)) startProgress) w2
        = (e, w3)" by (metis surj_pair)
    have run: "run_state (case e of None \<Rightarrow> State_Monad.return None
        | Some (Returned x) \<Rightarrow> do { accessLog env rq start (Name p) True (earlyAccess x); State_Monad.return (Some x) }
        | Some (Broke s) \<Rightarrow> do { (b, acc) \<leftarrow> finish env cfg p rq s; accessLog env rq start (Name p) True acc;
            State_Monad.return (Some b) }) w3 = (a, w')"
      using assms c n d e None by (simp add: serveProfile_def Let_def)
    show ?thesis
    proof (cases e)
      case none: None
      show ?thesis by (rule endless [OF None c n d]) (use run e none in simp_all)
    next
      case (Some y)
      show ?thesis
      proof (cases y)
        case (Returned x)
        show ?thesis by (rule early [OF None c n d]) (use run e Some Returned in \<open>auto split: prod.splits\<close>)
      next
        case (Broke s)
        obtain b acc w4 where f: "run_state (finish env cfg p rq s) w3 = ((b, acc), w4)" by (metis surj_pair)
        show ?thesis by (rule ended [OF None c n d _ f]) (use run e Some Broke f in \<open>auto split: prod.splits\<close>)
      qed
    qed
  qed
qed

lemma Current_in_range:
  assumes "pool_wf pool" and "fst (Current now pool) = (idx, key)" and "0 \<le> idx"
  shows "ix_ok idx (keys pool) \<and> key = keys pool ! nat idx \<and> usable pool (nat idx)"
  using assms chosen_range [OF assms(1), of now]
  by (auto simp: Current_def currentLocked_chosen ix_ok_def split: if_splits)

lemma balance_frame:
  "pool_config (Decrement i c p) = pool_config p" "inFlight (Decrement i c p) = inFlight p"
  "keys (Decrement i c p) = keys p" "maxConcurrent (Decrement i c p) = maxConcurrent p"
  "pool_config (SetCredits i c p) = pool_config p" "inFlight (SetCredits i c p) = inFlight p"
  "keys (SetCredits i c p) = keys p" "maxConcurrent (SetCredits i c p) = maxConcurrent p"
  "pool_config (p\<lparr>slotFree := b\<rparr>) = pool_config p"
  by (simp_all add: Decrement_def SetCredits_def pool_config_def Let_def)

lemmas balance_laws = Decrement_wf SetCredits_wf slotFree_wf balance_frame

section \<open>The pool stays well formed and configured\<close>

definition poolKept :: "world \<Rightarrow> world \<Rightarrow> bool" where
  "poolKept w w' \<longleftrightarrow> (pool_wf (wpool w) \<longrightarrow> pool_wf (wpool w') \<and> pool_config (wpool w') = pool_config (wpool w)) \<and>
     map_option rkeys (wrefresh w') = map_option rkeys (wrefresh w) \<and> (\<exists>qs. wcalls w' = wcalls w @ qs)"

interpretation kept: saying_relation poolKept "\<lambda>_. True"
  by unfold_locales
    (auto simp: poolKept_def exec_op_wf exec_op_config balance_laws)

lemma any_env_ok: "env_ok (\<lambda>_. True) env"
  by (simp add: env_ok_def list_all_iff)

lemma poolKept_op: "poolKept w (w\<lparr>wpool := exec_op (wpool w) x\<rparr>)"
  by (rule kept.op_law) simp

lemma keeps_acquire: "state_io_rel poolKept (onPool env (\<lambda>_. TryAcquire i))"
  using poolKept_op [of _ "OpTryAcquire i"] by (intro kept.keeps_onPool any_env_ok) simp

lemma keeps_release: "state_io_rel poolKept (updPool env (Release i))"
  using poolKept_op [of _ "OpRelease i"] by (intro kept.keeps_updPool any_env_ok) simp

lemma tryKey_kept: "state_io_rel poolKept (tryKey env cfg p idx key rq path)"
  by (rule kept.keeps_tryKey [OF any_env_ok]) (simp add: kept.sends_def poolKept_def)

lemma serveOnce_kept: "state_io_rel poolKept (serveOnce env cfg p rq path)"
  unfolding serveOnce_def
  by (auto intro!: kept.keeps_concurrencyLog kept.keeps_bind kept.keeps_return kept.keeps_current kept.keeps_ensureMeasured any_env_ok
      keeps_acquire keeps_release tryKey_kept split: prod.split)

section \<open>The slots in use are balanced\<close>

definition slotsKept :: "world \<Rightarrow> world \<Rightarrow> bool" where
  "slotsKept w w' \<longleftrightarrow> (pool_wf (wpool w) \<longrightarrow> pool_wf (wpool w') \<and>
     heldSlots (wpool w') = heldSlots (wpool w) \<and> maxConcurrent (wpool w') = maxConcurrent (wpool w))"

abbreviation noSlotOp :: "pool_op \<Rightarrow> bool" where
  "noSlotOp x \<equiv> \<not> slotOp x"

lemma noSlotOp_inFlight: "noSlotOp x \<Longrightarrow> inFlight (exec_op p x) = inFlight p \<and> maxConcurrent (exec_op p x) = maxConcurrent p"
  by (cases x)
    (auto simp: Current_def Advance_def AdvanceAfter_def RecordSuccess_def RecordRejection_def Decrement_def
      SetCredits_def Disable_def Let_def currentLocked_frame ReenableDue_frame split: option.split)

interpretation slotk: saying_relation slotsKept noSlotOp
  by unfold_locales
    (auto simp: slotsKept_def exec_op_wf noSlotOp_inFlight heldSlots_def fun_eq_iff balance_laws)

lemma serveOnce_slots:
  assumes e: "env_ok noSlotOp env"
  shows "state_io_rel slotsKept (serveOnce env cfg p rq path)"
proof (rule state_io_relI)
  fix res w w' assume run: "run_state (serveOnce env cfg p rq path) w = (res, w')"
  have current: "slotsKept w w1" if "run_state (onPool env Current) w = (x, w1)" for x w1
    using slotk.keeps_current [OF e] that by blast
  from run show "slotsKept w w'"
  proof (cases rule: serveOnce_cases)
    case exhausted
    then show ?thesis using current by blast
  next
    case (saturated idx key w1)
    have "slotsKept w1 w'"
      using saturated(3) slotk.settle_law [OF e, of w1] slots.acquire_refused
      by (auto simp: onPool_def Let_def split: prod.splits) (metis (no_types, lifting) world.surjective world.update_convs(1))
    then show ?thesis using current [OF saturated(1)] slotk.R_trans by blast
  next
    case (served idx key w1 w2 w3 t w4 w5)
    let ?s1 = "settle env w1" and ?s4 = "settle env w5"
    have acq: "TryAcquire idx (wpool ?s1) = (True, wpool w2)"
      using served(3) by (auto simp: onPool_def Let_def split: prod.splits)
    have rel: "wpool w' = Release idx (wpool ?s4)"
      using served(7) by (auto simp: updPool_def onPool_def Let_def)
    have "slotsKept w ?s1" using current [OF served(1)] slotk.settle_law [OF e] slotk.R_trans by blast
    moreover have "slotsKept w2 w3" using slotk.keeps_ensureMeasured [OF e] served(4) by blast
    moreover have "slotsKept w3 w4"
      using slotk.keeps_tryKey [OF e, of p key rq path cfg idx] served(5)
      by (simp add: slotk.sends_def slotsKept_def) (metis (mono_tags, lifting) slotsKept_def state_io_relD)
    moreover have "slotsKept w4 w5" by (rule state_io_relD [OF slotk.keeps_concurrencyLog served(6)])
    moreover have "slotsKept w5 ?s4" by (rule slotk.settle_law [OF e])
    ultimately have mid: "slotsKept w2 ?s4" and pre: "slotsKept w ?s1" using slotk.R_trans by blast+
    show ?thesis
      unfolding slotsKept_def
    proof (intro impI)
      assume "pool_wf (wpool w)"
      then have s1: "pool_wf (wpool ?s1)" "heldSlots (wpool ?s1) = heldSlots (wpool w)"
        "maxConcurrent (wpool ?s1) = maxConcurrent (wpool w)" using pre by (auto simp: slotsKept_def)
      note a = slots.acquire_ok [OF s1(1) acq]
      then have s4: "pool_wf (wpool ?s4)" "heldSlots (wpool ?s4) = heldSlots (wpool w2)"
        "maxConcurrent (wpool ?s4) = maxConcurrent (wpool w2)" using mid by (auto simp: slotsKept_def)
      have "maxConcurrent (wpool ?s4) = maxConcurrent (wpool w2)" using s4 by simp
      from slots.bracket [OF s1(1) acq s4(1,2) this] slots.release_ok [OF s4(1)]
      show "pool_wf (wpool w') \<and> heldSlots (wpool w') = heldSlots (wpool w) \<and> maxConcurrent (wpool w') = maxConcurrent (wpool w)"
        using s1 s4 a by (simp add: rel)
    qed
  qed
qed

lemma exec_op_keys: "keys (exec_op p x) = keys p"
  using exec_op_config [of p x] by (simp add: pool_config_def)

section \<open>Sends and ticks\<close>

text \<open>Only \<open>clientDo\<close> writes the trace of the client's requests, and the step counter only grows.\<close>

definition sentSame :: "world \<Rightarrow> world \<Rightarrow> bool" where
  "sentSame w w' \<longleftrightarrow> wsent w' = wsent w"

interpretation silent: saying_relation sentSame "\<lambda>_. True"
  by unfold_locales (auto simp: sentSame_def)

lemma silent_relD: "state_io_rel sentSame m \<Longrightarrow> run_state m w = (x, w') \<Longrightarrow> wsent w' = wsent w"
  by (auto simp: sentSame_def)

lemma serveUnmatched_sent: "run_state (serveUnmatched env rq) w = (a, w') \<Longrightarrow> wsent w' = wsent w"
  by (rule silent_relD [OF silent.keeps_serveUnmatched [OF any_env_ok]])

definition ticksGrow :: "world \<Rightarrow> world \<Rightarrow> bool" where
  "ticksGrow w w' \<longleftrightarrow> wtick w \<le> wtick w'"

interpretation ticks: saying_relation ticksGrow "\<lambda>_. True"
  by unfold_locales (auto simp: ticksGrow_def)

lemma onPool_sent: "run_state (onPool env f) w = (x, w') \<Longrightarrow> wsent w' = wsent w"
  by (auto simp: onPool_def Let_def settle_same split: prod.splits)

lemma onPool_ticks: "run_state (onPool env f) w = (x, w') \<Longrightarrow> wtick w' = Suc (wtick w)"
  by (auto simp: onPool_def Let_def settle_def split: prod.splits)

lemma updPool_sent: "run_state (updPool env f) w = (x, w') \<Longrightarrow> wsent w' = wsent w"
  unfolding updPool_def by (rule onPool_sent)

lemma tryKey_ticks: "state_io_rel ticksGrow (tryKey env cfg p idx key rq path)"
  by (rule ticks.keeps_tryKey [OF any_env_ok]) (simp add: ticks.sends_def ticksGrow_def)

lemma serveOnce_ticks:
  assumes "run_state (serveOnce env cfg p rq path) w = (res, w')"
  shows "wtick w < wtick w'"
  using assms
proof (cases rule: serveOnce_cases)
  case (served idx key w1 w2 w3 t w4 w5)
  have "ticksGrow w2 w3" using ticks.keeps_ensureMeasured [OF any_env_ok] served(4) by blast
  moreover have "ticksGrow w3 w4" using tryKey_ticks served(5) by blast
  moreover have "ticksGrow w4 w5" by (rule state_io_relD [OF ticks.keeps_concurrencyLog served(6)])
  ultimately show ?thesis
    using served(1,3,7) by (auto simp: ticksGrow_def updPool_def dest!: onPool_ticks)
qed (auto dest!: onPool_ticks)

text \<open>How many requests one pass sends: none, unless a key was acquired; then at most six.\<close>

lemma tryLoop_sent:
  "run_state (tryLoop env cfg p idx key rq path left err) w = (t, w') \<Longrightarrow> length (wsent w') \<le> length (wsent w) + left"
proof (induction left arbitrary: err w)
  case (Suc left)
  show ?case
  proof (cases "buildUpstream p key rq path")
    case None
    then show ?thesis using Suc.prems by (auto simp: Let_def)
  next
    case (Some q)
    obtain out w1 where d: "run_state (clientDo env q) w = (out, w1)" by (metis surj_pair)
    have w1: "length (wsent w1) = Suc (length (wsent w))" using d by (auto simp: clientDo_def)
    obtain es where l: "run_state (attemptLog cfg p idx (length backoffSchedule - left) out) w1 = ((), w1\<lparr>wlog := wlog w1 @ es\<rparr>)"
      using attemptLog_frame by blast
    show ?thesis
    proof (cases "judge cfg p (length backoffSchedule - left) out")
      case (Finished t')
      then show ?thesis using Suc.prems Some d w1 l by (auto simp: Let_def)
    next
      case (Again err' t')
      obtain c w2 where s: "run_state (sleepOrCancel env (backoffSchedule ! (length backoffSchedule - left))) (w1\<lparr>wlog := wlog w1 @ es\<rparr>) = (c, w2)"
        by (metis surj_pair)
      then have "wsent w2 = wsent w1" by (auto simp: sleepOrCancel_def gone_def settle_same split: if_splits)
      then show ?thesis
        using Suc.prems Suc.IH [of err' w2] Some d w1 Again s l by (cases c) (auto simp: Let_def)
    qed
  qed
qed simp

lemma serveOnce_sent:
  assumes "run_state (serveOnce env cfg p rq path) w = (res, w')"
  shows "length (wsent w') \<le> length (wsent w) + 6" and "rrKind res \<in> {resSaturated, resExhausted} \<Longrightarrow> wsent w' = wsent w"
proof -
  have "length (wsent w') \<le> length (wsent w) + 6 \<and> (rrKind res \<in> {resSaturated, resExhausted} \<longrightarrow> wsent w' = wsent w)"
    using assms
  proof (cases rule: serveOnce_cases)
    case (served idx key w1 w2 w3 t w4 w5)
    have "sentSame w2 w3" using silent.keeps_ensureMeasured [OF any_env_ok] served(4) by blast
    moreover have "length (wsent w4) \<le> length (wsent w3) + 6"
      using tryLoop_sent [of env cfg p idx key rq path 6 "''no attempt''" w3 t w4] served(5)
      by (simp add: tryKey_def backoffSchedule_def eval_nat_numeral del: tryLoop.simps)
    moreover have "sentSame w4 w5" by (rule state_io_relD [OF silent.keeps_concurrencyLog served(6)])
    ultimately show ?thesis
      using served(8) onPool_sent [OF served(1)] onPool_sent [OF served(3)] updPool_sent [OF served(7)]
      by (simp add: sentSame_def classify_def Let_def)
  qed (auto dest!: onPool_sent simp: noResult_def)
  then show "length (wsent w') \<le> length (wsent w) + 6" "rrKind res \<in> {resSaturated, resExhausted} \<Longrightarrow> wsent w' = wsent w"
    by auto
qed

end
