(* ===== verification/Proxy_Calls.thy ===== *)
theory Proxy_Calls
  imports Proxy_Laws
begin

text \<open>
  The trace of all calls to the network: every request given to \<open>client.Do\<close> for a profile, by the handler
  or by a usage fetch, is one built from a key of the profile; and how many there can be.
\<close>

section \<open>The trace of all calls\<close>

text \<open>The usage requests of a profile, for the keys in \<open>ks\<close>: none for the accounted profiles.\<close>

definition usageBy :: "Profile \<Rightarrow> string list \<Rightarrow> request \<Rightarrow> bool" where
  "usageBy p ks q \<longleftrightarrow> \<not> accountedProfile p \<and> (\<exists>key\<in>set ks. usageQuery p key = Some q)"

text \<open>The keys of a profile: those of its pool, and of its refresher if it has one.\<close>

definition keyed :: "string list \<Rightarrow> world \<Rightarrow> bool" where
  "keyed ks w \<longleftrightarrow> pool_wf (wpool w) \<and> keys (wpool w) = ks \<and> pred_option (\<lambda>r. rkeys r = ks) (wrefresh w)"

text \<open>Every call is a request in \<open>B\<close> or a usage request of the profile for one of its keys.\<close>

definition callsKept :: "Profile \<Rightarrow> (request \<Rightarrow> bool) \<Rightarrow> string list \<Rightarrow> world \<Rightarrow> world \<Rightarrow> bool" where
  "callsKept p B ks w w' \<longleftrightarrow> (keyed ks w \<longrightarrow> keyed ks w' \<and>
     (\<exists>qs. wcalls w' = wcalls w @ qs \<and> (\<forall>q\<in>set qs. B q \<or> usageBy p ks q)))"

lemma callsKept_trans: "callsKept p B ks a b \<Longrightarrow> callsKept p B ks b c \<Longrightarrow> callsKept p B ks a c"
  by (fastforce simp: callsKept_def)

lemma callsKept_same: "(keyed ks w \<Longrightarrow> keyed ks w') \<Longrightarrow> wcalls w' = wcalls w \<Longrightarrow> callsKept p B ks w w'"
  by (auto simp: callsKept_def)

lemma keyed_refresh: "map_option rkeys ro = map_option rkeys (wrefresh w) \<Longrightarrow> keyed ks w \<Longrightarrow> keyed ks (w\<lparr>wrefresh := ro\<rparr>)"
  by (cases ro; cases "wrefresh w") (auto simp: keyed_def)

interpretation calls: talking_relation "callsKept p B ks" "\<lambda>_. True" for p B ks
proof unfold_locales
  show "callsKept p B ks a b \<Longrightarrow> callsKept p B ks b c \<Longrightarrow> callsKept p B ks a c" for a b c
    by (rule callsKept_trans)
  show "map_option rkeys ro = map_option rkeys (wrefresh w) \<Longrightarrow> callsKept p B ks w (w\<lparr>wrefresh := ro\<rparr>)" for ro w
    by (rule callsKept_same [OF keyed_refresh]) simp_all
qed (auto intro!: callsKept_same simp: keyed_def exec_op_wf exec_op_keys balance_laws)

lemma calls_sends: "B q \<Longrightarrow> calls.sends p B ks q"
  by (auto simp: calls.sends_def callsKept_def keyed_def)

lemma calls_traffic:
  assumes "keyed ks w \<Longrightarrow> k \<noteq> 0 \<Longrightarrow> \<not> accountedProfile p \<and> key \<in> set ks"
  shows "callsKept p B ks w (w\<lparr>wcalls := wcalls w @ traffic (usageQuery p key) k\<rparr>)"
proof -
  have "usageBy p ks q" if "keyed ks w" "q \<in> set (traffic (usageQuery p key) k)" for q
    using assms [OF that(1)] that(2) traffic_set [OF that(2)] by (cases k) (auto simp: usageBy_def traffic_def split: option.splits)
  then show ?thesis by (auto simp: callsKept_def keyed_def)
qed

lemma calls_refreshOne:
  assumes "refreshOne net p now i (r, wpool w, wcalls w) = (r', pool', sent')" and "wrefresh w = Some r"
  shows "callsKept p B ks w (w\<lparr>wrefresh := Some r', wpool := pool', wcalls := sent'\<rparr>)"
proof -
  obtain k where k: "sent' = wcalls w @ traffic (usageQuery p (rkeys r ! nat i)) k"
    "k \<noteq> 0 \<longrightarrow> \<not> accountedProfile p \<and> rkeys r ! nat i \<in> set (rkeys r)"
    using refreshOne_trace [OF assms(1)] by blast
  let ?w1 = "w\<lparr>wrefresh := Some r', wpool := pool'\<rparr>"
  have a: "callsKept p B ks w ?w1" by (rule calls.refresh_pool_law [OF assms])
  show ?thesis
  proof (cases "keyed ks w")
    case True
    then have "rkeys r = ks" using assms(2) by (simp add: keyed_def)
    then have "callsKept p B ks ?w1 (?w1\<lparr>wcalls := wcalls ?w1 @ traffic (usageQuery p (rkeys r ! nat i)) k\<rparr>)"
      using k(2) by (intro calls_traffic) simp
    from callsKept_trans [OF a this] show ?thesis by (simp add: k(1))
  qed (simp add: callsKept_def)
qed

lemma calls_ensureMeasured: "state_io_rel (callsKept p B ks) (ensureMeasured env p idx)"
  by (rule calls.measured_keeps [OF any_env_ok calls_refreshOne])

lemma calls_disableKey: "key \<in> set ks \<Longrightarrow> state_io_rel (callsKept p B ks) (disableKey env p idx key)"
proof (rule calls.disabled_keeps [OF _ any_env_ok])
  fix w :: world and now t sent' assume key: "key \<in> set ks"
    and d: "disableUntilReset (net_of env) p idx key now (wpool w, wcalls w) = (Disable idx t (wpool w), sent')"
  obtain k where k: "sent' = wcalls w @ traffic (usageQuery p key) k" "k \<noteq> 0 \<longrightarrow> \<not> accountedProfile p"
    using disable_trace [OF d] by blast
  show "callsKept p B ks w (w\<lparr>wcalls := sent'\<rparr>)" unfolding k(1) by (rule calls_traffic) (use k(2) key in simp)
qed

text \<open>The key of a pass is one of the pool's.\<close>

lemma current_key:
  assumes "keyed ks w" and "run_state (onPool env Current) w = ((idx, key), w1)" and "0 \<le> idx"
  shows "key \<in> set ks"
proof -
  let ?s = "settle env w"
  have s: "pool_wf (wpool ?s)" "keys (wpool ?s) = ks"
    using calls.settle_law [OF any_env_ok, of _ _ ks w env] assms(1) by (auto simp: callsKept_def keyed_def)
  have "fst (Current (now_at env (wtick w)) (wpool ?s)) = (idx, key)"
    using assms(2) by (auto simp: onPool_def Let_def split: prod.splits)
  from Current_in_range [OF s(1) this assms(3)] s show ?thesis by (auto simp: ix_ok_def)
qed

lemma serveOnce_key:
  assumes "keyed ks w" and "run_state (serveOnce env cfg p rq path) w = (res, w')" and "rrKind res = resRotate"
  shows "rrKey res \<in> set ks"
  using assms(2)
proof (cases rule: serveOnce_cases)
  case (served idx key w1 w2 w3 t w4 w5)
  then show ?thesis using current_key [OF assms(1) served(1,2)] by (simp add: classify_def Let_def)
qed (use assms(3) in \<open>simp_all add: noResult_def\<close>)

lemma serveOnce_calls:
  assumes B: "\<And>key q. key \<in> set ks \<Longrightarrow> buildUpstream p key rq path = Some q \<Longrightarrow> B q"
  shows "state_io_rel (callsKept p B ks) (serveOnce env cfg p rq path)"
proof (rule state_io_relI)
  fix res w w' assume run: "run_state (serveOnce env cfg p rq path) w = (res, w')"
  have current: "callsKept p B ks w w1" if "run_state (onPool env Current) w = (x, w1)" for x w1
    using calls.keeps_current [OF any_env_ok] that by blast
  have acquire: "callsKept p B ks w1 w2" if "run_state (onPool env (\<lambda>_. TryAcquire i)) w1 = (b, w2)" for i b w1 w2
  proof -
    have "state_io_rel (callsKept p B ks) (onPool env (\<lambda>_. TryAcquire i))"
      using calls.op_law [where x = "OpTryAcquire i"] by (intro calls.keeps_onPool any_env_ok) simp
    then show ?thesis using that by blast
  qed
  have release: "callsKept p B ks w1 w2" if "run_state (updPool env (Release i)) w1 = (b, w2)" for i b w1 w2
  proof -
    have "state_io_rel (callsKept p B ks) (updPool env (Release i))"
      using calls.op_law [where x = "OpRelease i"] by (intro calls.keeps_updPool any_env_ok) simp
    then show ?thesis using that by blast
  qed
  from run show "callsKept p B ks w w'"
  proof (cases rule: serveOnce_cases)
    case exhausted
    then show ?thesis using current by blast
  next
    case saturated
    then show ?thesis using current acquire callsKept_trans by blast
  next
    case (served idx key w1 w2 w3 t w4 w5)
    show ?thesis
    proof (cases "keyed ks w")
      case False
      then show ?thesis by (auto simp: callsKept_def)
    next
      case True
      have key: "key \<in> set ks" by (rule current_key [OF True served(1,2)])
      have "state_io_rel (callsKept p B ks) (tryKey env cfg p idx key rq path)"
        by (rule calls.keeps_tryKey [OF any_env_ok]) (use key B calls_sends in blast)
      then have "callsKept p B ks w3 w4" using served(5) by blast
      then have "callsKept p B ks w3 w5"
        using state_io_relD [OF calls.keeps_concurrencyLog served(6)] callsKept_trans by blast
      moreover have "callsKept p B ks w2 w3" using calls_ensureMeasured served(4) by blast
      ultimately show ?thesis
        using current [OF served(1)] acquire [OF served(3)] release [OF served(7)] callsKept_trans by blast
    qed
  qed
qed

lemma calls_disabling:
  assumes "\<not> callsKept p B ks w v" and "run_state (serveOnce env cfg p rq path) w = (res, w')" and "rrKind res = resRotate"
  shows "state_io_rel (callsKept p B ks) (disableKey env p (rrIdx res) (rrKey res))"
proof -
  have "keyed ks w" using assms(1) by (auto simp: callsKept_def)
  from calls_disableKey [OF serveOnce_key [OF this assms(2,3)]] show ?thesis .
qed

lemma serveProfile_calls:
  assumes "\<And>key q. key \<in> set ks \<Longrightarrow> buildUpstream p key rq path = Some q \<Longrightarrow> B q"
  shows "state_io_rel (callsKept p B ks) (serveProfile fuel env cfg p rq path)"
  by (rule calls.talked_serveProfile [OF any_env_ok serveOnce_calls calls_disabling]) (use assms in blast)+

section \<open>How many calls\<close>

text \<open>What is done between the calls leaves both traces alone; \<open>tryKey\<close> writes them together.\<close>

definition still :: "world \<Rightarrow> world \<Rightarrow> bool" where
  "still w w' \<longleftrightarrow> wsent w' = wsent w \<and> wcalls w' = wcalls w"

interpretation still: talking_relation still "\<lambda>_. True"
  by unfold_locales (auto simp: still_def)

definition together :: "world \<Rightarrow> world \<Rightarrow> bool" where
  "together w w' \<longleftrightarrow> (\<exists>qs. wsent w' = wsent w @ qs \<and> wcalls w' = wcalls w @ qs)"

interpretation together: talking_relation together "\<lambda>_. True"
proof unfold_locales
  show "together a b \<Longrightarrow> together b c \<Longrightarrow> together a c" for a b c by (fastforce simp: together_def)
qed (auto simp: together_def)

lemma onPool_still: "run_state (onPool env f) w = (x, w') \<Longrightarrow> still w w'"
  by (auto simp: onPool_def Let_def settle_same still_def split: prod.splits)

lemma tryKey_calls:
  assumes "run_state (tryKey env cfg p idx key rq path) w = (t, w')"
  shows "length (wcalls w') + length (wsent w) = length (wcalls w) + length (wsent w')"
proof -
  have "state_io_rel together (tryKey env cfg p idx key rq path)"
    by (rule together.keeps_tryKey [OF any_env_ok]) (auto simp: together.sends_def together_def)
  then have "together w w'" using assms by blast
  then show ?thesis by (auto simp: together_def)
qed

lemma ensureMeasured_calls:
  assumes "run_state (ensureMeasured env p idx) w = (x, w')"
  shows "wsent w' = wsent w \<and> length (wcalls w') \<le> length (wcalls w) + 4"
proof -
  have bound: "length sent' \<le> length sent + 4"
    if "refreshOne net p now idx (r, pool, sent) = (r', pool', sent')" for net now r pool sent r' pool' sent'
    using refreshOne_trace [OF that] by (auto intro: order.trans [OF traffic_length])
  let ?w1 = "settle env w" and ?k = "wtick (settle env w)"
  obtain ro pool sent where m: "EnsureMeasured (net_of env) p (now_at env ?k) (others_at env ?k) idx (wrefresh ?w1, wpool ?w1, wcalls ?w1) = (ro, pool, sent)"
    by (metis prod_cases3)
  have w': "wsent w' = wsent w \<and> wcalls w' = sent"
    using assms m by (auto simp: ensureMeasured_def Let_def settle_same)
  moreover have "length sent \<le> length (wcalls ?w1) + 4"
    using m bound by (force simp: EnsureMeasured_def split: option.splits if_splits prod.splits)
  ultimately show ?thesis by (simp add: settle_same)
qed

lemma disableKey_calls:
  assumes "run_state (disableKey env p idx key) w = (x, w')"
  shows "wsent w' = wsent w \<and> length (wcalls w') \<le> length (wcalls w) + 4"
proof -
  obtain pool sent where d: "disableUntilReset (net_of env) p idx key (now_at env (wtick w)) (wpool (settle env w), wcalls (settle env w)) = (pool, sent)"
    by (metis surj_pair)
  have "length sent \<le> length (wcalls (settle env w)) + 4"
    using disable_trace [OF d] by (auto intro: order.trans [OF traffic_length])
  then show ?thesis using assms d by (auto simp: disableKey_def Let_def settle_same)
qed

text \<open>One pass: ten calls, none if no key was acquired; and what follows it: four.\<close>

lemma serveOnce_count:
  assumes "run_state (serveOnce env cfg p rq path) w = (res, w')"
  shows "length (wcalls w') \<le> length (wcalls w) + 10" and "rrKind res \<in> {resSaturated, resExhausted} \<Longrightarrow> still w w'"
proof -
  have "length (wcalls w') \<le> length (wcalls w) + 10 \<and> (rrKind res \<in> {resSaturated, resExhausted} \<longrightarrow> still w w')"
    using assms
  proof (cases rule: serveOnce_cases)
    case exhausted
    then show ?thesis using onPool_still [OF exhausted(1)] by (simp add: still_def)
  next
    case saturated
    then show ?thesis using onPool_still [OF saturated(1)] onPool_still [OF saturated(3)] by (simp add: still_def)
  next
    case (served idx key w1 w2 w3 t w4 w5)
    have "length (wsent w4) \<le> length (wsent w3) + 6"
      using tryLoop_sent [of env cfg p idx key rq path 6 "''no attempt''" w3 t w4] served(5)
      by (simp add: tryKey_def backoffSchedule_def eval_nat_numeral del: tryLoop.simps)
    moreover have "still w4 w5" by (rule state_io_relD [OF still.keeps_concurrencyLog served(6)])
    moreover have "still w5 w'" using served(7) unfolding updPool_def by (rule onPool_still)
    ultimately show ?thesis
      using served(8) onPool_still [OF served(1)] onPool_still [OF served(3)] ensureMeasured_calls [OF served(4)] tryKey_calls [OF served(5)]
      by (simp add: still_def classify_def Let_def)
  qed
  then show "length (wcalls w') \<le> length (wcalls w) + 10" "rrKind res \<in> {resSaturated, resExhausted} \<Longrightarrow> still w w'"
    by auto
qed

lemma afterRotate_count:
  assumes "run_state (afterRotate env p res) w = (b, w')"
  shows "wsent w' = wsent w \<and> length (wcalls w') \<le> length (wcalls w) + 4"
proof -
  have say: "still w1 w2" if "run_state (say f) w1 = (x, w2)" for f x w1 w2
    using state_io_relD [OF still.keeps_say that] .
  have mv: "still w1 w2" if "run_state (moveOn env c res) w1 = (x, w2)" for c x w1 w2
    using state_io_relD [OF still.keeps_moveOn [OF any_env_ok] that] .
  show ?thesis
    using assms unfolding afterRotate_def
    by (auto simp: still_def split: prod.splits if_splits dest!: say mv onPool_still disableKey_calls)
qed

lemma dispatch_count:
  assumes "run_state (dispatch env p res s) w = (e, w')"
  shows "wsent w' = wsent w \<and> length (wcalls w') \<le> length (wcalls w) + 4"
proof (cases "rrKind res = resRotate")
  case True
  then show ?thesis using assms by (auto simp: dispatch_def split: prod.splits dest!: afterRotate_count)
next
  case False
  have "state_io_rel still (dispatch env p res s)" by (rule still.entries.logged_dispatch [OF any_env_ok]) (use False in simp_all)
  then have "still w w'" using assms by blast
  then show ?thesis by (simp add: still_def)
qed

end
