(* ===== verification/Url_Properties.thy ===== *)
theory Url_Properties
  imports Go_Url "HOL-Library.Multiset"
begin

text \<open>
  Queries: what \<open>Values.Encode\<close> prints, \<open>URL.Query\<close> reads back; and the authority of an upstream URL
  is the configured one whatever path and query the client appends.
\<close>

section \<open>Escaping is undone\<close>

lemma of_hexChar: "n < 16 \<Longrightarrow> of_char (hexChar n) = (if n < 10 then 48 + n else 55 + n)"
  by (simp add: hexChar_def)

lemma unhex_hexChar: "n < 16 \<Longrightarrow> unhex (hexChar n) = Some n"
  by (simp add: unhex_def Let_def of_hexChar)

lemma hexChar_safe: "n < 16 \<Longrightarrow> hexChar n \<notin> {CHR ''&'', CHR ''='', CHR '';''}"
  using of_hexChar [of n] by (auto split: if_splits)

lemma nibbles: "of_char c div 16 < (16 :: nat)" "of_char c mod 16 < (16 :: nat)"
proof -
  have "of_char c < (256 :: nat)" by simp
  then show "of_char c div 16 < (16 :: nat)" by (simp only: less_mult_imp_div_less)
qed simp

lemma plain_query_char:
  "\<not> shouldEscape EncQuery c \<Longrightarrow> c \<notin> {CHR ''%'', CHR ''+'', CHR '' '', CHR ''&'', CHR ''='', CHR '';''}"
  by (auto simp: shouldEscape_def alnum_def isDigit_def isUpper_def isLower_def)

lemma escapeChar_safe: "set (escapeChar EncQuery c) \<inter> {CHR ''&'', CHR ''='', CHR '';''} = {}"
  using hexChar_safe [OF nibbles(1) [of c]] hexChar_safe [OF nibbles(2) [of c]] plain_query_char [of c]
  by (auto simp: escapeChar_def Let_def)

lemma QueryEscape_safe: "CHR ''&'' \<notin> set (QueryEscape s)" "CHR ''='' \<notin> set (QueryEscape s)" "CHR '';'' \<notin> set (QueryEscape s)"
  using escapeChar_safe by (fastforce simp: QueryEscape_def escape_def)+

lemma unescape_escapeChar: "unescapeUrl EncQuery (escapeChar EncQuery c @ r) = map_option ((#) c) (unescapeUrl EncQuery r)"
proof (cases "c = CHR '' '' \<or> \<not> shouldEscape EncQuery c")
  case True
  then show ?thesis
    using plain_query_char [of c] by (subst unescapeUrl.simps) (auto simp: escapeChar_def)
next
  case False
  moreover have "hexPair (hexChar (of_char c div 16) # hexChar (of_char c mod 16) # r) = Some (of_char c)"
    using nibbles [of c] by (simp add: hexPair_def unhex_hexChar)
  ultimately show ?thesis by (subst unescapeUrl.simps) (simp add: escapeChar_def Let_def)
qed

lemma unescape_QueryEscape: "unescapeUrl EncQuery (QueryEscape s) = Some s"
  by (induction s) (simp_all add: QueryEscape_def escape_def unescape_escapeChar)

section \<open>Splitting undoes joining\<close>

lemma splitOn_none: "c \<notin> set x \<Longrightarrow> splitOn c x = [x]"
  by (induction x) auto

lemma splitOn_sep: "c \<notin> set x \<Longrightarrow> splitOn c (x @ c # r) = x # splitOn c r"
  by (induction x) auto

lemma splitOn_join:
  assumes "\<forall>x\<in>set (y # ys). CHR ''&'' \<notin> set x"
  shows "splitOn (CHR ''&'') (joinAmp (y # ys)) = y # ys"
proof -
  have "splitOn (CHR ''&'') (y @ concat (map (\<lambda>s. CHR ''&'' # s) ys)) = y # ys"
    using assms
  proof (induction ys arbitrary: y)
    case Nil
    then show ?case by (simp add: splitOn_none)
  next
    case (Cons z zs)
    then show ?case using splitOn_sep [of "CHR ''&''" y "z @ concat (map (\<lambda>s. CHR ''&'' # s) zs)"] by simp
  qed
  then show ?thesis by (simp add: joinAmp_def)
qed

lemma cutAt_append: "c \<notin> set x \<Longrightarrow> cutAt c (x @ c # r) = (x, Some r)"
  by (induction x) auto

definition pairText :: "string \<times> string \<Rightarrow> string" where
  "pairText kw = QueryEscape (fst kw) @ ''='' @ QueryEscape (snd kw)"

lemma parsePair_text: "parsePair (pairText (k, w)) vs = valuesAdd k w vs"
  using QueryEscape_safe cutAt_append [of "CHR ''=''" "QueryEscape k" "QueryEscape w"]
  by (simp add: parsePair_def pairText_def cutRest_def unescape_QueryEscape)

lemma fold_parsePair: "fold parsePair (map pairText kws) vs = fold (\<lambda>(k, w). valuesAdd k w) kws vs"
  by (induction kws arbitrary: vs) (auto simp: parsePair_text)

section \<open>Values\<close>

definition values_ok :: "urlValues \<Rightarrow> bool" where
  "values_ok vs \<longleftrightarrow> distinct (map fst vs) \<and> (\<forall>e\<in>set vs. snd e \<noteq> [])"

lemma set_update_member: "e \<in> set (AList.update k v vs) \<Longrightarrow> e = (k, v) \<or> e \<in> set vs"
  by (induction vs) (auto split: if_splits)

lemma values_ok_Nil: "values_ok []"
  by (simp add: values_ok_def)

lemma valuesAdd_ok: "values_ok vs \<Longrightarrow> values_ok (valuesAdd k v vs)"
  using map_of_eq_None_iff [of vs k] set_update_member
  by (fastforce simp: values_ok_def valuesAdd_def distinct_update split: option.split)

lemma parseQuery_ok: "values_ok (parseQuery q)"
proof -
  have "values_ok (fold parsePair xs vs)" if "values_ok vs" for xs vs
    using that
    by (induction xs arbitrary: vs) (auto simp: parsePair_def valuesAdd_ok split: prod.split option.split)
  then show ?thesis by (simp add: parseQuery_def values_ok_Nil)
qed

lemma valuesSet_ok: "values_ok vs \<Longrightarrow> values_ok (valuesSet k v vs)"
  using set_update_member by (fastforce simp: values_ok_def valuesSet_def distinct_update)

lemma valuesSet_get: "map_of (valuesSet k v vs) = (map_of vs)(k \<mapsto> [v])"
  by (simp add: valuesSet_def update_conv')

definition pairsOf :: "urlValues \<Rightarrow> (string \<times> string) list" where
  "pairsOf vs = concat (map (\<lambda>(k, ws). map (Pair k) ws) vs)"

lemma add_more: "k \<notin> fst ` set vs \<Longrightarrow> ws \<noteq> [] \<Longrightarrow>
    fold (\<lambda>(k, w). valuesAdd k w) (map (Pair k) us) (vs @ [(k, ws)]) = vs @ [(k, ws @ us)]"
proof (induction us arbitrary: ws)
  case (Cons u us)
  have "map_of (vs @ [(k, ws)]) k = Some ws" using Cons.prems by (simp add: map_add_def map_of_eq_None_iff [THEN iffD2])
  moreover have "AList.update k (ws @ [u]) (vs @ [(k, ws)]) = vs @ [(k, ws @ [u])]"
    using Cons.prems(1) by (induction vs) auto
  ultimately show ?case using Cons by (simp add: valuesAdd_def)
qed simp

lemma add_entry: "k \<notin> fst ` set vs \<Longrightarrow> ws \<noteq> [] \<Longrightarrow>
    fold (\<lambda>(k, w). valuesAdd k w) (map (Pair k) ws) vs = vs @ [(k, ws)]"
  using add_more [of k vs "[hd ws]" "tl ws"]
  by (cases ws) (simp_all add: valuesAdd_def map_of_eq_None_iff [THEN iffD2])

lemma fold_pairs:
  "values_ok (us @ vs) \<Longrightarrow> fold (\<lambda>(k, w). valuesAdd k w) (pairsOf vs) us = us @ vs"
proof (induction vs arbitrary: us)
  case (Cons e vs)
  obtain k ws where e: "e = (k, ws)" by (cases e)
  have "fold (\<lambda>(k, w). valuesAdd k w) (map (Pair k) ws) us = us @ [(k, ws)]"
    using Cons.prems by (intro add_entry) (auto simp: values_ok_def e)
  then show ?case using Cons.IH [of "us @ [e]"] Cons.prems by (simp add: pairsOf_def e)
qed (simp add: pairsOf_def)

lemma insertKey_mset: "mset (foldr insertKey vs []) = mset vs"
proof -
  have "mset (insertKey e xs) = add_mset e (mset xs)" for e xs by (induction xs) auto
  then show ?thesis by (induction vs) auto
qed

lemma sorted_ok:
  assumes "values_ok vs"
  shows "values_ok (foldr insertKey vs [])" and "map_of (foldr insertKey vs []) = map_of vs"
proof -
  note m = insertKey_mset [of vs]
  have d: "distinct (map fst (foldr insertKey vs []))"
    using assms m by (metis values_ok_def mset_eq_imp_distinct_iff mset_map)
  then show "values_ok (foldr insertKey vs [])" using assms mset_eq_setD [OF m] by (simp add: values_ok_def)
  show "map_of (foldr insertKey vs []) = map_of vs"
    using assms d mset_eq_setD [OF m] by (intro map_of_eqI) (auto simp: values_ok_def)
qed

text \<open>Encoding and parsing a set of values gives them back, key by key and in the order of each key.\<close>

lemma parse_encode:
  assumes "values_ok vs"
  shows "map_of (parseQuery (valuesEncode vs)) = map_of vs"
proof -
  let ?ss = "foldr insertKey vs []"
  have enc: "valuesEncode vs = joinAmp (map pairText (pairsOf ?ss))"
    by (simp add: valuesEncode_def pairsOf_def pairText_def map_concat o_def case_prod_beta')
  have "parseQuery (valuesEncode vs) = ?ss"
  proof (cases "pairsOf ?ss")
    case Nil
    then have "?ss = []" using sorted_ok(1) [OF assms] by (cases ?ss) (auto simp: pairsOf_def values_ok_def)
    with Nil show ?thesis by (simp add: enc joinAmp_def parseQuery_def parsePair_def)
  next
    case (Cons x xs)
    have "CHR ''&'' \<notin> set (pairText kw)" for kw using QueryEscape_safe by (simp add: pairText_def)
    then have "splitOn (CHR ''&'') (valuesEncode vs) = map pairText (pairsOf ?ss)"
      unfolding enc Cons list.map by (intro splitOn_join) auto
    then show ?thesis
      using fold_pairs [of "[]" ?ss] sorted_ok(1) [OF assms] by (simp add: parseQuery_def fold_parsePair)
  qed
  then show ?thesis using sorted_ok(2) [OF assms] by simp
qed

section \<open>The authority\<close>

text \<open>A configured upstream: a scheme and a host, with a port or not, and nothing else.\<close>

definition plainHost :: "string \<Rightarrow> bool" where
  "plainHost h \<longleftrightarrow> h \<noteq> [] \<and> list_all (\<lambda>c. c \<notin> set ''/?#@%['') h"

definition upstreamBase :: "string \<Rightarrow> string \<Rightarrow> string \<Rightarrow> bool" where
  "upstreamBase sch h base \<longleftrightarrow> sch \<in> {''http'', ''https''} \<and> plainHost h \<and> base = sch @ ''://'' @ h"

lemma cutAt_fst: "fst (cutAt c s) = takeWhile (\<lambda>x. x \<noteq> c) s"
  by (induction s) (auto split: prod.splits)

lemma cutRest_fst: "fst (cutRest c s) = takeWhile (\<lambda>x. x \<noteq> c) s"
  using cutAt_fst [of c s] by (auto simp: cutRest_def split: prod.splits option.splits)

lemma cutAt_snd: "snd (cutAt c s) = None \<longleftrightarrow> c \<notin> set s"
  by (induction s) (auto split: prod.splits)

lemma splitQuery_fst: "fst (splitQuery rest u) = takeWhile (\<lambda>c. c \<noteq> CHR ''?'') rest"
proof (cases "hasSuffix rest ''?'' \<and> length (filter (\<lambda>c. c = CHR ''?'') rest) = 1")
  case True
  then obtain r where r: "rest = r @ ''?''" by (auto simp: hasSuffix_iff)
  with True have "CHR ''?'' \<notin> set r" by (auto simp: filter_empty_conv)
  then have "takeWhile (\<lambda>c. c \<noteq> CHR ''?'') (r @ ''?'') = r" by (subst takeWhile_append2) auto
  then show ?thesis using True by (auto simp: splitQuery_def r)
next
  case False
  then show ?thesis using cutRest_fst [of "CHR ''?''" rest] by (auto simp: splitQuery_def split: prod.splits)
qed

lemma splitQuery_frame:
  "uScheme (snd (splitQuery rest u)) = uScheme u \<and> uHost (snd (splitQuery rest u)) = uHost u \<and> uUser (snd (splitQuery rest u)) = uUser u"
  by (auto simp: splitQuery_def split: prod.split)

lemma setPath_frame: "setPath p u = Some u' \<Longrightarrow> uScheme u' = uScheme u \<and> uHost u' = uHost u \<and> uUser u' = uUser u"
  by (auto simp: setPath_def split: option.splits)

lemma setFragment_frame: "setFragment f u = Some u' \<Longrightarrow> uScheme u' = uScheme u \<and> uHost u' = uHost u \<and> uUser u' = uUser u"
  by (auto simp: setFragment_def split: option.splits)

lemma unescape_host: "CHR ''%'' \<notin> set h \<Longrightarrow> unescapeUrl EncHost h = Some h' \<Longrightarrow> h' = h"
proof (induction h arbitrary: h')
  case (Cons c h)
  then show ?case by (subst (asm) (2) unescapeUrl.simps) (auto split: if_splits)
qed simp

lemma parseAuthority_plain:
  assumes "plainHost h" and "parseAuthority h = Some (user, h')"
  shows "user = None \<and> h' = h"
proof -
  have c: "CHR ''@'' \<notin> set h" "CHR ''['' \<notin> set h" "CHR ''%'' \<notin> set h"
    using assms(1) by (auto simp: plainHost_def list_all_iff)
  then have "cutLast (CHR ''@'') h = None"
    using cutAt_snd [of "CHR ''@''" "rev h"] by (auto simp: cutLast_def split: prod.splits option.splits)
  then show ?thesis
    using assms(2) c unescape_host [OF c(3), of h']
    by (auto simp: parseAuthority_def parseHost_def split: prod.splits if_splits)
qed

lemma urlParse_authority:
  assumes base: "upstreamBase sch h base" and tl: "rest = [] \<or> hd rest \<in> {CHR ''/'', CHR ''?''}"
    and ok: "urlParse (base @ rest) = Some u"
  shows "uScheme u = sch \<and> uHost u = h \<and> uUser u = None"
proof -
  let ?nh = "\<lambda>c. c \<noteq> CHR ''#''" and ?nq = "\<lambda>c. c \<noteq> CHR ''?''" and ?ns = "\<lambda>c. c \<noteq> CHR ''/''"
  have h: "h \<noteq> []" "\<forall>c\<in>set h. c \<notin> {CHR ''/'', CHR ''?'', CHR ''#''}" and sch: "sch \<in> {''http'', ''https''}"
    and b: "base = sch @ ''://'' @ h"
    using base by (auto simp: upstreamBase_def plainHost_def list_all_iff)
  define t1 where "t1 = takeWhile ?nh rest"
  define t2 where "t2 = takeWhile ?nq t1"
  have t1: "t1 = [] \<or> hd t1 \<in> {CHR ''/'', CHR ''?''}" using tl by (cases rest) (auto simp: t1_def)
  have t2: "t2 = [] \<or> hd t2 = CHR ''/''" using t1 by (cases t1) (auto simp: t2_def)
  have hh: "takeWhile ?nh (h @ x) = h @ takeWhile ?nh x" "takeWhile ?nq (h @ x) = h @ takeWhile ?nq x"
    "takeWhile ?ns (h @ x) = h @ takeWhile ?ns x" for x
    using h(2) by (auto intro!: takeWhile_append2)
  have raw: "fst (cutRest (CHR ''#'') (base @ rest)) = sch @ ''://'' @ h @ t1"
    using sch by (auto simp: cutRest_fst b hh t1_def)
  have gs: "getScheme (sch @ ''://'' @ h @ t1) = Some (sch, ''//'' @ h @ t1)" and low: "toLower sch = sch"
    using sch by (auto simp: getScheme_def isLower_def isUpper_def isDigit_def toLower_def lowerChar_def)
  obtain rest' v where q: "splitQuery (''//'' @ h @ t1) (emptyUrl\<lparr>uScheme := sch\<rparr>) = (rest', v)" by (metis surj_pair)
  have rest': "rest' = ''//'' @ h @ t2"
    using splitQuery_fst [of "''//'' @ h @ t1" "emptyUrl\<lparr>uScheme := sch\<rparr>"] q by (simp add: hh t2_def)
  have v: "uScheme v = sch"
    using splitQuery_frame [of "''//'' @ h @ t1" "emptyUrl\<lparr>uScheme := sch\<rparr>"] q by simp
  have auth: "takeWhile ?ns (h @ t2) = h" using t2 h(2) by (cases t2) (auto simp: hh)
  obtain x where x: "parseNoFragment (sch @ ''://'' @ h @ t1) = Some x"
    and u: "u = x \<or> (\<exists>f. setFragment f x = Some u)"
    using ok raw by (auto simp: urlParse_def split: prod.splits option.splits if_splits)
  have "parseRest rest' v = Some x"
    using x gs q low sch by (auto simp: parseNoFragment_def split: if_splits)
  moreover have "sch \<noteq> []" using sch by auto
  ultimately obtain user h' where "parseAuthority h = Some (user, h')"
    "setPath (drop (length h) (h @ t2)) (v\<lparr>uUser := user, uHost := h'\<rparr>) = Some x"
    using v auth by (auto simp: parseRest_def rest' Let_def split: option.splits)
  with parseAuthority_plain [of h user h'] base v setPath_frame
  have "uScheme x = sch \<and> uHost x = h \<and> uUser x = None" by (fastforce simp: upstreamBase_def)
  then show ?thesis using u setFragment_frame by auto
qed
section \<open>The query of a parsed URL\<close>

lemma cutRest_none: "c \<notin> set s \<Longrightarrow> cutRest c s = (s, [])"
  using cutAt_snd [of c s] cutAt_fst [of c s]
  by (cases "cutAt c s") (auto simp: cutRest_def intro: takeWhile_eq_all_conv [THEN iffD2])

lemma setPath_query: "setPath p u = Some u' \<Longrightarrow> uRawQuery u' = uRawQuery u"
  by (auto simp: setPath_def split: option.splits)

lemma urlParse_query:
  assumes base: "upstreamBase sch h base" and tl: "hd path = CHR ''/''" "path \<noteq> []" "CHR ''?'' \<notin> set path"
    and qry: "CHR ''?'' \<notin> set qs" and frag: "CHR ''#'' \<notin> set path \<union> set qs"
    and ok: "urlParse (base @ path @ (if qs = [] then [] else CHR ''?'' # qs)) = Some u"
  shows "uRawQuery u = qs"
proof -
  let ?tail = "if qs = [] then [] else CHR ''?'' # qs"
  let ?v = "emptyUrl\<lparr>uScheme := sch, uRawQuery := qs\<rparr>"
  have h: "CHR ''?'' \<notin> set h" "CHR ''#'' \<notin> set h" and sch: "sch \<in> {''http'', ''https''}" and b: "base = sch @ ''://'' @ h"
    using base by (auto simp: upstreamBase_def plainHost_def list_all_iff)
  have "cutRest (CHR ''#'') (base @ path @ ?tail) = (base @ path @ ?tail, [])"
    using frag h sch by (intro cutRest_none) (auto simp: b)
  then have p: "parseNoFragment (base @ path @ ?tail) = Some u"
    using ok by (auto simp: urlParse_def split: option.splits)
  have gs: "getScheme (base @ path @ ?tail) = Some (sch, ''//'' @ h @ path @ ?tail)" and low: "toLower sch = sch"
    using sch by (auto simp: b getScheme_def isLower_def isUpper_def isDigit_def toLower_def lowerChar_def)
  have "splitQuery (''//'' @ h @ path @ ?tail) (emptyUrl\<lparr>uScheme := sch\<rparr>) = (''//'' @ h @ path, ?v)"
  proof (cases "qs = []")
    case True
    have n: "CHR ''?'' \<notin> set (''//'' @ h @ path)" using h tl(3) by simp
    have "\<not> hasSuffix (''//'' @ h @ path) ''?''"
      using n unfolding hasSuffix_iff by (metis in_set_conv_decomp)
    then show ?thesis using True cutRest_none [OF n] by (simp add: splitQuery_def emptyUrl_def)
  next
    case False
    have "\<not> hasSuffix (''//'' @ h @ path @ ?tail) ''?''"
    proof
      assume "hasSuffix (''//'' @ h @ path @ ?tail) ''?''"
      then have "last (''//'' @ h @ path @ ?tail) = CHR ''?''" unfolding hasSuffix_iff by (metis last_snoc)
      then have "last qs = CHR ''?''" using False by simp
      then show False using qry last_in_set [OF False] by simp
    qed
    moreover have "cutAt (CHR ''?'') ((''//'' @ h @ path) @ CHR ''?'' # qs) = (''//'' @ h @ path, Some qs)"
      using h tl(3) by (intro cutAt_append) simp
    ultimately show ?thesis using False by (simp add: splitQuery_def cutRest_def)
  qed
  then have r: "parseRest (''//'' @ h @ path) ?v = Some u"
    using p gs low sch by (auto simp: parseNoFragment_def b split: if_splits)
  then obtain user h' x where "setPath x (?v\<lparr>uUser := user, uHost := h'\<rparr>) = Some u"
    using sch by (auto simp: parseRest_def Let_def split: option.splits prod.splits if_splits)
  from setPath_query [OF this] show ?thesis by simp
qed

section \<open>Escaped text is plain\<close>

definition urlPlain :: "char \<Rightarrow> bool" where
  "urlPlain c \<longleftrightarrow> alnum c \<or> c \<in> set ''-_.~%+=&''"

lemma hexChar_alnum: "n < 16 \<Longrightarrow> alnum (hexChar n)"
  by (auto simp: hexChar_def alnum_def isDigit_def isUpper_def)

lemma QueryEscape_plain: "list_all urlPlain (QueryEscape s)"
proof -
  have "list_all urlPlain (escapeChar EncQuery c)" for c
  proof -
    have "\<not> shouldEscape EncQuery c \<Longrightarrow> urlPlain c"
      by (auto simp: shouldEscape_def urlPlain_def split: if_splits)
    moreover have "(of_char c :: nat) div 16 < 16" using nat_of_char_less_256 [of c] by linarith
    ultimately show ?thesis
      by (auto simp: escapeChar_def Let_def urlPlain_def intro!: hexChar_alnum)
  qed
  then show ?thesis by (induction s) (auto simp: QueryEscape_def escape_def)
qed

end
