(* ===== verification/Proxy_Demo.thy ===== *)
theory Proxy_Demo
  imports Server Proxy_Calls Url_Properties Profile_Properties
begin

text \<open>
  Every server starts with well-formed pools; and a concrete server with a quiet environment, for the
  closed instances of the handler's properties.
\<close>

lemma startWorlds_wf: "config_ranges cfg \<Longrightarrow> pool_wf (wpool (startWorlds cfg n))"
proof -
  assume c: "config_ranges cfg"
  have "pool_wf (wpool w)" if "map_of (map (\<lambda>(p, pool). (Name p, startWorldOf cfg pool)) (buildProfiles cfg)) n = Some w" for w
    using map_of_SomeD [OF that] built_pools [OF c] by (auto simp: list_all_iff startWorldOf_def)
  then show ?thesis by (simp add: startWorlds_def noWorld_def NewKeyPool_wf split: option.split)
qed

lemma demoConfig_ranges: "config_ranges demoConfig"
  by (simp add: config_ranges_def demoConfig_def noFinance_def)

text \<open>Nobody else uses the server; the clock advances by a second at every step.\<close>

definition quietEnv :: "network \<Rightarrow> env" where
  "quietEnv net = \<lparr>now_at = \<lambda>k. goDate 2026 1 1 + int k * Second, others_at = \<lambda>_. [], stamps_at = \<lambda>_. [],
     canceled_at = \<lambda>_. False, waits_at = \<lambda>_. [], net_of = net\<rparr>"

lemma quietEnv_ok: "env_ok A (quietEnv net)"
  by (simp add: env_ok_def quietEnv_def)

lemma quietEnv_clock: "\<exists>K. \<forall>k\<ge>K. t \<le> now_at (quietEnv net) k"
proof (intro exI allI impI)
  fix k assume "nat \<bar>t - goDate 2026 1 1\<bar> \<le> k"
  then have "t - goDate 2026 1 1 \<le> int k" by linarith
  also have "\<dots> \<le> int k * Second" by simp
  finally show "t \<le> now_at (quietEnv net) k" by (simp add: quietEnv_def)
qed

definition demoProfiles :: "Profile list" where
  "demoProfiles = map fst (buildProfiles demoConfig)"

definition demoWorlds :: "string \<Rightarrow> world" where
  "demoWorlds = startWorlds demoConfig"

lemma demoWorlds_wf: "pool_wf (wpool (demoWorlds n))"
  unfolding demoWorlds_def by (rule startWorlds_wf [OF demoConfig_ranges])

lemma demoProfiles_eq: "demoProfiles = map fst [firecrawlProfile demoConfig, tavilyProfile demoConfig,
    exaProfile demoConfig, financeProfile ''fmp'' ''apikey'' demoConfig (FMP demoConfig)]"
  by (simp add: demoProfiles_def buildProfiles_def demoConfig_def noFinance_def)

definition demoRequest :: "string \<Rightarrow> inreq" where
  "demoRequest path = \<lparr>iMethod = ''POST'', iPath = path, iRawQuery = [],
     iHeader = [(''Authorization'', [''Bearer client''])], iHost = ''localhost:8788'', iBody = [], iBodyErr = None\<rparr>"

definition replyWith :: "int \<Rightarrow> string \<Rightarrow> outcome" where
  "replyWith status body = Answered \<lparr>rStatus = status, rHeader = [(''Content-Type'', [''application/json''])],
     rBody = body, rReadErr = None\<rparr>"

end
