(* ===== verification/Proxy_Properties.thy ===== *)
theory Proxy_Properties
  imports Proxy_Demo
begin

text \<open>
  What the handler guarantees: for the pool and its slots, for the keys, for the number of upstream
  requests, that it returns and does not panic, and where it does not do what its comments say.
\<close>

section \<open>The handler on the worlds of all profiles\<close>

lemma ServeHTTP_cases:
  assumes "ServeHTTP fuel env cfg ps rq ws = (a, ws')"
  obtains (unmatched) w' where "matchProfile ps (iPath rq) (FirecrawlLegacyFallback cfg) = None"
      "run_state (serveUnmatched env rq) (ws ''none'') = (a, w')" "ws' = ws(''none'' := w')"
  | (matched) p path w' where "matchProfile ps (iPath rq) (FirecrawlLegacyFallback cfg) = Some (p, path)"
      "run_state (serveProfile fuel env cfg p rq path) (ws (Name p)) = (a, w')" "ws' = ws(Name p := w')"
  using assms by (auto simp: ServeHTTP_def split: option.splits prod.splits)

lemma ServeHTTP_relation:
  assumes "ServeHTTP fuel env cfg ps rq ws = (a, ws')" and "\<And>w. R w w" and "state_io_rel R (serveUnmatched env rq)"
    and "\<And>p path. matchProfile ps (iPath rq) (FirecrawlLegacyFallback cfg) = Some (p, path) \<Longrightarrow>
      state_io_rel R (serveProfile fuel env cfg p rq path)"
  shows "R (ws n) (ws' n)"
  using assms(1)
proof (cases rule: ServeHTTP_cases)
  case (matched p path w')
  then show ?thesis using assms(2) assms(4) [OF matched(1)] by auto
next
  case (unmatched w')
  then show ?thesis using assms(2,3) by auto
qed

text \<open>
  Whatever the upstream answers, whatever the other goroutines do in between and however the
  request ends, every pool the handler touches stays well formed (its slices of one length, the
  balances within \<open>int64\<close>, no key above the concurrency cap) and keeps its keys, thresholds and cap.
\<close>

theorem ServeHTTP_keeps_pools:
  assumes "ServeHTTP fuel env cfg ps rq ws = (a, ws')" and "pool_wf (wpool (ws n))"
  shows "pool_wf (wpool (ws' n)) \<and> pool_config (wpool (ws' n)) = pool_config (wpool (ws n))"
proof -
  have "poolKept (ws n) (ws' n)"
    by (rule ServeHTTP_relation [OF assms(1)])
      (auto simp: kept.R_refl intro!: kept.keeps_serveUnmatched kept.keeps_serveProfile any_env_ok serveOnce_kept)
  then show ?thesis using assms(2) by (simp add: poolKept_def)
qed

text \<open>
  C3: Every request gives back the in-flight slots it takes, on every path (a reply, a rejection, a
  network error, an exhausted or saturated pool, a client that goes away): when the others leave the
  slots alone, each key carries the same number of requests after the handler as before.
\<close>

theorem ServeHTTP_returns_slots:
  assumes "ServeHTTP fuel env cfg ps rq ws = (a, ws')" and "env_ok noSlotOp env" and "pool_wf (wpool (ws n))"
  shows "heldSlots (wpool (ws' n)) i = heldSlots (wpool (ws n)) i"
proof -
  have "slotsKept (ws n) (ws' n)"
    by (rule ServeHTTP_relation [OF assms(1)])
      (auto simp: slotk.R_refl intro!: slotk.keeps_serveUnmatched slotk.keeps_serveProfile assms(2) serveOnce_slots)
  then show ?thesis using assms(3) by (simp add: slotsKept_def)
qed

section \<open>Keys and destinations\<close>

lemma map_of_dropHopByHop: "map_of (dropHopByHop h) k = (if isHopByHop k then None else map_of h k)"
proof -
  have canon: "canonKey k = k" if "isHopByHop k" for k
  proof -
    have "\<forall>k\<in>set [''Connection'', ''Keep-Alive'', ''Proxy-Authenticate'', ''Proxy-Authorization'',
       ''Te'', ''Trailers'', ''Transfer-Encoding'', ''Upgrade'']. canonKey k = k" by code_simp
    then show ?thesis using that by (auto simp: isHopByHop_def)
  qed
  let ?f = "\<lambda>k h'. if isHopByHop k then hdrDel h' k else h'"
  have "map_of (fold ?f ks g) k = (if isHopByHop k \<and> k \<in> set ks then None else map_of g k)" for ks g
    by (induction ks arbitrary: g) (auto simp: map_of_hdrDel canon)
  then show ?thesis by (auto simp: dropHopByHop_def map_of_eq_None_iff [THEN iffD2])
qed

lemma hdrVals_dropHopByHop: "\<not> isHopByHop (canonKey k) \<Longrightarrow> hdrVals (dropHopByHop h) k = hdrVals h k"
  by (simp add: hdrVals_def map_of_dropHopByHop)

text \<open>The three ways of authentication that \<open>buildProfiles\<close> configures.\<close>

definition authKind :: "Profile \<Rightarrow> bool" where
  "authKind p \<longleftrightarrow> (AuthHeader p, AuthQueryParam p) \<in>
     {([], []), (''x-api-key'', []), ([], ''token''), ([], ''apikey''), ([], ''api_token'')}"

text \<open>
  The request carries the pool's key in the profile's place and no other credential there: the
  client's \<open>Authorization\<close> is gone, and with query authentication every other parameter is as sent.
\<close>

definition authenticated :: "Profile \<Rightarrow> string \<Rightarrow> url \<Rightarrow> request \<Rightarrow> bool" where
  "authenticated p key u q \<longleftrightarrow>
     hdrVals (qHeader q) ''Authorization'' =
       (if AuthHeader p = [] \<and> AuthQueryParam p = [] then [''Bearer '' @ key] else []) \<and>
     (AuthHeader p \<noteq> [] \<longrightarrow> hdrVals (qHeader q) (AuthHeader p) = [key]) \<and>
     (if AuthHeader p = [] \<and> AuthQueryParam p \<noteq> []
      then map_of (parseQuery (uRawQuery (qUrl q))) = (map_of (parseQuery (uRawQuery u)))(AuthQueryParam p \<mapsto> [key])
      else uRawQuery (qUrl q) = uRawQuery u)"

lemma canon_auth: "canonKey ''Authorization'' = ''Authorization''" "canonKey ''Host'' = ''Host''" "canonKey ''x-api-key'' = ''X-Api-Key''"
  by code_simp+

text \<open>
  The request is the one the client asked for: its method, its body, and the path of the URL \<open>u\<close>
  (with the query: \<open>authenticated\<close>).
\<close>

definition clientCall :: "inreq \<Rightarrow> url \<Rightarrow> request \<Rightarrow> bool" where
  "clientCall rq u q \<longleftrightarrow> qMethod q = (if iMethod rq = [] then ''GET'' else iMethod rq) \<and> qBody q = iBody rq \<and>
     uPath (qUrl q) = uPath u \<and> uRawPath (qUrl q) = uRawPath u"

lemma authenticated_build:
  assumes "buildUpstream p key rq path = Some q" and "authKind p"
  shows "\<exists>u. urlParse (Upstream p @ path @ (if iRawQuery rq = [] then [] else ''?'' @ iRawQuery rq)) = Some u \<and>
    authenticated p key u q \<and> uScheme (qUrl q) = uScheme u \<and> uHost (qUrl q) = removeEmptyPort (uHost u) \<and>
    uUser (qUrl q) = uUser u \<and> qHost q = UpstreamHost p \<and> clientCall rq u q"
proof -
  let ?url = "Upstream p @ path @ (if iRawQuery rq = [] then [] else ''?'' @ iRawQuery rq)"
  obtain q0 where q0: "NewRequest (iMethod rq) ?url (iBody rq) = Some q0"
    and q: "q = (let h = hdrDel (hdrDel (copyHeaders (qHeader q0) (iHeader rq)) ''Authorization'') ''Host'';
              q1 = (authenticate p key (q0\<lparr>qHeader := h\<rparr>))\<lparr>qHost := UpstreamHost p\<rparr>
          in q1\<lparr>qHeader := dropHopByHop (qHeader q1)\<rparr>)"
    using assms(1) by (auto simp: buildUpstream_def Let_def)
  obtain u where u: "urlParse ?url = Some u" and q0u: "qUrl q0 = u\<lparr>uHost := removeEmptyPort (uHost u)\<rparr>" "qBody q0 = iBody rq"
      "qMethod q0 = (if iMethod rq = [] then ''GET'' else iMethod rq)"
    using q0 by (auto simp: NewRequest_def Let_def split: if_splits option.splits)
  define h where "h = hdrDel (hdrDel (copyHeaders (qHeader q0) (iHeader rq)) ''Authorization'') ''Host''"
  have noauth: "hdrVals h ''Authorization'' = []"
    unfolding h_def by (subst hdrVals_hdrDel_other) (simp_all add: canon_auth)
  have hop: "\<not> isHopByHop (canonKey ''Authorization'')" "\<not> isHopByHop (canonKey ''x-api-key'')"
    by (simp_all add: canon_auth isHopByHop_def)
  have enc: "map_of (parseQuery (valuesEncode (valuesSet k v (parseQuery s)))) = (map_of (parseQuery s))(k \<mapsto> [v])" for k v s
    using parse_encode [OF valuesSet_ok [OF parseQuery_ok]] by (simp add: valuesSet_get)
  have "authenticated p key u q"
    using assms(2) noauth hop q0u
    by (auto simp: authKind_def authenticated_def q h_def [symmetric] authenticate_def setHeader_def Let_def
        hdrVals_dropHopByHop enc canon_auth)
  moreover have "uScheme (qUrl q) = uScheme u \<and> uHost (qUrl q) = removeEmptyPort (uHost u) \<and> uUser (qUrl q) = uUser u
      \<and> qHost q = UpstreamHost p \<and> clientCall rq u q"
    using q0u by (simp add: q Let_def authenticate_def setHeader_def clientCall_def)
  ultimately show ?thesis using u by blast
qed

lemma matchLoop_result:
  assumes "matchLoop path legacy d f ps = Some (p, path')" and "path \<noteq> []" and "hd path = CHR ''/''"
  shows "(p \<in> set ps \<or> d = Some p \<or> f = Some p) \<and> path' \<noteq> [] \<and> hd path' = CHR ''/''"
  using assms
proof (induction ps arbitrary: d f)
  case Nil
  then show ?case by (auto split: option.splits if_splits)
next
  case (Cons x ps)
  have "drop (length (RoutePrefix x)) path \<noteq> [] \<and> hd (drop (length (RoutePrefix x)) path) = CHR ''/''"
    if "hasPrefix path (RoutePrefix x @ ''/'')" using that by (auto simp: hasPrefix_iff)
  then show ?case using Cons by (fastforce simp: Let_def split: if_splits)
qed

definition rooted :: "inreq \<Rightarrow> bool" where
  "rooted rq \<longleftrightarrow> iPath rq \<noteq> [] \<and> hd (iPath rq) = CHR ''/''"

lemma matchProfile_result:
  assumes "matchProfile ps (iPath rq) legacy = Some (p, path)" and "rooted rq"
  shows "p \<in> set ps \<and> path \<noteq> [] \<and> hd path = CHR ''/''"
  using matchLoop_result [of "iPath rq" legacy None None ps p path] assms
  by (simp add: matchProfile_def rooted_def)

definition plainProfile :: "Profile \<Rightarrow> bool" where
  "plainProfile p \<longleftrightarrow> authKind p \<and> (\<exists>sch h. upstreamBase sch h (Upstream p))"

text \<open>
  \<open>q\<close> is the client's request (its method and body, and the path and query that its URL, put behind the
  upstream, names), carries \<open>key\<close>, and goes to the profile's configured scheme and host.
\<close>

definition sentFor :: "Profile \<Rightarrow> string \<Rightarrow> inreq \<Rightarrow> string \<Rightarrow> request \<Rightarrow> bool" where
  "sentFor p key rq path q \<longleftrightarrow> (\<exists>sch h u. upstreamBase sch h (Upstream p) \<and>
     urlParse (Upstream p @ path @ (if iRawQuery rq = [] then [] else ''?'' @ iRawQuery rq)) = Some u \<and>
     authenticated p key u q \<and> clientCall rq u q \<and>
     uScheme (qUrl q) = sch \<and> uHost (qUrl q) = removeEmptyPort h \<and> uUser (qUrl q) = None \<and> qHost q = UpstreamHost p)"

lemma sentFor_build:
  assumes "buildUpstream p key rq path = Some q" and "plainProfile p" and "path \<noteq> []" and "hd path = CHR ''/''"
  shows "sentFor p key rq path q"
proof -
  obtain sch h where b: "upstreamBase sch h (Upstream p)" and k: "authKind p" using assms(2) by (auto simp: plainProfile_def)
  let ?rest = "path @ (if iRawQuery rq = [] then [] else ''?'' @ iRawQuery rq)"
  obtain u where u: "urlParse (Upstream p @ ?rest) = Some u" "authenticated p key u q"
    "uScheme (qUrl q) = uScheme u" "uHost (qUrl q) = removeEmptyPort (uHost u)" "uUser (qUrl q) = uUser u"
    "qHost q = UpstreamHost p" "clientCall rq u q"
    using authenticated_build [OF assms(1) k] by auto
  have "?rest = [] \<or> hd ?rest \<in> {CHR ''/'', CHR ''?''}" using assms(3,4) by simp
  from urlParse_authority [OF b this u(1)] u b show ?thesis unfolding sentFor_def by auto
qed

text \<open>
  \<open>q\<close> is the profile's request for its usage: a GET without a body that carries \<open>key\<close>, and nothing else, as
  a bearer token (Apify: as the one query parameter), and goes to the configured scheme and host.
\<close>

definition usageFor :: "Profile \<Rightarrow> string \<Rightarrow> request \<Rightarrow> bool" where
  "usageFor p key q \<longleftrightarrow> \<not> accountedProfile p \<and> (\<exists>sch h. upstreamBase sch h (Upstream p) \<and>
     uScheme (qUrl q) = sch \<and> uHost (qUrl q) = removeEmptyPort h \<and> uUser (qUrl q) = None \<and> qHost q = removeEmptyPort h) \<and>
     qMethod q = ''GET'' \<and> qBody q = [] \<and>
     hdrVals (qHeader q) ''Authorization'' = (if Name p = ''apify'' then [] else [''Bearer '' @ key]) \<and>
     (if Name p = ''apify'' then map_of (parseQuery (uRawQuery (qUrl q))) = [''token'' \<mapsto> [key]] else uRawQuery (qUrl q) = [])"

lemma token_query:
  "map_of (parseQuery (''token='' @ QueryEscape key)) = [''token'' \<mapsto> [key]]"
  "c \<in> {CHR ''?'', CHR ''#''} \<Longrightarrow> c \<notin> set (''token='' @ QueryEscape key)"
proof -
  have t: "QueryEscape ''token'' = ''token''" by code_simp
  have "valuesEncode [(''token'', [key])] = ''token='' @ QueryEscape key"
    using t by (simp add: valuesEncode_def joinAmp_def)
  with parse_encode [of "[(''token'', [key])]"] show "map_of (parseQuery (''token='' @ QueryEscape key)) = [''token'' \<mapsto> [key]]"
    by (simp add: values_ok_def)
  show "c \<in> {CHR ''?'', CHR ''#''} \<Longrightarrow> c \<notin> set (''token='' @ QueryEscape key)"
    using QueryEscape_plain [of key] by (auto simp: list_all_iff urlPlain_def alnum_def isDigit_def isUpper_def isLower_def)
qed

lemma get_request:
  assumes "NewRequest ''GET'' (base @ path @ (if qs = [] then [] else CHR ''?'' # qs)) [] = Some q" and "upstreamBase sch h base"
    and "hd path = CHR ''/''" "path \<noteq> []" "CHR ''?'' \<notin> set path" "CHR ''?'' \<notin> set qs" "CHR ''#'' \<notin> set path \<union> set qs"
  shows "uScheme (qUrl q) = sch \<and> uHost (qUrl q) = removeEmptyPort h \<and> uUser (qUrl q) = None \<and> qHost q = removeEmptyPort h \<and>
    qMethod q = ''GET'' \<and> qBody q = [] \<and> qHeader q = [] \<and> uRawQuery (qUrl q) = qs"
proof -
  let ?rest = "path @ (if qs = [] then [] else CHR ''?'' # qs)"
  obtain u where u: "urlParse (base @ ?rest) = Some u"
    and q: "qUrl q = u\<lparr>uHost := removeEmptyPort (uHost u)\<rparr>" "qHost q = removeEmptyPort (uHost u)" "qMethod q = ''GET''" "qBody q = []" "qHeader q = []"
    using assms(1) by (auto simp: NewRequest_def Let_def split: if_splits option.splits)
  have "?rest = [] \<or> hd ?rest \<in> {CHR ''/'', CHR ''?''}" using assms(3,4) by simp
  from urlParse_authority [OF assms(2) this u] urlParse_query [OF assms(2-7) u] q show ?thesis by simp
qed

lemma usageFor_query:
  assumes "usageQuery p key = Some q" and "plainProfile p" and "\<not> accountedProfile p"
  shows "usageFor p key q"
proof -
  obtain sch h where b: "upstreamBase sch h (Upstream p)" using assms(2) by (auto simp: plainProfile_def)
  have hdr: "canonKey ''Accept'' \<noteq> canonKey ''Authorization''" by code_simp
  show ?thesis
  proof (cases "Name p = ''apify''")
    case True
    then obtain q0 where q0: "NewRequest ''GET'' (Upstream p @ ''/v2/users/me/limits'' @ CHR ''?'' # ''token='' @ QueryEscape key) [] = Some q0"
      and q: "q = setHeader ''Accept'' ''application/json'' q0"
      using assms(1) by (auto simp: usageQuery_def apifyRequest_def)
    have "NewRequest ''GET'' (Upstream p @ ''/v2/users/me/limits'' @
        (if ''token='' @ QueryEscape key = [] then [] else CHR ''?'' # ''token='' @ QueryEscape key)) [] = Some q0"
      using q0 by simp
    from get_request [OF this b] token_query(2) [of _ key] have "uScheme (qUrl q0) = sch \<and> uHost (qUrl q0) = removeEmptyPort h \<and>
        uUser (qUrl q0) = None \<and> qHost q0 = removeEmptyPort h \<and> qMethod q0 = ''GET'' \<and> qBody q0 = [] \<and> qHeader q0 = [] \<and>
        uRawQuery (qUrl q0) = ''token='' @ QueryEscape key"
      by auto
    then show ?thesis
      using assms(3) b True hdr by (auto simp: usageFor_def q setHeader_def token_query(1) [simplified] hdrVals_def map_of_hdrSet)
  next
    case False
    let ?path = "if Name p = ''tavily'' then ''/usage'' else ''/v2/team/credit-usage''"
    obtain q0 where q0: "NewRequest ''GET'' (Upstream p @ ?path) [] = Some q0"
      and q: "q = setHeader ''Accept'' ''application/json'' (setHeader ''Authorization'' (''Bearer '' @ key) q0)"
      using assms(1) False by (auto simp: usageQuery_def usageRequest_def split: if_splits)
    have "NewRequest ''GET'' (Upstream p @ ?path @ (if [] = ([] :: string) then [] else CHR ''?'' # [])) [] = Some q0"
      using q0 by simp
    from get_request [OF this b] have "uScheme (qUrl q0) = sch \<and> uHost (qUrl q0) = removeEmptyPort h \<and> uUser (qUrl q0) = None \<and>
        qHost q0 = removeEmptyPort h \<and> qMethod q0 = ''GET'' \<and> qBody q0 = [] \<and> uRawQuery (qUrl q0) = []"
      by auto
    then show ?thesis using assms(3) b False hdr by (auto simp: usageFor_def q setHeader_def)
  qed
qed

text \<open>
  C4: A key is used only towards its own provider. Every request that the program gives to
  \<open>client.Do\<close> while it handles a client's request (the attempts of \<open>tryKey\<close> and the usage fetches of
  \<open>EnsureMeasured\<close> and \<open>disableUntilReset\<close>) carries one key of the matched profile's pool, goes to the scheme and
  host configured for that profile whatever path and query the client chose, and is one of two: the
  client's own request (its method, body, path and query), with the client's \<open>Authorization\<close> dropped
  and the provider's own place for a key (header or query parameter) holding the key alone; or the profile's GET of its
  usage with the key and nothing of the client's. Supposed: the configured upstreams are a scheme
  and a host without more, and the client's path starts with a slash. Not covered: what
  \<open>client.Do\<close> sends by itself when it follows a redirect.
\<close>

theorem keys_go_to_their_provider:
  assumes "ServeHTTP fuel env cfg ps rq ws = (a, ws')" and "keyed ks (ws n)"
    and "rooted rq" and "list_all plainProfile ps"
  shows "\<exists>qs. wcalls (ws' n) = wcalls (ws n) @ qs \<and>
    (\<forall>q\<in>set qs. \<exists>p path key. p \<in> set ps \<and> Name p = n \<and> key \<in> set ks \<and>
       matchProfile ps (iPath rq) (FirecrawlLegacyFallback cfg) = Some (p, path) \<and>
       (sentFor p key rq path q \<or> usageFor p key q))"
  using assms(1)
proof (cases rule: ServeHTTP_cases)
  case (matched p path w')
  note m = matchProfile_result [OF matched(1) assms(3)]
  show ?thesis
  proof (cases "Name p = n")
    case True
    have plain: "plainProfile p" using m assms(4) by (simp add: list_all_iff)
    have build: "\<exists>key\<in>set ks. sentFor p key rq path q" if "key \<in> set ks" "buildUpstream p key rq path = Some q" for key q
      using sentFor_build [OF that(2) plain] m that(1) by blast
    from state_io_relD [OF serveProfile_calls matched(2), OF build]
    have "callsKept p (\<lambda>q. \<exists>key\<in>set ks. sentFor p key rq path q) ks (ws n) w'" using True by simp
    then obtain qs where qs: "wcalls w' = wcalls (ws n) @ qs"
      "\<forall>q\<in>set qs. (\<exists>key\<in>set ks. sentFor p key rq path q) \<or> usageBy p ks q"
      using assms(2) by (auto simp: callsKept_def)
    have "\<exists>key\<in>set ks. sentFor p key rq path q \<or> usageFor p key q" if "q \<in> set qs" for q
      using qs(2) that usageFor_query [OF _ plain] unfolding usageBy_def by blast
    then have "\<forall>q\<in>set qs. \<exists>p path key. p \<in> set ps \<and> Name p = n \<and> key \<in> set ks \<and>
        matchProfile ps (iPath rq) (FirecrawlLegacyFallback cfg) = Some (p, path) \<and> (sentFor p key rq path q \<or> usageFor p key q)"
      using m True matched(1) by blast
    then show ?thesis using qs(1) True matched(3) by auto
  qed (simp add: matched)
next
  case (unmatched w')
  then show ?thesis using state_io_relD [OF still.keeps_serveUnmatched [OF any_env_ok] unmatched(2)] by (auto simp: still_def)
qed

section \<open>How much is sent\<close>

text \<open>Both bounds for the loop: the attempts, and with the usage fetches before and after each rotation.\<close>

definition boundedBy :: "nat \<Rightarrow> world \<Rightarrow> world \<Rightarrow> bool" where
  "boundedBy n w w' \<longleftrightarrow> length (wsent w') \<le> length (wsent w) + 6 * n \<and> length (wcalls w') \<le> length (wcalls w) + 14 * n"

lemma rotateLoop_sent:
  "run_state (rotateLoop fuel env cfg p rq path sat d maxRot s) w = (e, w') \<Longrightarrow> boundedBy (nat (maxRot - pTries s)) w w'"
proof (induction fuel arbitrary: s w)
  case 0
  then show ?case by (subst (asm) rotateLoop.simps) (auto simp: boundedBy_def split: if_splits)
next
  case (Suc fuel)
  obtain res w1 where o: "run_state (serveOnce env cfg p rq path) w = (res, w1)" by (metis surj_pair)
  show ?case
  proof (cases "maxRot \<le> pTries s")
    case True
    then show ?thesis using Suc.prems by (subst (asm) rotateLoop.simps) (simp add: boundedBy_def)
  next
    case go: False
    show ?thesis
    proof (cases "rrKind res = resSaturated")
      case True
      obtain x w2 where s: "run_state (whenSaturated env p sat d) w1 = (x, w2)" by (metis surj_pair)
      have "still w1 w2" using still.keeps_whenSaturated [OF any_env_ok] s by blast
      then have "still w w2" using serveOnce_count(2) [OF o] True by (simp add: still_def)
      then show ?thesis
        using Suc.prems Suc.IH [of s w2] go True o s
        by (subst (asm) rotateLoop.simps) (auto simp: boundedBy_def still_def split: option.splits)
    next
      case False
      define s1 where "s1 = s\<lparr>pTries := pTries s + 1, pStatus := rrStatus res, pHeader := rrHeader res, pBody := rrBody res\<rparr>"
      obtain x w2 where s: "run_state (dispatch env p res s1) w1 = (x, w2)" by (metis surj_pair)
      have w2: "boundedBy 1 w w2"
        using serveOnce_sent(1) [OF o] serveOnce_count(1) [OF o] dispatch_count [OF s] by (simp add: boundedBy_def)
      have step: "nat (maxRot - pTries s) = Suc (nat (maxRot - pTries s1))" using go by (simp add: s1_def)
      show ?thesis
      proof (cases x)
        case None
        then have "boundedBy (nat (maxRot - pTries s1)) w2 w'"
          using Suc.prems Suc.IH [of s1 w2] go False o s
          by (subst (asm) rotateLoop.simps) (auto simp: Let_def s1_def [symmetric])
        then show ?thesis using w2 by (simp add: step boundedBy_def)
      next
        case (Some y)
        then have "w' = w2" using Suc.prems go False o s by (subst (asm) rotateLoop.simps) (auto simp: Let_def s1_def [symmetric])
        then show ?thesis using w2 by (simp add: step boundedBy_def)
      qed
    qed
  qed
qed

lemma run_pool_keys: "keys (run_pool xs p) = keys p"
  by (induction xs arbitrary: p) (simp_all add: exec_op_keys)

lemma boundedBy_still: "boundedBy n v v' \<Longrightarrow> still w v \<Longrightarrow> still v' w' \<Longrightarrow> boundedBy n w w'"
  by (simp add: boundedBy_def still_def)

lemma serveProfile_sent:
  assumes "run_state (serveProfile fuel env cfg p rq path) w = (a, w')"
  shows "boundedBy (nat (wrap64 (MaxPasses cfg * int (length (keys (wpool w)))))) w w'"
proof -
  have loop: "boundedBy (nat (wrap64 (MaxPasses cfg * int (length (keys (wpool w)))))) w w3"
    if "run_state (clock env) w = (start, w0)" and n: "run_state (onPool env (\<lambda>_ pool. (length (keys pool), pool))) w0 = (n, w1)"
      and d: "run_state (queueDeadline env p (saturationOf p)) w1 = (d, w2)"
      and e: "run_state (rotateLoop fuel env cfg p rq path (saturationOf p) d (wrap64 (MaxPasses cfg * int n)) startProgress) w2 = (e, w3)"
    for start w0 n w1 d w2 e w3
  proof -
    have w0: "still w w0" "keys (wpool w0) = keys (wpool w)"
      using that(1) by (auto simp: clock_def settle_same still_def) (simp add: settle_def run_pool_keys)
    have n': "n = length (keys (wpool w0))" using n by (auto simp: onPool_def Let_def settle_def run_pool_keys)
    have "still w1 w2" by (rule state_io_relD [OF still.keeps_queueDeadline [OF any_env_ok] d])
    with w0(1) onPool_still [OF n] have "still w w2" by (simp add: still_def)
    from boundedBy_still [OF rotateLoop_sent [OF e] this] show ?thesis by (simp add: n' w0(2) startProgress_def still_def)
  qed
  note access = state_io_relD [OF still.keeps_accessLog [OF any_env_ok]]
  show ?thesis
    using assms
  proof (cases rule: serveProfile_cases)
    case (unread err start w0)
    then show ?thesis
      using access [OF unread(3)] state_io_relD [OF still.keeps_clock [OF any_env_ok] unread(2)] by (simp add: boundedBy_def still_def)
  next
    case endless
    then show ?thesis using loop by blast
  next
    case (early start w0 n w1 d w2 x w3)
    show ?thesis using loop [OF early(2-5)] access [OF early(6)] by (simp add: boundedBy_def still_def)
  next
    case (ended start w0 n w1 d w2 s w3 b acc w4)
    show ?thesis
      using loop [OF ended(2-5)] access [OF ended(7)] state_io_relD [OF still.keeps_finish [OF any_env_ok] ended(6)]
      by (simp add: boundedBy_def still_def)
  qed
qed

text \<open>
  C16: One client request makes the program give a bounded number of requests to \<open>client.Do\<close>. For each
  of the \<open>MAX_PASSES\<close> rotations over each key (the product as Go computes it): at most six attempts at the
  client's own request (the first try and five backoffs), and at most fourteen calls in all (those,
  and up to four for the usage before the attempts and four after a refusal). A profile the
  request is not for gets none. Not counted: redirects that \<open>client.Do\<close> follows within a call,
  and the fetches of background goroutines, which run outside the request.
\<close>

theorem upstream_requests_bounded:
  assumes "ServeHTTP fuel env cfg ps rq ws = (a, ws')"
  shows "(let rotations = nat (wrap64 (MaxPasses cfg * int (length (keys (wpool (ws n)))))) in
      length (wsent (ws' n)) \<le> length (wsent (ws n)) + 6 * rotations \<and>
      length (wcalls (ws' n)) \<le> length (wcalls (ws n)) + 14 * rotations) \<and>
    ((\<nexists>p path. matchProfile ps (iPath rq) (FirecrawlLegacyFallback cfg) = Some (p, path) \<and> Name p = n) \<longrightarrow>
      wsent (ws' n) = wsent (ws n) \<and> wcalls (ws' n) = wcalls (ws n))"
  using assms
proof (cases rule: ServeHTTP_cases)
  case (matched p path w')
  then show ?thesis using serveProfile_sent [OF matched(2)] by (auto simp: boundedBy_def Let_def)
next
  case (unmatched w')
  then show ?thesis
    using state_io_relD [OF still.keeps_serveUnmatched [OF any_env_ok] unmatched(2)] by (auto simp: still_def Let_def)
qed

section \<open>Closed instances\<close>

lemma demo_plain: "list_all plainProfile demoProfiles"
proof -
  have h: "plainHost ''api.firecrawl.dev''" "plainHost ''api.tavily.com''" "plainHost ''api.exa.ai''"
    "plainHost ''financialmodelingprep.com''"
    by code_simp+
  have b: "upstreamBase ''https'' ''api.firecrawl.dev'' ''https://api.firecrawl.dev''"
    "upstreamBase ''https'' ''api.tavily.com'' ''https://api.tavily.com''"
    "upstreamBase ''https'' ''api.exa.ai'' ''https://api.exa.ai''"
    "upstreamBase ''https'' ''financialmodelingprep.com'' ''https://financialmodelingprep.com''"
    by (simp_all add: upstreamBase_def h)
  show ?thesis
    using b
    by (auto simp: demoProfiles_eq plainProfile_def authKind_def firecrawlProfile_def tavilyProfile_def exaProfile_def
      financeProfile_def zeroProfile_def demoConfig_def Let_def)
qed

theorem ServeHTTP_keeps_pools_witness:
  "pool_wf (wpool (snd (ServeHTTP 9 (quietEnv (\<lambda>n q. replyWith 402 [])) demoConfig demoProfiles (demoRequest ''/exa/search'') demoWorlds) ''exa''))"
proof -
  obtain a ws' where r: "ServeHTTP 9 (quietEnv (\<lambda>n q. replyWith 402 [])) demoConfig demoProfiles (demoRequest ''/exa/search'') demoWorlds = (a, ws')"
    by (metis surj_pair)
  then show ?thesis using ServeHTTP_keeps_pools [OF r, of "''exa''"] demoWorlds_wf by simp
qed

theorem ServeHTTP_returns_slots_witness:
  "heldSlots (wpool (snd (ServeHTTP 9 (quietEnv (\<lambda>n q. Failed ''reset'')) demoConfig demoProfiles (demoRequest ''/v2/scrape'') demoWorlds) ''firecrawl'')) 0 = 0"
proof -
  obtain a ws' where r: "ServeHTTP 9 (quietEnv (\<lambda>n q. Failed ''reset'')) demoConfig demoProfiles (demoRequest ''/v2/scrape'') demoWorlds = (a, ws')"
    by (metis surj_pair)
  have "heldSlots (wpool (demoWorlds ''firecrawl'')) 0 = 0"
    by (simp add: demoWorlds_def startWorlds_def buildProfiles_def firecrawlProfile_def zeroProfile_def startWorldOf_def
        heldSlots_def SetMaxConcurrent_def SetThresholds_def NewKeyPool_def demoConfig_def ix_ok_def)
  then show ?thesis using ServeHTTP_returns_slots [OF r quietEnv_ok demoWorlds_wf, of "''firecrawl''" 0] r by simp
qed

lemma demoWorlds_keyed: "keyed [''ex-1'', ''ex-2''] (demoWorlds ''exa'')"
proof -
  have "keys (wpool (demoWorlds ''exa'')) = [''ex-1'', ''ex-2'']"
    "map_option rkeys (wrefresh (demoWorlds ''exa'')) = Some [''ex-1'', ''ex-2'']" by code_simp+
  then show ?thesis using demoWorlds_wf by (auto simp: keyed_def)
qed

theorem keys_go_to_their_provider_witness:
  "list_all (\<lambda>q. qHost q = ''api.exa.ai'' \<and> hdrVals (qHeader q) ''Authorization'' = [] \<and> qMethod q = ''POST'')
     (wcalls (snd (ServeHTTP 9 (quietEnv (\<lambda>n q. replyWith 200 [])) demoConfig demoProfiles (demoRequest ''/exa/@evil.example'') demoWorlds) ''exa''))"
proof -
  let ?rq = "demoRequest ''/exa/@evil.example''"
  let ?ws = "snd (ServeHTTP 9 (quietEnv (\<lambda>n q. replyWith 200 [])) demoConfig demoProfiles ?rq demoWorlds)"
  obtain a where r: "ServeHTTP 9 (quietEnv (\<lambda>n q. replyWith 200 [])) demoConfig demoProfiles ?rq demoWorlds = (a, ?ws)"
    by (metis prod.collapse)
  have root: "rooted ?rq" by (simp add: rooted_def demoRequest_def)
  have exa: "UpstreamHost p = ''api.exa.ai'' \<and> AuthHeader p = ''x-api-key'' \<and> accountedProfile p" if "p \<in> set demoProfiles" "Name p = ''exa''" for p
    using that by (auto simp: demoProfiles_eq firecrawlProfile_def tavilyProfile_def exaProfile_def financeProfile_def
        zeroProfile_def demoConfig_def Let_def hostOf_def accountedProfile_def)
  have "wcalls (demoWorlds ''exa'') = []"
    by code_simp
  then obtain qs where "wcalls (?ws ''exa'') = qs"
    "\<forall>q\<in>set qs. \<exists>p path key. p \<in> set demoProfiles \<and> Name p = ''exa'' \<and> key \<in> set [''ex-1'', ''ex-2''] \<and>
       matchProfile demoProfiles (iPath ?rq) (FirecrawlLegacyFallback demoConfig) = Some (p, path) \<and>
       (sentFor p key ?rq path q \<or> usageFor p key q)"
    using keys_go_to_their_provider [OF r demoWorlds_keyed root demo_plain] by auto
  then show ?thesis
    using exa by (fastforce simp: list_all_iff sentFor_def authenticated_def usageFor_def clientCall_def demoRequest_def)
qed

theorem upstream_requests_bounded_witness:
  "length (wcalls (snd (ServeHTTP 9 (quietEnv (\<lambda>n q. replyWith 503 [])) demoConfig demoProfiles (demoRequest ''/exa/search'') demoWorlds) ''exa'')) \<le> 56"
proof -
  let ?ws = "snd (ServeHTTP 9 (quietEnv (\<lambda>n q. replyWith 503 [])) demoConfig demoProfiles (demoRequest ''/exa/search'') demoWorlds)"
  obtain a where r: "ServeHTTP 9 (quietEnv (\<lambda>n q. replyWith 503 [])) demoConfig demoProfiles (demoRequest ''/exa/search'') demoWorlds = (a, ?ws)"
    by (metis prod.collapse)
  have "length (keys (wpool (demoWorlds ''exa''))) = 2" "wcalls (demoWorlds ''exa'') = []"
    by code_simp+
  moreover have "MaxPasses demoConfig = 2" by (simp add: demoConfig_def)
  ultimately show ?thesis using upstream_requests_bounded [OF r, of "''exa''"] by simp
qed

end
