(* ===== verification/Proxy_Returns.thy ===== *)
theory Proxy_Returns
  imports Proxy_Properties
begin

text \<open>
  The handler returns, does not panic, and spends its retries as configured.
\<close>

section \<open>The handler returns\<close>

lemma whenSaturated_again:
  assumes "run_state (whenSaturated env p sat d) w = (None, w')"
  shows "now_at env (wtick w) < d \<and> wtick w \<le> wtick w'"
proof -
  have "ticksGrow w w'" using ticks.keeps_whenSaturated [OF any_env_ok] assms by blast
  moreover have "0 < timeSub d (now_at env (wtick w))"
    using assms by (auto simp: whenSaturated_def clock_def Let_def split: if_splits prod.splits)
  ultimately show ?thesis by (auto simp: ticksGrow_def timeSub_def split: if_splits)
qed

lemma rotateLoop_ends:
  assumes "\<forall>k\<ge>K. d \<le> now_at env k" and "nat (maxRot - pTries s) + (K - wtick w) \<le> fuel"
  shows "fst (run_state (rotateLoop fuel env cfg p rq path sat d maxRot s) w) \<noteq> None"
  using assms(2)
proof (induction fuel arbitrary: s w)
  case 0
  then show ?case by (subst rotateLoop.simps) simp
next
  case (Suc fuel)
  obtain res w1 where o: "run_state (serveOnce env cfg p rq path) w = (res, w1)" by (metis surj_pair)
  note t1 = serveOnce_ticks [OF o]
  show ?case
  proof (cases "maxRot \<le> pTries s")
    case True
    then show ?thesis by (subst rotateLoop.simps) simp
  next
    case go: False
    show ?thesis
    proof (cases "rrKind res = resSaturated")
      case True
      obtain x w2 where s: "run_state (whenSaturated env p sat d) w1 = (x, w2)" by (metis surj_pair)
      have "fst (run_state (rotateLoop fuel env cfg p rq path sat d maxRot s) w2) \<noteq> None" if "x = None"
      proof -
        from whenSaturated_again [of env p sat d w1 w2] s that assms(1)
        have "wtick w1 < K" "wtick w1 \<le> wtick w2" by (auto simp: not_le [symmetric])
        with t1 Suc.prems have "nat (maxRot - pTries s) + (K - wtick w2) \<le> fuel" by linarith
        then show ?thesis by (rule Suc.IH)
      qed
      then show ?thesis using go True o s by (subst rotateLoop.simps) (auto split: option.split)
    next
      case False
      define s1 where "s1 = s\<lparr>pTries := pTries s + 1, pStatus := rrStatus res, pHeader := rrHeader res, pBody := rrBody res\<rparr>"
      obtain x w2 where s: "run_state (dispatch env p res s1) w1 = (x, w2)" by (metis surj_pair)
      have "ticksGrow w1 w2" using ticks.keeps_dispatch [OF any_env_ok] s by blast
      then have "nat (maxRot - pTries s1) + (K - wtick w2) \<le> fuel"
        using t1 Suc.prems go by (auto simp: s1_def ticksGrow_def)
      then have "fst (run_state (rotateLoop fuel env cfg p rq path sat d maxRot s1) w2) \<noteq> None" by (rule Suc.IH)
      then show ?thesis using go False o s by (subst rotateLoop.simps) (auto simp: Let_def s1_def [symmetric] split: option.split)
    qed
  qed
qed

lemma rotateLoop_mono:
  "run_state (rotateLoop fuel env cfg p rq path sat d maxRot s) w = (Some e, w') \<Longrightarrow> fuel \<le> fuel' \<Longrightarrow>
    run_state (rotateLoop fuel' env cfg p rq path sat d maxRot s) w = (Some e, w')"
proof (induction fuel arbitrary: fuel' s w)
  case 0
  then show ?case by (subst rotateLoop.simps, subst (asm) rotateLoop.simps) (auto split: if_splits)
next
  case (Suc fuel)
  then obtain f where f: "fuel' = Suc f" "fuel \<le> f" by (cases fuel') auto
  show ?case
    using Suc.prems(1) Suc.IH [OF _ f(2)] unfolding f(1)
    by (subst rotateLoop.simps, subst (asm) rotateLoop.simps)
      (auto simp: Let_def split: if_splits prod.splits option.splits)
qed

lemma serveProfile_ends:
  assumes "\<forall>t. \<exists>K. \<forall>k\<ge>K. t \<le> now_at env k"
  shows "\<exists>fuel0 a w'. \<forall>fuel\<ge>fuel0. run_state (serveProfile fuel env cfg p rq path) w = (Some a, w')"
proof -
  obtain start w0 where c: "run_state (clock env) w = (start, w0)" by (metis surj_pair)
  show ?thesis
  proof (cases "iBodyErr rq")
    case (Some err)
    then show ?thesis using c by (auto simp: serveProfile_def split: prod.split)
  next
    case None
    obtain n w1 where n: "run_state (onPool env (\<lambda>_ pool. (length (keys pool), pool))) w0 = (n, w1)" by (metis surj_pair)
    obtain d w2 where d: "run_state (queueDeadline env p (saturationOf p)) w1 = (d, w2)" by (metis surj_pair)
    let ?loop = "\<lambda>fuel. rotateLoop fuel env cfg p rq path (saturationOf p) d (wrap64 (MaxPasses cfg * int n)) startProgress"
    obtain K where K: "\<forall>k\<ge>K. d \<le> now_at env k" using assms by blast
    let ?f0 = "nat (wrap64 (MaxPasses cfg * int n)) + (K - wtick w2)"
    have "fst (run_state (?loop ?f0) w2) \<noteq> None"
      by (rule rotateLoop_ends [OF K]) (simp add: startProgress_def)
    then obtain e w3 where "run_state (?loop ?f0) w2 = (Some e, w3)" by (metis fst_conv option.exhaust surj_pair)
    then have e: "run_state (?loop fuel) w2 = (Some e, w3)" if "?f0 \<le> fuel" for fuel
      using rotateLoop_mono that by blast
    define after where "after = (case e of
        Returned x \<Rightarrow> do { accessLog env rq start (Name p) True (earlyAccess x); State_Monad.return (Some x) }
      | Broke s \<Rightarrow> do { (b, acc) \<leftarrow> finish env cfg p rq s; accessLog env rq start (Name p) True acc; State_Monad.return (Some b) })"
    have "\<exists>a w'. run_state after w3 = (Some a, w')"
      by (cases e) (auto simp: after_def split: prod.split)
    moreover have "run_state (serveProfile fuel env cfg p rq path) w = run_state after w3" if "?f0 \<le> fuel" for fuel
      using None c n d e [OF that] by (cases e) (simp_all add: serveProfile_def after_def Let_def)
    ultimately show ?thesis by metis
  qed
qed

text \<open>
  The handler always returns: if the clock passes every instant, some amount of fuel (and then any
  larger amount, with the same result) is enough, because a pass either uses up one of the
  \<open>MAX_PASSES\<close> rounds or finds every slot taken before the queue deadline.
\<close>

theorem ServeHTTP_returns:
  assumes "\<forall>t. \<exists>K. \<forall>k\<ge>K. t \<le> now_at env k"
  shows "\<exists>fuel0 a ws'. \<forall>fuel\<ge>fuel0. ServeHTTP fuel env cfg ps rq ws = (Some a, ws')"
proof (cases "matchProfile ps (iPath rq) (FirecrawlLegacyFallback cfg)")
  case None
  then show ?thesis by (auto simp: ServeHTTP_def serveUnmatched_def split: prod.split)
next
  case (Some pp)
  obtain p path where pp: "pp = (p, path)" by (cases pp)
  obtain fuel0 a w' where "\<forall>fuel\<ge>fuel0. run_state (serveProfile fuel env cfg p rq path) (ws (Name p)) = (Some a, w')"
    using serveProfile_ends [OF assms] by blast
  then have "\<forall>fuel\<ge>fuel0. ServeHTTP fuel env cfg ps rq ws = (Some a, ws(Name p := w'))"
    using Some pp by (simp add: ServeHTTP_def)
  then show ?thesis by blast
qed

section \<open>No panic\<close>

text \<open>Go's client hands out replies whose status has three digits.\<close>

definition statusesOk :: "env \<Rightarrow> bool" where
  "statusesOk env \<longleftrightarrow> (\<forall>n q r. net_of env n q = Answered r \<longrightarrow> 100 \<le> rStatus r \<and> rStatus r \<le> 999)"

definition triedOk :: "tried \<Rightarrow> bool" where
  "triedOk t \<longleftrightarrow> (100 \<le> tStatus t \<and> tStatus t \<le> 999) \<or> (tStatus t = 0 \<and> tNetErr t \<and> \<not> tCapped t)"

lemma judge_ok:
  assumes "case out of Failed e \<Rightarrow> True | Answered r \<Rightarrow> 100 \<le> rStatus r \<and> rStatus r \<le> 999"
  shows "case judge cfg p k out of Finished t \<Rightarrow> triedOk t | Again e t \<Rightarrow> triedOk t"
  using assms by (auto simp: judge_def triedOk_def netFailed_def Let_def split: outcome.splits prod.splits)

lemma tryLoop_ok:
  assumes "statusesOk env"
  shows "run_state (tryLoop env cfg p idx key rq path left err) w = (t, w') \<Longrightarrow> triedOk t"
proof (induction left arbitrary: err w)
  case (Suc left)
  show ?case
  proof (cases "buildUpstream p key rq path")
    case None
    then show ?thesis using Suc.prems by (auto simp: Let_def triedOk_def netFailed_def)
  next
    case (Some q)
    obtain out w1 where d: "run_state (clientDo env q) w = (out, w1)" by (metis surj_pair)
    then have "case out of Failed e \<Rightarrow> True | Answered r \<Rightarrow> 100 \<le> rStatus r \<and> rStatus r \<le> 999"
      using assms by (auto simp: clientDo_def statusesOk_def split: outcome.split)
    from judge_ok [OF this, of cfg p "length backoffSchedule - left"] show ?thesis
      using Suc.prems Suc.IH Some d
      by (auto simp: Let_def split: verdict.splits prod.splits if_splits)
  qed
qed (auto simp: triedOk_def netFailed_def)

definition resultOk :: "string list \<Rightarrow> rotResult \<Rightarrow> bool" where
  "resultOk ks res \<longleftrightarrow>
     (rrKind res \<in> {resOK, resCapped, resRotate} \<longrightarrow> 100 \<le> rrStatus res \<and> rrStatus res \<le> 999) \<and>
     (rrStatus res = 0 \<or> (100 \<le> rrStatus res \<and> rrStatus res \<le> 999)) \<and>
     (rrKind res \<notin> {resExhausted} \<longrightarrow> ix_ok (rrIdx res) ks)"

lemma serveOnce_ok:
  assumes "statusesOk env" and "pool_wf (wpool w)" and "run_state (serveOnce env cfg p rq path) w = (res, w')"
  shows "resultOk (keys (wpool w)) res"
proof -
  have cur: "ix_ok idx (keys (wpool w))"
    if "run_state (onPool env Current) w = ((idx, key), w1)" "0 \<le> idx" for idx key w1
  proof -
    have "pool_wf (wpool (settle env w))" "keys (wpool (settle env w)) = keys (wpool w)"
      using kept.settle_law [OF any_env_ok, of w env] assms(2) by (simp_all add: poolKept_def pool_config_def)
    then show ?thesis
      using Current_in_range [of "wpool (settle env w)" "now_at env (wtick w)" idx key] that
      by (auto simp: onPool_def Let_def split: prod.splits)
  qed
  from assms(3) show ?thesis
  proof (cases rule: serveOnce_cases)
    case (served idx key w1 w2 w3 t w4 w5)
    have "triedOk t" using tryLoop_ok [OF assms(1)] served(5) unfolding tryKey_def by blast
    then show ?thesis using cur [OF served(1,2)] served(8) by (auto simp: resultOk_def classify_def triedOk_def Let_def)
  qed (use cur in \<open>auto simp: resultOk_def noResult_def\<close>)
qed

lemma bump_known: "bumpStat (rejectKind status) s \<noteq> None"
  by (simp add: bumpStat_def rejectKind_def)

lemma afterRotate_fine:
  assumes "pool_wf (wpool w)" and "ix_ok (rrIdx res) (keys (wpool w))"
  shows "fst (run_state (afterRotate env p res) w)"
proof -
  let ?s = "settle env w"
  have s: "pool_wf (wpool ?s)" "keys (wpool ?s) = keys (wpool w)"
    using kept.settle_law [OF any_env_ok, of w env] assms(1) by (simp_all add: poolKept_def pool_config_def)
  then have "ix_ok (rrIdx res) (stats (wpool ?s))"
    using assms(2) pool_wf_lengths(1) [OF s(1)] by (simp add: ix_ok_def)
  then have "RecordRejection (rrIdx res) (rejectKind (rrStatus res)) (wpool ?s) \<noteq> None"
    using bump_known by (simp add: RecordRejection_def)
  then show ?thesis by (auto simp: afterRotate_def onPool_def Let_def split: prod.splits)
qed

definition progressOk :: "progress \<Rightarrow> bool" where
  "progressOk s \<longleftrightarrow> (pStatus s = 0 \<and> \<not> pClean s \<and> \<not> pOverCap s) \<or> (100 \<le> pStatus s \<and> pStatus s \<le> 999)"

text \<open>No panic; and no answer at all only when the client went away, at step \<open>t\<close> or later.\<close>

definition answerOk :: "env \<Rightarrow> nat \<Rightarrow> answer \<Rightarrow> bool" where
  "answerOk env t a \<longleftrightarrow> a \<noteq> Panic \<and> (a = Silent \<longrightarrow> (\<exists>k\<ge>t. canceled_at env k))"

definition endOk :: "env \<Rightarrow> nat \<Rightarrow> loopEnd option \<Rightarrow> bool" where
  "endOk env t e \<longleftrightarrow> (case e of Some (Broke s) \<Rightarrow> progressOk s | Some (Returned a) \<Rightarrow> answerOk env t a | None \<Rightarrow> True)"

lemma endOk_earlier: "endOk env t' e \<Longrightarrow> t \<le> t' \<Longrightarrow> endOk env t e"
  by (auto simp: endOk_def answerOk_def intro: order.trans split: option.splits loopEnd.splits)

lemma whenSaturated_fine: "run_state (whenSaturated env p sat d) w = (Some a, w') \<Longrightarrow> answerOk env (wtick w) a"
proof (unfold answerOk_def, intro conjI impI)
  assume run: "run_state (whenSaturated env p sat d) w = (Some a, w')"
  show "a \<noteq> Panic"
    using run by (auto simp: whenSaturated_def busyReject_def busyTimeout_def httpError_def Let_def split: if_splits prod.splits)
  have busy: "busyReject p \<noteq> Silent" "busyTimeout p \<noteq> Silent" by (simp_all add: busyReject_def busyTimeout_def httpError_def)
  assume "a = Silent"
  then have q: "sat \<noteq> ''reject''" using run busy by (auto simp: whenSaturated_def split: prod.splits)
  obtain now w1 where c: "run_state (clock env) w = (now, w1)" by (metis surj_pair)
  let ?wait = "if ConcurrencyQueue p \<le> 0 \<or> timeSub d now \<le> 0 then State_Monad.return False else waitForSlot env (timeSub d now)"
  obtain ok w2 where o: "run_state ?wait w1 = (ok, w2)" by (metis surj_pair)
  have "canceled_at env (wtick w2)"
    using run q c o \<open>a = Silent\<close> busy
    by (cases ok; cases "canceled_at env (wtick w2)") (auto simp: whenSaturated_def gone_def Let_def split: prod.splits)
  moreover have "state_io_rel ticksGrow ?wait"
    by (simp add: ticks.keeps_waitForSlot [OF any_env_ok]) (simp add: state_io_rel_def ticksGrow_def)
  then have "ticksGrow w1 w2" using o by blast
  moreover have "ticksGrow w w1" by (rule state_io_relD [OF ticks.keeps_clock [OF any_env_ok] c])
  ultimately show "\<exists>k\<ge>wtick w. canceled_at env k" unfolding ticksGrow_def by (meson order.trans)
qed

lemma dispatch_fine:
  assumes "pool_wf (wpool w)" and "resultOk (keys (wpool w)) res" and "rrKind res \<noteq> resSaturated"
    and "pStatus s = rrStatus res" and "\<not> pClean s" and "\<not> pOverCap s" and "run_state (dispatch env p res s) w = (e, w')"
  shows "endOk env t e"
proof (cases "rrKind res = resRotate")
  case True
  then have "fst (run_state (afterRotate env p res) w)"
    using assms(1,2) by (intro afterRotate_fine) (auto simp: resultOk_def)
  then show ?thesis using assms(7) True by (auto simp: dispatch_def endOk_def split: prod.splits)
next
  case False
  then show ?thesis
    using assms by (cases "rrKind res") (auto simp: dispatch_def endOk_def progressOk_def resultOk_def split: prod.splits)
qed

lemma rotateLoop_fine:
  assumes "statusesOk env"
  shows "pool_wf (wpool w) \<Longrightarrow> progressOk s \<Longrightarrow> \<not> pClean s \<Longrightarrow> \<not> pOverCap s \<Longrightarrow>
    run_state (rotateLoop fuel env cfg p rq path sat d maxRot s) w = (e, w') \<Longrightarrow> endOk env (wtick w) e"
proof (induction fuel arbitrary: s w)
  case 0
  then show ?case by (subst (asm) rotateLoop.simps) (auto simp: endOk_def split: if_splits)
next
  case (Suc fuel)
  obtain res w1 where o: "run_state (serveOnce env cfg p rq path) w = (res, w1)" by (metis surj_pair)
  have k1: "poolKept w w1" using serveOnce_kept o by blast
  then have wf1: "pool_wf (wpool w1)" "keys (wpool w1) = keys (wpool w)"
    using Suc.prems(1) by (simp_all add: poolKept_def pool_config_def)
  have res: "resultOk (keys (wpool w1)) res" using serveOnce_ok [OF assms Suc.prems(1) o] wf1 by simp
  show ?case
  proof (cases "maxRot \<le> pTries s")
    case True
    then show ?thesis using Suc.prems by (subst (asm) rotateLoop.simps) (auto simp: endOk_def)
  next
    case go: False
    show ?thesis
    proof (cases "rrKind res = resSaturated")
      case True
      obtain x w2 where s: "run_state (whenSaturated env p sat d) w1 = (x, w2)" by (metis surj_pair)
      have "poolKept w1 w2" using kept.keeps_whenSaturated [OF any_env_ok] s by blast
      then have wf2: "pool_wf (wpool w2)" using wf1 by (simp add: poolKept_def)
      have "ticksGrow w1 w2" using ticks.keeps_whenSaturated [OF any_env_ok] s by blast
      then have t: "wtick w \<le> wtick w1" "wtick w \<le> wtick w2" using serveOnce_ticks [OF o] by (simp_all add: ticksGrow_def)
      show ?thesis
      proof (cases x)
        case None
        then have "endOk env (wtick w2) e"
          using Suc.prems Suc.IH [of w2 s] wf2 go True o s by (subst (asm) rotateLoop.simps) auto
        then show ?thesis using t(2) by (rule endOk_earlier)
      next
        case (Some a)
        then have "e = Some (Returned a)" using Suc.prems go True o s by (subst (asm) rotateLoop.simps) auto
        then have "endOk env (wtick w1) e" using whenSaturated_fine s Some by (simp add: endOk_def)
        then show ?thesis using t(1) by (rule endOk_earlier)
      qed
    next
      case False
      define s1 where "s1 = s\<lparr>pTries := pTries s + 1, pStatus := rrStatus res, pHeader := rrHeader res, pBody := rrBody res\<rparr>"
      obtain x w2 where s: "run_state (dispatch env p res s1) w1 = (x, w2)" by (metis surj_pair)
      have "poolKept w1 w2" using kept.keeps_dispatch [OF any_env_ok] s by blast
      then have wf2: "pool_wf (wpool w2)" using wf1 by (simp add: poolKept_def)
      have "ticksGrow w1 w2" using ticks.keeps_dispatch [OF any_env_ok] s by blast
      then have t: "wtick w \<le> wtick w2" using serveOnce_ticks [OF o] by (simp add: ticksGrow_def)
      have s1: "pStatus s1 = rrStatus res" "\<not> pClean s1" "\<not> pOverCap s1" "progressOk s1"
        using Suc.prems res by (auto simp: s1_def progressOk_def resultOk_def)
      show ?thesis
      proof (cases x)
        case None
        then have "endOk env (wtick w2) e"
          using Suc.prems Suc.IH [OF wf2 s1(4,2,3)] go False o s
          by (subst (asm) rotateLoop.simps) (auto simp: Let_def s1_def [symmetric])
        then show ?thesis using t by (rule endOk_earlier)
      next
        case (Some y)
        then show ?thesis
          using Suc.prems dispatch_fine [OF wf1(1) res False s1(1-3) s, of "wtick w"] go False o s
          by (subst (asm) rotateLoop.simps) (auto simp: Let_def s1_def [symmetric])
      qed
    qed
  qed
qed

lemma finish_fine:
  assumes "progressOk s" and "run_state (finish env cfg p rq s) w = (a, w')"
  shows "fst a \<noteq> Panic \<and> fst a \<noteq> Silent"
  using assms
  by (auto simp: finish_def progressOk_def writeRawResponse_def allExhausted_def unreachable_def httpError_def
      split: if_splits prod.splits)

lemma ServeHTTP_fine:
  assumes "statusesOk env" and "\<forall>n. pool_wf (wpool (ws n))" and "ServeHTTP fuel env cfg ps rq ws = (Some a, ws')"
  shows "a \<noteq> Panic \<and> (a = Silent \<longrightarrow> (\<exists>p path k. matchProfile ps (iPath rq) (FirecrawlLegacyFallback cfg) = Some (p, path) \<and>
    wtick (ws (Name p)) \<le> k \<and> canceled_at env k))"
  using assms(3)
proof (cases rule: ServeHTTP_cases)
  case (unmatched w')
  then show ?thesis by (auto simp: serveUnmatched_def httpError_def split: prod.splits)
next
  case (matched p path w')
  let ?w = "ws (Name p)"
  have loop: "endOk env (wtick ?w) e"
    if c: "run_state (clock env) ?w = (start, w0)" and n: "run_state (onPool env (\<lambda>_ pool. (length (keys pool), pool))) w0 = (n, w1)"
      and d: "run_state (queueDeadline env p (saturationOf p)) w1 = (d, w2)"
      and e: "run_state (rotateLoop fuel env cfg p rq path (saturationOf p) d (wrap64 (MaxPasses cfg * int n)) startProgress) w2 = (e, w3)"
    for start w0 n w1 d w2 e w3
  proof -
    have "poolKept ?w w0" by (rule state_io_relD [OF kept.keeps_clock [OF any_env_ok] c])
    moreover have "poolKept w0 w1" by (rule state_io_relD [OF kept.keeps_read [OF any_env_ok] n])
    moreover have "poolKept w1 w2" by (rule state_io_relD [OF kept.keeps_queueDeadline [OF any_env_ok] d])
    ultimately have "pool_wf (wpool w2)" using assms(2) by (simp add: poolKept_def)
    from rotateLoop_fine [OF assms(1) this _ _ _ e] have "endOk env (wtick w2) e" by (simp add: startProgress_def progressOk_def)
    moreover have "ticksGrow ?w w0" by (rule state_io_relD [OF ticks.keeps_clock [OF any_env_ok] c])
    moreover have "ticksGrow w1 w2" by (rule state_io_relD [OF ticks.keeps_queueDeadline [OF any_env_ok] d])
    ultimately show ?thesis using onPool_ticks [OF n] by (auto simp: ticksGrow_def elim: endOk_earlier)
  qed
  have "answerOk env (wtick ?w) a"
    using matched(2)
  proof (cases rule: serveProfile_cases)
    case (early start w0 n w1 d w2 x w3)
    then show ?thesis using loop [OF early(2-5)] by (simp add: endOk_def)
  next
    case (ended start w0 n w1 d w2 s w3 b acc w4)
    then show ?thesis using loop [OF ended(2-5)] finish_fine [OF _ ended(6)] by (auto simp: endOk_def answerOk_def)
  qed (simp_all add: httpError_def answerOk_def)
  then show ?thesis using matched(1) by (auto simp: answerOk_def)
qed

text \<open>
  The handler never panics, as long as the replies' statuses have three digits: the kind of a
  rejection is always one the counters know, a key's index is always within the pool, and
  \<open>WriteHeader\<close> is never called with the status 0 of an attempt that got no reply.
\<close>

theorem ServeHTTP_never_panics:
  assumes "statusesOk env" and "\<forall>n. pool_wf (wpool (ws n))"
  shows "fst (ServeHTTP fuel env cfg ps rq ws) \<noteq> Some Panic"
  using ServeHTTP_fine [OF assms, of fuel cfg ps rq Panic] by (metis prod.collapse)

section \<open>Transient statuses\<close>

text \<open>An upstream that answers every request with the same status, and a client that stays.\<close>

definition alwaysStatus :: "Config \<Rightarrow> env \<Rightarrow> int \<Rightarrow> bool" where
  "alwaysStatus cfg env status \<longleftrightarrow>
     (\<forall>n q. \<exists>r. net_of env n q = Answered r \<and> rStatus r = status \<and> \<not> snd (readCapped (rBody r) (MaxBodyBytes cfg))) \<and>
     (\<forall>k. \<not> canceled_at env k)"

lemma backoff_pos: "k < length backoffSchedule \<Longrightarrow> 0 < backoffSchedule ! k"
  by (auto simp: backoffSchedule_def nth_Cons split: nat.split)

lemma retryBudget_bounds: "0 < retryBudget p status" "retryBudget p status \<le> 5"
  by (auto simp: retryBudget_def backoffSchedule_def Let_def)

lemma tryLoop_persistent:
  assumes "alwaysStatus cfg env status" and "shouldRetry status False" and q: "buildUpstream p key rq path = Some q"
  shows "left \<le> 6 \<Longrightarrow> int (6 - left) \<le> retryBudget p status \<Longrightarrow>
    run_state (tryLoop env cfg p idx key rq path left err) w = (t, w') \<Longrightarrow>
    length (wsent w') = length (wsent w) + nat (retryBudget p status + 1) - (6 - left) \<and>
    tStatus t = status \<and> tNetErr t \<and> \<not> tCapped t"
proof (induction left arbitrary: err w)
  case 0
  then show ?case using retryBudget_bounds [of p status] by simp
next
  case (Suc left)
  have len: "length backoffSchedule = 5" by (simp add: backoffSchedule_def)
  obtain out w1 where d: "run_state (clientDo env q) w = (out, w1)" by (metis surj_pair)
  have w1: "length (wsent w1) = Suc (length (wsent w))" using d by (auto simp: clientDo_def)
  obtain r where r: "out = Answered r" "rStatus r = status" "\<not> snd (readCapped (rBody r) (MaxBodyBytes cfg))"
    using assms(1) d by (auto simp: clientDo_def alwaysStatus_def)
  obtain es where l: "run_state (attemptLog cfg p idx (length backoffSchedule - left) out) w1 = ((), w1\<lparr>wlog := wlog w1 @ es\<rparr>)"
    using attemptLog_frame by blast
  obtain b where b: "readCapped (rBody r) (MaxBodyBytes cfg) = (b, False)" using r(3) by (metis snd_conv surj_pair)
  have k: "length backoffSchedule - left = 6 - Suc left" using len by simp
  show ?case
  proof (cases "int (6 - Suc left) < retryBudget p status")
    case True
    then obtain err' t' where j: "judge cfg p (length backoffSchedule - left) out = Again err' t'"
      using r b assms(2) by (simp add: judge_def k)
    have "backoffSchedule ! (length backoffSchedule - left) > 0"
      using True retryBudget_bounds [of p status] len by (intro backoff_pos) linarith
    then obtain w2 where s: "run_state (sleepOrCancel env (backoffSchedule ! (length backoffSchedule - left))) (w1\<lparr>wlog := wlog w1 @ es\<rparr>) = (False, w2)"
      and w2: "wsent w2 = wsent w1"
      using assms(1) by (auto simp: sleepOrCancel_def gone_def alwaysStatus_def settle_same)
    have t: "run_state (tryLoop env cfg p idx key rq path left err') w2 = (t, w')"
      using Suc.prems(3) q d j s l by (simp add: Let_def)
    have "left \<le> 6" "int (6 - left) \<le> retryBudget p status" using Suc.prems(1) True by linarith+
    from Suc.IH [OF this t] show ?thesis using w1 w2 Suc.prems(1) True by auto
  next
    case False
    then have eq: "retryBudget p status = int (6 - Suc left)" using Suc.prems(2) by simp
    have "\<exists>t'. judge cfg p (length backoffSchedule - left) out = Finished t' \<and> tStatus t' = status \<and> tNetErr t' \<and> \<not> tCapped t'"
      using r b assms(2) False by (simp add: judge_def k)
    then have "wsent w' = wsent w1 \<and> tStatus t = status \<and> tNetErr t \<and> \<not> tCapped t"
      using Suc.prems(3) q d l by (auto simp: Let_def)
    then show ?thesis using w1 eq Suc.prems(1) by simp
  qed
qed


section \<open>Closed instances\<close>

theorem ServeHTTP_returns_witness:
  "\<exists>fuel a ws'. ServeHTTP fuel (quietEnv (\<lambda>n q. replyWith 429 [])) demoConfig demoProfiles (demoRequest ''/v2/scrape'') demoWorlds = (Some a, ws')"
  using ServeHTTP_returns [of "quietEnv (\<lambda>n q. replyWith 429 [])" demoConfig demoProfiles "demoRequest ''/v2/scrape''" demoWorlds] quietEnv_clock
  by blast

theorem ServeHTTP_never_panics_witness:
  "fst (ServeHTTP 9 (quietEnv (\<lambda>n q. replyWith 401 [])) demoConfig demoProfiles (demoRequest ''/v2/scrape'') demoWorlds) \<noteq> Some Panic"
proof -
  have "statusesOk (quietEnv (\<lambda>n q. replyWith 401 []))" by (simp add: statusesOk_def quietEnv_def replyWith_def)
  then show ?thesis by (rule ServeHTTP_never_panics) (simp add: demoWorlds_wf)
qed


end
