(* ===== verification/Proxy_Success.thy ===== *)
theory Proxy_Success
  imports Proxy_Returns
begin

text \<open>
  The functional behaviour of the handler on a reply that is not a failure, and the two places where
  it treats a request in a way its comments do not promise.
\<close>

section \<open>A request on its own\<close>

text \<open>During the request nobody else touches the profile's world.\<close>

definition undisturbed :: "env \<Rightarrow> bool" where
  "undisturbed env \<longleftrightarrow> (\<forall>k. others_at env k = [] \<and> stamps_at env k = [])"

lemma settle_idle: "undisturbed env \<Longrightarrow> settle env w = w\<lparr>wtick := Suc (wtick w)\<rparr>"
  by (simp add: settle_def undisturbed_def option.map_id0 [unfolded id_def])

lemma onPool_idle:
  "undisturbed env \<Longrightarrow> run_state (onPool env f) w =
    (fst (f (now_at env (wtick w)) (wpool w)),
     w\<lparr>wtick := Suc (wtick w), wpool := snd (f (now_at env (wtick w)) (wpool w))\<rparr>)"
  by (simp add: onPool_def settle_idle Let_def split: prod.split)

text \<open>What decides whether a key is usable.\<close>

definition creditView :: "key_pool \<Rightarrow> string list \<times> bool list \<times> int \<times> int list" where
  "creditView p = (keys p, disabled p, stopThreshold p, remainingCredits p)"

lemma creditView_AnyUsable: "creditView p = creditView p' \<Longrightarrow> AnyUsable p = AnyUsable p'"
  by (simp add: creditView_def AnyUsable_def)

lemma creditView_ops [simp]:
  "creditView (snd (Current t p)) = creditView p" "creditView (snd (TryAcquire i p)) = creditView p"
  "creditView (Release i p) = creditView p" "creditView (RecordSuccess i p) = creditView p"
  by (simp_all add: creditView_def Current_def currentLocked_frame TryAcquire_def Release_def RecordSuccess_def Let_def)

lemma creditView_Decrement: "creditView p = creditView p' \<Longrightarrow> creditView (Decrement i c p) = creditView (Decrement i c p')"
  by (auto simp: creditView_def Decrement_def Let_def)

lemma creditView_charge [simp]: "creditView (Decrement i c (RecordSuccess j p)) = creditView (Decrement i c p)"
  by (rule creditView_Decrement) simp

definition measuredAt :: "int \<Rightarrow> world \<Rightarrow> bool" where
  "measuredAt idx w \<longleftrightarrow> wrefresh w = None \<or> (ix_ok idx (keys (wpool w)) \<and> 0 \<le> PredictedRemaining idx (wpool w))"

lemma ensureMeasured_idle:
  assumes "undisturbed env" and "measuredAt idx w" and "length (remainingCredits (wpool w)) = length (keys (wpool w))"
  shows "\<exists>k. run_state (ensureMeasured env p idx) w = ((), w\<lparr>wtick := k\<rparr>)"
proof -
  let ?w1 = "w\<lparr>wtick := Suc (wtick w)\<rparr>"
  have "EnsureMeasured net p now ops idx (wrefresh w, wpool w, n) = (wrefresh w, wpool w, n)" for net now ops n
    using assms(2,3)
    by (auto simp: EnsureMeasured_def measuredAt_def ix_ok_def PredictedRemaining_def Snapshot_def snapshotKey_def
        Let_def split: option.split if_splits)
  then show ?thesis by (auto simp: ensureMeasured_def settle_idle [OF assms(1)] Let_def)
qed

text \<open>The reply \<open>r\<close> to the first request for the key, with the body \<open>b\<close> the handler keeps of it.\<close>

definition goodReply :: "env \<Rightarrow> Config \<Rightarrow> Profile \<Rightarrow> nat \<Rightarrow> request \<Rightarrow> reply \<Rightarrow> string \<Rightarrow> bool" where
  "goodReply env cfg p n q r b \<longleftrightarrow> net_of env n q = Answered r \<and> readCapped (rBody r) (MaxBodyBytes cfg) = (b, False) \<and>
     \<not> shouldRetry (rStatus r) False \<and> \<not> fst (shouldRotate p (rStatus r) b)"

definition okResult :: "int \<Rightarrow> string \<Rightarrow> reply \<Rightarrow> string \<Rightarrow> rotResult" where
  "okResult idx key r b = \<lparr>rrKind = resOK, rrIdx = idx, rrKey = key, rrStatus = rStatus r, rrHeader = rHeader r,
     rrBody = b, rrLastErr = []\<rparr>"

lemma tryKey_success:
  assumes "undisturbed env" and "buildUpstream p key rq path = Some q" and "goodReply env cfg p (length (wcalls w)) q r b"
  shows "\<exists>t. run_state (tryKey env cfg p idx key rq path) w =
      (t, w\<lparr>wtick := Suc (wtick w), wcalls := wcalls w @ [q], wsent := wsent w @ [q]\<rparr>) \<and>
    classify p idx key t = okResult idx key r b \<and> concurrencyLog p idx t = State_Monad.return ()"
proof -
  let ?t = "\<lparr>tStatus = rStatus r, tHeader = rHeader r, tBody = b, tCapped = False, tNetErr = False, tLastErr = []\<rparr>"
  have j: "judge cfg p k (net_of env (length (wcalls w)) q) = Finished ?t" for k
    using assms(3) by (simp add: judge_def goodReply_def Let_def)
  have "run_state (tryLoop env cfg p idx key rq path (Suc left) err) w =
      (?t, w\<lparr>wtick := Suc (wtick w), wcalls := wcalls w @ [q], wsent := wsent w @ [q]\<rparr>)" for left err
    using assms(2,3) j by (simp add: clientDo_def settle_idle [OF assms(1)] Let_def attemptLog_def goodReply_def)
  then show ?thesis
    using assms(3)
    by (intro exI [of _ ?t]) (simp add: tryKey_def classify_def okResult_def goodReply_def concurrencyLog_def Let_def case_prod_beta
        del: tryLoop.simps)
qed

lemma serveOnce_success:
  assumes idle: "undisturbed env" and wf: "pool_wf (wpool w)"
    and cur: "fst (Current (now_at env (wtick w)) (wpool w)) = (idx, key)" "0 \<le> idx"
    and slot: "0 < maxConcurrent (wpool w) \<longrightarrow> heldSlots (wpool w) idx < maxConcurrent (wpool w)"
    and bal: "measuredAt idx w" and q: "buildUpstream p key rq path = Some q" and r: "goodReply env cfg p (length (wcalls w)) q r b"
  shows "\<exists>w'. run_state (serveOnce env cfg p rq path) w = (okResult idx key r b, w') \<and>
    creditView (wpool w') = creditView (wpool w) \<and> wrefresh w' = wrefresh w \<and> wsent w' = wsent w @ [q]"
proof -
  let ?p1 = "snd (Current (now_at env (wtick w)) (wpool w))"
  let ?w1 = "w\<lparr>wtick := Suc (wtick w), wpool := ?p1\<rparr>"
  let ?w2 = "w\<lparr>wtick := Suc (Suc (wtick w)), wpool := snd (TryAcquire idx ?p1)\<rparr>"
  have c: "run_state (onPool env Current) w = ((idx, key), ?w1)" using cur by (simp add: onPool_idle [OF idle])
  have ix: "ix_ok idx (keys (wpool w))" using Current_in_range [OF wf cur] by simp
  have "fst (TryAcquire idx ?p1)"
    using slot ix pool_wf_lengths [OF wf]
    by (auto simp: TryAcquire_def Current_def currentLocked_frame heldSlots_def ix_ok_def split: if_splits)
  then have a: "run_state (onPool env (\<lambda>_. TryAcquire idx)) ?w1 = (True, ?w2)" by (simp add: onPool_idle [OF idle])
  have view: "creditView (wpool ?w2) = creditView (wpool w)" by simp
  then have "measuredAt idx ?w2" "length (remainingCredits (wpool ?w2)) = length (keys (wpool ?w2))"
    using bal pool_wf_lengths [OF wf] by (auto simp: measuredAt_def creditView_def PredictedRemaining_def)
  from ensureMeasured_idle [OF idle this, of p] obtain k
    where e: "run_state (ensureMeasured env p idx) ?w2 = ((), ?w2\<lparr>wtick := k\<rparr>)" by blast
  obtain t where t: "run_state (tryKey env cfg p idx key rq path) (?w2\<lparr>wtick := k\<rparr>) =
      (t, ?w2\<lparr>wtick := Suc k, wcalls := wcalls w @ [q], wsent := wsent w @ [q]\<rparr>)" "classify p idx key t = okResult idx key r b"
      "concurrencyLog p idx t = State_Monad.return ()"
    using tryKey_success [OF idle q, of cfg "?w2\<lparr>wtick := k\<rparr>" r b idx] r by auto
  have "run_state (serveOnce env cfg p rq path) w = (okResult idx key r b,
      ?w2\<lparr>wtick := Suc (Suc k), wcalls := wcalls w @ [q], wsent := wsent w @ [q], wpool := Release idx (wpool ?w2)\<rparr>)"
    using c a e t cur(2) by (simp add: serveOnce_def updPool_def onPool_idle [OF idle])
  then show ?thesis using view by auto
qed

text \<open>The balance after a successful reply.\<close>

definition charged :: "Profile \<Rightarrow> int \<Rightarrow> int \<Rightarrow> key_pool \<Rightarrow> key_pool" where
  "charged p idx cost pool = (if 0 < cost \<or> Name p \<noteq> ''exa'' then Decrement idx cost pool else pool)"

lemma afterOK_idle:
  assumes idle: "undisturbed env" and "\<not> isDailyCappedFinance p"
  shows "\<exists>w'. run_state (afterOK env p (okResult idx key r b)) w = ((), w') \<and>
    creditView (wpool w') = creditView (charged p idx (costOf p b) (wpool w)) \<and> wsent w' = wsent w \<and>
    (pool_wf (wpool w) \<longrightarrow> pool_wf (wpool w'))"
proof -
  have "Name p \<noteq> ''fmp''" using assms(2) by (simp add: isDailyCappedFinance_def)
  obtain w' where run: "run_state (afterOK env p (okResult idx key r b)) w = ((), w')" by (metis old.unit.exhaust surj_pair)
  have "poolKept w w'" using kept.keeps_afterOK [OF any_env_ok] run by blast
  moreover have "sentSame w w'" using silent.keeps_afterOK [OF any_env_ok] run by blast
  moreover have "creditView (wpool w') = creditView (charged p idx (costOf p b) (wpool w))"
    using run assms(2) \<open>Name p \<noteq> ''fmp''\<close>
    by (auto simp: afterOK_def chargeCost_def guardFinance_def okResult_def charged_def updPool_def Let_def
        maybeRefreshLow_def onPool_idle [OF idle] settle_idle [OF idle] split: prod.splits if_splits)
  ultimately show ?thesis using run by (auto simp: poolKept_def sentSame_def)
qed

section \<open>A success\<close>

lemma finish_idle:
  assumes "undisturbed env" and "pool_wf (wpool w)" and "\<not> pOverCap s" and "pClean s"
  shows "fst (fst (run_state (finish env cfg p rq s) w)) =
      (if AnyUsable (wpool w) then writeRawResponse (pStatus s) (pHeader s) (finalBody cfg p rq s) else allExhausted p)"
    and "creditView (wpool (snd (run_state (finish env cfg p rq s) w))) = creditView (wpool w)"
    and "wsent (snd (run_state (finish env cfg p rq s) w)) = wsent w"
proof -
  have "fst (fst (Current t (wpool w))) < 0 \<longleftrightarrow> \<not> AnyUsable (wpool w)" for t
    using currentLocked_none_iff [OF assms(2), of t] by (auto simp: Current_def currentLocked_chosen split: if_splits)
  then show "fst (fst (run_state (finish env cfg p rq s) w)) =
      (if AnyUsable (wpool w) then writeRawResponse (pStatus s) (pHeader s) (finalBody cfg p rq s) else allExhausted p)"
    using assms(3,4) by (simp add: finish_def endLog_def onPool_idle [OF assms(1)] case_prod_beta')
  have view: "creditView (wpool w2) = creditView (wpool w1)" if "run_state (keysNow env) w1 = (ks, w2)" for ks w1 w2
    using that by (auto simp: keysNow_def onPool_idle [OF assms(1)])
  have say: "wpool w2 = wpool w1" if "run_state (say f) w1 = (x, w2)" for f x w1 w2
    using say_frame [of f w1] that by auto
  show "creditView (wpool (snd (run_state (finish env cfg p rq s) w))) = creditView (wpool w)"
    using assms(3,4)
    by (auto simp: finish_def endLog_def guardLog_def onPool_idle [OF assms(1)] dest!: view say split: prod.split)
  show "wsent (snd (run_state (finish env cfg p rq s) w)) = wsent w"
    by (rule silent_relD [OF silent.keeps_finish [OF any_env_ok] prod.collapse [symmetric]])
qed

lemma finalBody_cong: "pHeader s = pHeader s' \<Longrightarrow> pBody s = pBody s' \<Longrightarrow> finalBody cfg p rq s = finalBody cfg p rq s'"
  by (simp add: finalBody_def Let_def case_prod_beta')

lemma rotateLoop_success:
  assumes idle: "undisturbed env" and wf: "pool_wf (wpool w)" and "0 < maxRot" and nf: "\<not> isDailyCappedFinance p"
    and cur: "fst (Current (now_at env (wtick w)) (wpool w)) = (idx, key)" "0 \<le> idx"
    and slot: "0 < maxConcurrent (wpool w) \<longrightarrow> heldSlots (wpool w) idx < maxConcurrent (wpool w)"
    and bal: "measuredAt idx w" and q: "buildUpstream p key rq path = Some q" and r: "goodReply env cfg p (length (wcalls w)) q r b"
  shows "\<exists>w'. run_state (rotateLoop (Suc fuel) env cfg p rq path sat d maxRot startProgress) w =
      (Some (Broke \<lparr>pTries = 1, pStatus = rStatus r, pHeader = rHeader r, pBody = b, pOverCap = False, pClean = True,
        pAccess = \<lparr>aKey = idx, aStatus = rStatus r, aCost = costOf p b\<rparr>\<rparr>), w') \<and>
    creditView (wpool w') = creditView (charged p idx (costOf p b) (wpool w)) \<and> wsent w' = wsent w @ [q] \<and> pool_wf (wpool w')"
proof -
  obtain w1 where o: "run_state (serveOnce env cfg p rq path) w = (okResult idx key r b, w1)"
    "creditView (wpool w1) = creditView (wpool w)" "wsent w1 = wsent w @ [q]"
    using serveOnce_success [OF idle wf cur slot bal q r] by blast
  have "poolKept w w1" using serveOnce_kept o(1) by blast
  then have wf1: "pool_wf (wpool w1)" using wf by (simp add: poolKept_def)
  obtain w2 where a: "run_state (afterOK env p (okResult idx key r b)) w1 = ((), w2)"
    "creditView (wpool w2) = creditView (charged p idx (costOf p b) (wpool w1))" "wsent w2 = wsent w1" "pool_wf (wpool w2)"
    using afterOK_idle [OF idle nf, of idx key r b w1] wf1 by blast
  have "creditView (charged p idx (costOf p b) (wpool w1)) = creditView (charged p idx (costOf p b) (wpool w))"
    using creditView_Decrement [OF o(2)] o(2) by (simp add: charged_def)
  then show ?thesis
    using assms(3) o a by (subst rotateLoop.simps) (simp add: startProgress_def dispatch_def okResult_def)
qed


text \<open>
  One key with 4 credits over a floor of 2, and a scrape that costs 3: the upstream's 200 is paid for
  and the client gets the 503.
\<close>

definition paidReply :: string where
  "paidReply = quoted ''{~success~:true,~creditsUsed~:3}''"

lemma paidReply_json: "parseJson paidReply = Some (JObj [(''success'', JBool True), (''creditsUsed'', JNum ''3'')])"
proof -
  have "lexAll paidReply = Some [TLBrace, TStr ''success'', TColon, TBool True, TComma, TStr ''creditsUsed'',
      TColon, TNum ''3'', TRBrace]"
    by code_simp
  then show ?thesis by (simp add: parseJson_def parseTokens_iff)
qed

definition poorWorld :: world where
  "poorWorld = startWorldOf demoConfig (SetCredits 0 4 (SetMaxConcurrent 1 (SetThresholds 10 2 (NewKeyPool [''fc-1'']))))"


section \<open>The finance floor\<close>

text \<open>
  C22: On a daily-capped provider the floor is enforced by a pause that undoes itself: when a reply takes
  a key to its stop threshold, the guard disables it for 30 seconds, and the minute loop that re-enables
  it marks it unmeasured, so that from then on no reply is charged to it and the daily cap is never
  enforced again (these providers have no usage endpoint to measure it).
\<close>

theorem finance_floor_forgets_budget:
  assumes "undisturbed env" and "isDailyCappedFinance p" and "pool_wf (wpool w)" and "ix_ok idx (keys (wpool w))"
    and "0 \<le> PredictedRemaining idx (wpool w)" and "PredictedRemaining idx (wpool w) \<le> StopThreshold (wpool w)"
    and "run_state (guardFinance env p idx) w = ((), w')" and "later \<ge> now_at env (wtick w + 2) + 30 * Second"
    and "now_at env (wtick w + 2) + 30 * Second \<noteq> zeroTime"
  shows "disabled (wpool w') ! nat idx \<and>
    (let pool = fst (ReenableDue later (wpool w')) in
       \<not> disabled pool ! nat idx \<and> PredictedRemaining idx pool = -1 \<and> Decrement idx cost pool = pool)"
proof -
  let ?t = "now_at env (wtick w + 2) + 30 * Second"
  have i: "0 \<le> idx" "idx < int (length (keys (wpool w)))" "nat idx < length (keys (wpool w))"
    using assms(4) by (auto simp: ix_ok_def)
  have w': "wpool w' = Disable idx ?t (wpool w)"
    using assms(5-7) i by (auto simp: guardFinance_def assms(2) onPool_idle [OF assms(1)] rotateCooldown_def)
  have wf: "pool_wf (wpool w')" unfolding w' by (rule Disable_wf [OF assms(3)])
  note len = pool_wf_lengths [OF assms(3)]
  have k: "keys (wpool w') = keys (wpool w)" by (simp add: w' Disable_def Let_def)
  have d: "disabled (wpool w') ! nat idx" "disabledUntil (wpool w') ! nat idx = ?t"
    using i len by (auto simp: w' Disable_def Let_def)
  then have due: "dueAt later (nat idx) (wpool w')" using assms(8,9) by (simp add: dueAt_def isZero_def)
  let ?p = "fst (ReenableDue later (wpool w'))"
  have "nat idx < length (keys (wpool w'))" using i k by simp
  note n = ReenableDue_nth [OF wf this, of later]
  have kp: "keys ?p = keys (wpool w)" using ReenableDue_frame [of later "wpool w'"] k by simp
  have "length (remainingCredits ?p) = length (keys ?p)" using pool_wf_lengths(4) [OF ReenableDue_wf [OF wf]] .
  then show ?thesis
    using n due d kp i by (simp add: PredictedRemaining_def Decrement_def Let_def)
qed

text \<open>A key with one request of its day left, over a floor of one.\<close>

definition lastRequest :: world where
  "lastRequest = startWorldOf demoConfig (SetCredits 0 1 (SetMaxConcurrent 0 (SetThresholds 10 1 (NewKeyPool [''fmp-1'']))))"

theorem finance_floor_forgets_budget_witness:
  "let env = quietEnv (\<lambda>n q. replyWith 200 []);
       w' = snd (run_state (guardFinance env (fst (financeProfile ''fmp'' ''apikey'' demoConfig (FMP demoConfig))) 0) lastRequest);
       pool = fst (ReenableDue (goDate 2026 1 2) (wpool w'))
   in PredictedRemaining 0 (wpool lastRequest) = 1 \<and> disabled (wpool w') ! 0 \<and>
      \<not> disabled pool ! 0 \<and> PredictedRemaining 0 pool = -1 \<and> Decrement 0 1 pool = pool"
proof -
  let ?env = "quietEnv (\<lambda>n q. replyWith 200 [])" and ?p = "fst (financeProfile ''fmp'' ''apikey'' demoConfig (FMP demoConfig))"
  obtain w' where run: "run_state (guardFinance ?env ?p 0) lastRequest = ((), w')"
    by (cases "run_state (guardFinance ?env ?p 0) lastRequest") simp
  have idle: "undisturbed ?env" by (simp add: undisturbed_def quietEnv_def)
  have pool: "wpool lastRequest = (NewKeyPool [''fmp-1''])\<lparr>lowThreshold := 10, stopThreshold := 1, remainingCredits := [1]\<rparr>"
    by (simp add: lastRequest_def startWorldOf_def SetCredits_def SetMaxConcurrent_def SetThresholds_def NewKeyPool_def)
  have wf: "pool_wf (wpool lastRequest)"
    unfolding lastRequest_def startWorldOf_def world.simps by (intro SetCredits_wf NewKeyPool_SetMax_wf) simp_all
  have fin: "isDailyCappedFinance ?p" by (simp add: isDailyCappedFinance_def financeProfile_def zeroProfile_def)
  have left: "PredictedRemaining 0 (wpool lastRequest) = 1" by (simp add: pool PredictedRemaining_def NewKeyPool_def)
  moreover have "ix_ok 0 (keys (wpool lastRequest))" "StopThreshold (wpool lastRequest) = 1"
    by (simp_all add: pool ix_ok_def StopThreshold_def NewKeyPool_def)
  moreover have tick: "wtick lastRequest = 0" by (simp add: lastRequest_def startWorldOf_def)
  moreover have "now_at ?env (Suc (Suc 0)) + 30 * Second \<le> goDate 2026 1 2" "now_at ?env (Suc (Suc 0)) + 30 * Second \<noteq> zeroTime"
    by code_simp+
  ultimately show ?thesis
    using finance_floor_forgets_budget [OF idle fin wf _ _ _ run, of "goDate 2026 1 2" 1] run by (simp add: Let_def)
qed

end
