(* ===== verification/Proxy_Queue.thy ===== *)
theory Proxy_Queue
  imports Proxy_Success
begin

text \<open>
  A queued request whose free slot is on a key it may not use: \<open>WaitForSlot\<close> looks at every key,
  \<open>Current\<close> only at the usable ones.
\<close>

definition stuckPool :: "key_pool \<Rightarrow> bool" where
  "stuckPool p \<longleftrightarrow> pool_wf p \<and> 0 < maxConcurrent p \<and> AnyUsable p \<and> anySlotFreeLocked p \<and>
     (\<forall>i<length (keys p). usable p i \<longrightarrow> \<not> hasSlotLocked p i)"

lemma stuckPool_cursor: "stuckPool p \<Longrightarrow> i < length (keys p) \<Longrightarrow> stuckPool (p\<lparr>cursor := int i\<rparr>)"
  by (auto simp: stuckPool_def pool_wf_def AnyUsable_def anySlotFreeLocked_def hasSlotLocked_def usable_def list_ex_iff Let_def)

lemma stuck_Current:
  assumes "stuckPool p"
  shows "\<exists>i<length (keys p). Current now p = ((int i, keys p ! i), p\<lparr>cursor := int i\<rparr>) \<and> \<not> hasSlotLocked p i"
proof -
  have wf: "pool_wf p" using assms by (simp add: stuckPool_def)
  note nn = pool_wf_nonneg [OF wf]
  have "0 \<le> chosen p now"
    using chosen_none [OF nn, of now] assms by (auto simp: stuckPool_def AnyUsable_def list_ex_iff usable_def)
  moreover from this obtain j where "j < length (keys p)" "chosen p now = int j" "usable p j"
    using chosen_top [OF nn] by blast
  ultimately show ?thesis using assms by (auto simp: Current_def currentLocked_chosen stuckPool_def)
qed

lemma stuck_TryAcquire:
  assumes "stuckPool p" and "\<not> hasSlotLocked p i"
  shows "TryAcquire (int i) p = (False, p)"
  using assms by (auto simp: TryAcquire_def hasSlotLocked_def stuckPool_def)

lemma serveOnce_stuck:
  assumes idle: "undisturbed env" and st: "stuckPool (wpool w)"
  shows "\<exists>i key. i < length (keys (wpool w)) \<and> run_state (serveOnce env cfg p rq path) w =
    (noResult resSaturated (int i) key, w\<lparr>wtick := Suc (Suc (wtick w)), wpool := (wpool w)\<lparr>cursor := int i\<rparr>\<rparr>)"
proof -
  obtain i where i: "i < length (keys (wpool w))"
    "Current (now_at env (wtick w)) (wpool w) = ((int i, keys (wpool w) ! i), (wpool w)\<lparr>cursor := int i\<rparr>)"
    "\<not> hasSlotLocked (wpool w) i"
    using stuck_Current [OF st] by blast
  have "TryAcquire (int i) ((wpool w)\<lparr>cursor := int i\<rparr>) = (False, (wpool w)\<lparr>cursor := int i\<rparr>)"
    using stuck_TryAcquire [OF stuckPool_cursor [OF st i(1)], of i] i(3) by (simp add: hasSlotLocked_def)
  then show ?thesis using i by (auto simp: serveOnce_def onPool_idle [OF idle])
qed

lemma whenSaturated_stuck:
  assumes idle: "undisturbed env" and st: "stuckPool (wpool w)" and "sat \<noteq> ''reject''" and "0 < ConcurrencyQueue p"
    and "now_at env (wtick w) < deadline"
  shows "run_state (whenSaturated env p sat deadline) w = (None, w\<lparr>wtick := Suc (Suc (wtick w))\<rparr>)"
proof -
  have "0 < timeSub deadline (now_at env (wtick w))" using assms(5) by (simp add: timeSub_def)
  then have "WaitForSlot evs (timeSub deadline (now_at env (wtick w))) (wpool w) = (True, wpool w)" for evs
    using st by (simp add: WaitForSlot_def waitLoop.simps stuckPool_def)
  then show ?thesis
    using assms \<open>0 < timeSub deadline (now_at env (wtick w))\<close>
    by (simp add: whenSaturated_def clock_def settle_idle [OF idle] waitForSlot_def Let_def)
qed

text \<open>
  C19: The queue is a busy loop when the only free slots are on keys that may not serve: as long as the
  deadline is not reached, and whatever wakeups arrive, every turn of the rotation loop finds its usable
  keys at the cap, is told at once that a slot is free (that of a disabled or spent key), and goes
  round again. No turn blocks, no request is sent, and the pool changes in nothing but its cursor.
\<close>

theorem queued_request_spins:
  assumes "undisturbed env" and "stuckPool (wpool w)" and "sat \<noteq> ''reject''" and "0 < ConcurrencyQueue p"
    and "pTries s < maxRot" and "\<forall>k < wtick w + 4 * turns. now_at env k < deadline"
  shows "\<exists>i. run_state (rotateLoop turns env cfg p rq path sat deadline maxRot s) w =
    (None, w\<lparr>wtick := wtick w + 4 * turns, wpool := (wpool w)\<lparr>cursor := i\<rparr>\<rparr>)"
  using assms(2,6)
proof (induction turns arbitrary: w)
  case 0
  have "w = w\<lparr>wpool := (wpool w)\<lparr>cursor := cursor (wpool w)\<rparr>\<rparr>" by simp
  then show ?case using assms(5) by (subst rotateLoop.simps) (auto intro: exI [of _ "cursor (wpool w)"])
next
  case (Suc n)
  obtain i key where i: "i < length (keys (wpool w))" "run_state (serveOnce env cfg p rq path) w =
      (noResult resSaturated (int i) key, w\<lparr>wtick := Suc (Suc (wtick w)), wpool := (wpool w)\<lparr>cursor := int i\<rparr>\<rparr>)"
    using serveOnce_stuck [OF assms(1) Suc.prems(1)] by blast
  let ?w1 = "w\<lparr>wtick := Suc (Suc (wtick w)), wpool := (wpool w)\<lparr>cursor := int i\<rparr>\<rparr>"
  let ?w2 = "w\<lparr>wtick := wtick w + 4, wpool := (wpool w)\<lparr>cursor := int i\<rparr>\<rparr>"
  have st: "stuckPool (wpool ?w1)" using stuckPool_cursor [OF Suc.prems(1) i(1)] by simp
  have "now_at env (wtick ?w1) < deadline" using Suc.prems(2) by simp
  from whenSaturated_stuck [OF assms(1) st assms(3,4) this]
  have sat: "run_state (whenSaturated env p sat deadline) ?w1 = (None, ?w2)" by (simp add: numeral_eq_Suc)
  obtain j where j: "run_state (rotateLoop n env cfg p rq path sat deadline maxRot s) ?w2 =
      (None, ?w2\<lparr>wtick := wtick ?w2 + 4 * n, wpool := (wpool ?w2)\<lparr>cursor := j\<rparr>\<rparr>)"
    using Suc.IH [of ?w2] st Suc.prems(2) by auto
  then show ?case using assms(5) i(2) sat by (subst rotateLoop.simps) (auto simp: noResult_def add.assoc)
qed

text \<open>
  Two keys with one slot each: the first is disabled and idle, the second serves another request. A
  request queued for ten seconds goes round until its time is up.
\<close>

definition halfDisabled :: world where
  "halfDisabled = startWorldOf demoConfig
     (snd (TryAcquire 1 (Disable 0 (goDate 2026 2 1) (SetMaxConcurrent 1 (SetThresholds 10 2 (NewKeyPool [''fc-1'', ''fc-2'']))))))"

theorem queued_request_spins_witness:
  "\<exists>w'. run_state (rotateLoop 10 (quietEnv (\<lambda>n q. replyWith 200 [])) demoConfig (fst (firecrawlProfile demoConfig))
      (demoRequest ''/v2/scrape'') ''/v2/scrape'' ''queue'' (goDate 2026 1 2) 4 startProgress) halfDisabled = (None, w') \<and>
    wtick w' = 40 \<and> wsent w' = []"
proof -
  let ?env = "quietEnv (\<lambda>n q. replyWith 200 [])" and ?p = "fst (firecrawlProfile demoConfig)"
  have idle: "undisturbed ?env" by (simp add: undisturbed_def quietEnv_def)
  have pool: "wpool halfDisabled = (NewKeyPool [''fc-1'', ''fc-2''])\<lparr>lowThreshold := 10, stopThreshold := 2, maxConcurrent := 1,
      disabled := [True, False], disabledUntil := [goDate 2026 2 1, zeroTime], inFlight := [0, 1]\<rparr>"
    by (simp add: halfDisabled_def startWorldOf_def TryAcquire_def Disable_def SetMaxConcurrent_def SetThresholds_def NewKeyPool_def
        wrap64_def)
  have "pool_wf (wpool halfDisabled)"
    unfolding halfDisabled_def startWorldOf_def world.simps
    by (intro TryAcquire_wf Disable_wf NewKeyPool_SetMax_wf) simp
  moreover have "anySlotFreeLocked (wpool halfDisabled)" "AnyUsable (wpool halfDisabled)"
    by (simp_all add: pool NewKeyPool_def anySlotFreeLocked_def hasSlotLocked_def AnyUsable_def)
  moreover have "\<forall>i<length (keys (wpool halfDisabled)). usable (wpool halfDisabled) i \<longrightarrow> \<not> hasSlotLocked (wpool halfDisabled) i"
    by (simp add: pool NewKeyPool_def usable_def hasSlotLocked_def less_Suc_eq)
  moreover have "maxConcurrent (wpool halfDisabled) = 1" by (simp add: pool)
  ultimately have st: "stuckPool (wpool halfDisabled)" by (simp add: stuckPool_def)
  have start: "wtick halfDisabled = 0" "wsent halfDisabled = []" by (simp_all add: halfDisabled_def startWorldOf_def)
  have "goDate 2026 1 1 + 40 * Second < goDate 2026 1 2" by code_simp
  then have "\<forall>k<wtick halfDisabled + 4 * 10. now_at ?env k < goDate 2026 1 2" by (auto simp: start quietEnv_def)
  moreover have "0 < ConcurrencyQueue ?p" "pTries startProgress < 4"
    by (simp_all add: firecrawlProfile_def demoConfig_def startProgress_def durMul_def wrap64_def)
  ultimately show ?thesis
    using queued_request_spins [OF idle st, of "''queue''" ?p startProgress 4 10 "goDate 2026 1 2" demoConfig
        "demoRequest ''/v2/scrape''" "''/v2/scrape''"] start by auto
qed

end
