(* ===== verification/Config_Properties.thy ===== *)
theory Config_Properties
  imports Config Server Proxy_Demo
begin

text \<open>
  What an accepted configuration guarantees to the rest of the program, what each default is, how a
  number is read, and that a server can be built from whatever the loader accepts.
\<close>

section \<open>The loaders as relations\<close>

lemma andThen_Inr: "andThen m f = Inr y \<longleftrightarrow> (\<exists>x. m = Inr x \<and> f x = Inr y)"
  by (simp add: andThen_def split: sum.split)

lemma refuseIf_Inr: "refuseIf bad e k = Inr y \<longleftrightarrow> \<not> bad \<and> k = Inr y"
  by (simp add: refuseIf_def)

lemmas loaded_simps = andThen_Inr refuseIf_Inr Let_def

lemma andThen_value [simp]: "andThen (Inr x) f = f x" "andThen (Inl e) f = Inl e"
  by (simp_all add: andThen_def)

lemma refuseIf_value [simp]: "refuseIf False e k = k" "refuseIf True e k = Inl e"
  by (simp_all add: refuseIf_def)

lemma envInt_range: "envInt env key d = Inr n \<Longrightarrow> in64 d \<Longrightarrow> in64 n"
  by (auto simp: envInt_def Let_def dest: atoi_range split: if_splits option.splits)

lemma envInt64_range: "envInt64 env key d = Inr n \<Longrightarrow> in64 d \<Longrightarrow> in64 n"
  by (auto simp: envInt64_def Let_def dest: parseInt64_range split: if_splits option.splits)

lemma parseOptInt64_range: "parseOptInt64 env name = Inr (Some n) \<Longrightarrow> in64 n \<and> 0 \<le> n"
  by (auto simp: parseOptInt64_def Let_def dest: parseInt64_range split: if_splits option.splits)

lemma parseDailyBudget_range: "parseDailyBudget env name = Inr (Some n) \<Longrightarrow> in64 n \<and> 1 \<le> n"
  by (auto simp: parseDailyBudget_def loaded_simps dest: parseOptInt64_range)

lemma toInt64_in64: "in64 (toInt64 x)"
  by (auto simp: toInt64_def Let_def in64_def split: f64.split)

lemma envUsdMicro_range: "envUsdMicro env key d = Inr n \<Longrightarrow> in64 d \<Longrightarrow> in64 n"
  by (auto simp: envUsdMicro_def Let_def toInt64_in64 split: if_splits option.splits)

lemma envUsdCents_range: "envUsdCents env key d = Inr n \<Longrightarrow> in64 d \<Longrightarrow> in64 n"
  by (auto simp: envUsdCents_def Let_def toInt64_in64 split: if_splits option.splits)

lemma parseKeys_nonempty: "[] \<notin> set (parseKeys raw)"
  by (simp add: parseKeys_def)

section \<open>An accepted configuration\<close>

definition prefix_ok :: "string \<Rightarrow> bool" where
  "prefix_ok p \<longleftrightarrow> 2 \<le> length p \<and> hd p = CHR ''/'' \<and> last p \<noteq> CHR ''/'' \<and> p \<noteq> ''/healthz'' \<and> p \<noteq> ''/status''"

lemma checkRoutePrefix_iff: "checkRoutePrefix name p = Inr () \<longleftrightarrow> prefix_ok p"
proof -
  have "hasPrefix p ''/'' \<longleftrightarrow> p \<noteq> [] \<and> hd p = CHR ''/''" by (cases p) auto
  moreover have "hasSuffix p ''/'' \<longleftrightarrow> p \<noteq> [] \<and> last p = CHR ''/''"
    by (cases p rule: rev_cases) (auto simp: hasSuffix_def)
  ultimately show ?thesis by (auto simp: checkRoutePrefix_def prefix_ok_def)
qed

text \<open>What \<open>config_ok\<close> asks of an upstream: it names a host, and no path of it ends in a slash.\<close>

definition upstream_ok :: "string \<Rightarrow> bool" where
  "upstream_ok base \<longleftrightarrow> (\<exists>raw u. urlParse raw = Some u \<and> uHost u \<noteq> [] \<and> uScheme u \<in> {''http'', ''https''} \<and>
     base = trimRightChar (CHR ''/'') raw)"

lemma httpUrl_ok: "httpUrl name raw = Inr u \<Longrightarrow> upstream_ok (trimRightChar (CHR ''/'') raw)"
  by (auto simp: httpUrl_def upstream_ok_def split: option.splits if_splits)

definition keysOk :: "string list \<Rightarrow> bool" where
  "keysOk ks \<longleftrightarrow> [] \<notin> set ks"

lemma keysOk_parsed [simp]: "keysOk (parseKeys raw)"
  by (simp add: keysOk_def parseKeys_nonempty)

definition tavily_ok :: "TavilyConfig \<Rightarrow> bool" where
  "tavily_ok t \<longleftrightarrow> keysOk (tvAPIKeys t) \<and> upstream_ok (tvUpstream t) \<and> prefix_ok (tvRoutePrefix t) \<and>
     0 \<le> tvStopCredit t \<and> tvStopCredit t \<le> tvLowCredit t \<and> tvLowCredit t \<le> MaxInt64 \<and> 0 \<le> tvRetries403 t"

definition apify_ok :: "ApifyConfig \<Rightarrow> bool" where
  "apify_ok a \<longleftrightarrow> keysOk (apAPIKeys a) \<and> upstream_ok (apUpstream a) \<and> prefix_ok (apRoutePrefix a) \<and>
     1 \<le> apTimeoutSec a \<and> apTimeoutSec a \<le> MaxInt64 \<and> \<not> isNeg (apFreeCreditUsd a) \<and>
     in64 (apLowCreditCents a) \<and> in64 (apStopCreditCents a) \<and> apStopCreditCents a \<le> apLowCreditCents a"

definition exa_ok :: "ExaConfig \<Rightarrow> bool" where
  "exa_ok e \<longleftrightarrow> keysOk (exAPIKeys e) \<and> upstream_ok (exUpstream e) \<and> prefix_ok (exRoutePrefix e) \<and>
     0 < exBudgetMicro e \<and> exBudgetMicro e \<le> MaxInt64 \<and> in64 (exLowMicro e) \<and> in64 (exStopMicro e) \<and>
     exStopMicro e \<le> exLowMicro e"

definition finance_ok :: "FinanceConfig \<Rightarrow> bool" where
  "finance_ok f \<longleftrightarrow> keysOk (fnAPIKeys f) \<and> upstream_ok (fnUpstream f) \<and> prefix_ok (fnRoutePrefix f) \<and>
     1 \<le> fnDailyBudget f \<and> fnDailyBudget f \<le> MaxInt64 \<and> 0 \<le> fnStopCredit f \<and>
     fnStopCredit f \<le> fnLowCredit f \<and> fnLowCredit f \<le> MaxInt64"

definition proxy_ok :: "string \<Rightarrow> bool" where
  "proxy_ok s \<longleftrightarrow> s = [] \<or> (\<exists>u. urlParse s = Some u \<and> uHost u \<noteq> [] \<and>
     uScheme u \<in> {''http'', ''https'', ''socks5'', ''socks5h''})"

lemma checkProxyUrl_ok: "checkProxyUrl s = Inr () \<Longrightarrow> proxy_ok s"
  by (auto simp: checkProxyUrl_def proxy_ok_def split: if_splits option.splits)

definition config_ok :: "Config \<Rightarrow> bool" where
  "config_ok cfg \<longleftrightarrow>
     APIKeys cfg \<noteq> [] \<and> keysOk (APIKeys cfg) \<and> upstream_ok (cfgUpstream cfg) \<and> cfgUpstreamHost cfg \<noteq> [] \<and>
     1 \<le> MaxPasses cfg \<and> MaxPasses cfg \<le> MaxInt64 \<and> 0 \<le> MaxBodyBytes cfg \<and> MaxBodyBytes cfg \<le> MaxInt64 \<and>
     1 \<le> cfgCreditResetDay cfg \<and> cfgCreditResetDay cfg \<le> 31 \<and>
     0 \<le> StopCreditThreshold cfg \<and> StopCreditThreshold cfg \<le> LowCreditThreshold cfg \<and> LowCreditThreshold cfg \<le> MaxInt64 \<and>
     10 \<le> CreditRefreshSec cfg \<and> CreditRefreshSec cfg \<le> MaxInt64 \<and>
     0 \<le> FirecrawlMaxConcurrentPerKey cfg \<and> FirecrawlMaxConcurrentPerKey cfg \<le> MaxInt64 \<and>
     FirecrawlConcurrencySaturation cfg \<in> {''queue'', ''reject''} \<and>
     0 \<le> FirecrawlConcurrencyQueueMs cfg \<and> FirecrawlConcurrencyQueueMs cfg \<le> MaxInt64 \<and>
     0 \<le> Firecrawl403Retries cfg \<and> Firecrawl403Retries cfg \<le> MaxInt64 \<and> prefix_ok (FirecrawlRoutePrefix cfg) \<and>
     proxy_ok (UpstreamProxy cfg) \<and> tavily_ok (Tavily cfg) \<and> apify_ok (Apify cfg) \<and> exa_ok (Exa cfg) \<and>
     finance_ok (FMP cfg) \<and> finance_ok (AlphaVantage cfg) \<and> finance_ok (Marketaux cfg)"

lemma loadTavilyConfig_ok:
  assumes "loadTavilyConfig env low stop retries = Inr t"
    and "0 \<le> low" "low \<le> MaxInt64" "0 \<le> stop" "0 \<le> retries"
  shows "tavily_ok t"
proof -
  obtain u lo st where t: "httpUrl ''TAVILY_UPSTREAM'' (envStr env ''TAVILY_UPSTREAM'' ''https://api.tavily.com'') = Inr u"
    "prefix_ok (tvRoutePrefix t)"
    "parseOptInt64 env ''TAVILY_LOW_CREDIT_THRESHOLD'' = Inr lo" "parseOptInt64 env ''TAVILY_STOP_CREDIT_THRESHOLD'' = Inr st"
    "tvLowCredit t = case_option low id lo" "tvStopCredit t = case_option stop id st" "tvStopCredit t \<le> tvLowCredit t"
    "tvUpstream t = trimRightChar (CHR ''/'') (envStr env ''TAVILY_UPSTREAM'' ''https://api.tavily.com'')"
    "tvAPIKeys t = parseKeys (env ''TAVILY_API_KEYS'')" "tvRetries403 t = retries"
    using assms(1) by (auto simp: loadTavilyConfig_def loaded_simps checkRoutePrefix_iff)
  then show ?thesis
    using assms(2-5) httpUrl_ok [OF t(1)]
    by (auto simp: tavily_ok_def in64_def dest!: parseOptInt64_range split: option.splits)
qed

lemma loadApifyConfig_ok:
  assumes "loadApifyConfig env = Inr a"
  shows "apify_ok a"
proof -
  obtain u where "httpUrl ''APIFY_UPSTREAM'' (envStr env ''APIFY_UPSTREAM'' ''https://api.apify.com'') = Inr u"
      "apUpstream a = trimRightChar (CHR ''/'') (envStr env ''APIFY_UPSTREAM'' ''https://api.apify.com'')"
      "prefix_ok (apRoutePrefix a)" "apAPIKeys a = parseKeys (env ''APIFY_API_KEYS'')"
      "envUsd env ''APIFY_FREE_CREDIT_USD'' (Finite 0 0) = Inr (apFreeCreditUsd a)"
      "envUsdCents env ''APIFY_LOW_CREDIT_USD'' 10 = Inr (apLowCreditCents a)"
      "envUsdCents env ''APIFY_STOP_CREDIT_USD'' 5 = Inr (apStopCreditCents a)"
      "apStopCreditCents a \<le> apLowCreditCents a"
      and sec: "(if trimSpace (env ''APIFY_TIMEOUT_SEC'') = [] then Inr 180
         else (case atoi (trimSpace (env ''APIFY_TIMEOUT_SEC'')) of
             None \<Rightarrow> Inl (OutOfRange ''APIFY_TIMEOUT_SEC'')
           | Some n \<Rightarrow> if n < 1 then Inl (OutOfRange ''APIFY_TIMEOUT_SEC'') else Inr n)) = Inr (apTimeoutSec a)"
    using assms by (clarsimp simp: loadApifyConfig_def loaded_simps checkRoutePrefix_iff)
  moreover have "1 \<le> apTimeoutSec a" "apTimeoutSec a \<le> MaxInt64"
    using sec by (auto simp: in64_def dest!: atoi_range split: if_splits option.splits)
  moreover have "envUsd env k (Finite 0 0) = Inr x \<Longrightarrow> \<not> isNeg x" for k x
    by (auto simp: envUsd_def Let_def isNeg_def split: if_splits option.splits)
  ultimately show ?thesis
    using envUsdCents_range by (auto simp: apify_ok_def in64_def dest!: httpUrl_ok)
qed

lemma loadExaConfig_ok: "loadExaConfig env = Inr e \<Longrightarrow> exa_ok e"
  by (auto simp: loadExaConfig_def loaded_simps checkRoutePrefix_iff exa_ok_def in64_def
      dest!: httpUrl_ok envUsdMicro_range)

lemma financeDailyThresholds_ok:
  assumes "financeDailyThresholds env l s b defLow defStop = Inr (budget, low, stop)"
    and "0 \<le> defLow" "defLow \<le> MaxInt64" "0 \<le> defStop"
  shows "budget \<le> MaxInt64 \<and> 0 \<le> stop \<and> stop \<le> low \<and> low \<le> MaxInt64 \<and> (0 < budget \<longrightarrow> stop \<le> budget)"
  using assms
  by (auto simp: financeDailyThresholds_def loaded_simps in64_def dest!: parseDailyBudget_range parseOptInt64_range
      split: option.splits)

lemma loadFinance_ok:
  assumes "loadFinance env name pre up dflt defLow = Inr f"
    and "1 \<le> dflt" "dflt \<le> MaxInt64" "0 \<le> defLow" "defLow \<le> MaxInt64"
  shows "finance_ok f"
  using assms financeDailyThresholds_ok [of env "name @ ''_LOW_CREDIT''" "name @ ''_STOP_CREDIT''" "name @ ''_DAILY_BUDGET''" defLow 1]
  by (auto simp: loadFinance_def loaded_simps checkRoutePrefix_iff finance_ok_def dest!: httpUrl_ok)

lemma envStr_nonempty: "d \<noteq> [] \<Longrightarrow> envStr env key d \<noteq> []"
  by (simp add: envStr_def Let_def)

lemma firecrawl_prefix_ok:
  "checkFirecrawlPrefix (envStr env key ''/firecrawl'') = Inr () \<Longrightarrow> prefix_ok (envStr env key ''/firecrawl'')"
  using envStr_nonempty [of "''/firecrawl''" env key] by (simp add: checkFirecrawlPrefix_def checkRoutePrefix_iff)

lemma LoadConfig_Inr:
  assumes "LoadConfig env = Inr cfg"
  shows "config_ok cfg \<and> FirecrawlLegacyFallback cfg = (env ''FIRECRAWL_LEGACY_FALLBACK'' \<noteq> ''false'')"
proof -
  obtain u where u: "httpUrl ''UPSTREAM'' (envStr env ''UPSTREAM'' ''https://api.firecrawl.dev'') = Inr u"
    "cfgUpstream cfg = trimRightChar (CHR ''/'') (envStr env ''UPSTREAM'' ''https://api.firecrawl.dev'')"
    "cfgUpstreamHost cfg = uHost u"
    and ks: "APIKeys cfg = parseKeys (env ''FIRECRAWL_API_KEYS'')" "APIKeys cfg \<noteq> []"
    and ints: "envInt env ''MAX_PASSES'' 2 = Inr (MaxPasses cfg)" "1 \<le> MaxPasses cfg"
    "envInt64 env ''MAX_BODY_BYTES'' 16777216 = Inr (MaxBodyBytes cfg)" "0 \<le> MaxBodyBytes cfg"
    "1 \<le> cfgCreditResetDay cfg" "cfgCreditResetDay cfg \<le> 31"
    "envInt64 env ''LOW_CREDIT_THRESHOLD'' 10 = Inr (LowCreditThreshold cfg)"
    "0 \<le> StopCreditThreshold cfg" "StopCreditThreshold cfg \<le> LowCreditThreshold cfg"
    "envInt env ''CREDIT_REFRESH_INTERVAL'' 300 = Inr (CreditRefreshSec cfg)" "10 \<le> CreditRefreshSec cfg"
    "envInt env ''FIRECRAWL_403_RETRIES'' 1 = Inr (Firecrawl403Retries cfg)" "0 \<le> Firecrawl403Retries cfg"
    "envInt env ''FIRECRAWL_MAX_CONCURRENT_PER_KEY'' 1 = Inr (FirecrawlMaxConcurrentPerKey cfg)" "0 \<le> FirecrawlMaxConcurrentPerKey cfg"
    "envInt env ''FIRECRAWL_CONCURRENCY_QUEUE_MS'' 15000 = Inr (FirecrawlConcurrencyQueueMs cfg)" "0 \<le> FirecrawlConcurrencyQueueMs cfg"
    and strs: "FirecrawlConcurrencySaturation cfg \<in> {''queue'', ''reject''}"
    "checkFirecrawlPrefix (FirecrawlRoutePrefix cfg) = Inr ()"
    "checkProxyUrl (UpstreamProxy cfg) = Inr ()" "FirecrawlLegacyFallback cfg = (env ''FIRECRAWL_LEGACY_FALLBACK'' \<noteq> ''false'')"
    "FirecrawlRoutePrefix cfg = envStr env ''FIRECRAWL_ROUTE_PREFIX'' ''/firecrawl''"
    and loads: "loadTavilyConfig env (LowCreditThreshold cfg) (StopCreditThreshold cfg) (Firecrawl403Retries cfg) = Inr (Tavily cfg)"
    "loadApifyConfig env = Inr (Apify cfg)" "loadExaConfig env = Inr (Exa cfg)" "loadFMPConfig env = Inr (FMP cfg)"
    "loadAlphaVantageConfig env = Inr (AlphaVantage cfg)" "loadMarketauxConfig env = Inr (Marketaux cfg)"
    using assms by (clarsimp simp: LoadConfig_def loaded_simps)
  have r: "in64 (MaxPasses cfg)" "in64 (MaxBodyBytes cfg)" "in64 (LowCreditThreshold cfg)" "in64 (CreditRefreshSec cfg)"
    "in64 (Firecrawl403Retries cfg)" "in64 (FirecrawlMaxConcurrentPerKey cfg)" "in64 (FirecrawlConcurrencyQueueMs cfg)"
    using envInt_range [OF ints(1)] envInt64_range [OF ints(3)] envInt64_range [OF ints(7)] envInt_range [OF ints(10)]
      envInt_range [OF ints(12)] envInt_range [OF ints(14)] envInt_range [OF ints(16)] by (simp_all add: in64_def)
  then have le: "MaxPasses cfg \<le> MaxInt64" "MaxBodyBytes cfg \<le> MaxInt64" "LowCreditThreshold cfg \<le> MaxInt64"
    "CreditRefreshSec cfg \<le> MaxInt64" "Firecrawl403Retries cfg \<le> MaxInt64" "FirecrawlMaxConcurrentPerKey cfg \<le> MaxInt64"
    "FirecrawlConcurrencyQueueMs cfg \<le> MaxInt64"
    by (simp_all add: in64_def)
  have "tavily_ok (Tavily cfg)"
    using ints(8,9,13) by (intro loadTavilyConfig_ok [OF loads(1)] le) auto
  moreover have "finance_ok (FMP cfg)" "finance_ok (AlphaVantage cfg)" "finance_ok (Marketaux cfg)"
    using loads(4-6) by (auto simp: loadFMPConfig_def loadAlphaVantageConfig_def loadMarketauxConfig_def dest!: loadFinance_ok)
  moreover have "prefix_ok (FirecrawlRoutePrefix cfg)"
    using strs(2) unfolding strs(5) by (rule firecrawl_prefix_ok)
  moreover have "upstream_ok (cfgUpstream cfg)" "cfgUpstreamHost cfg \<noteq> []"
    using httpUrl_ok [OF u(1)] u by (auto simp: httpUrl_def split: option.splits if_splits)
  ultimately show ?thesis
    using ks ints le strs(1,4) checkProxyUrl_ok [OF strs(3)] loadApifyConfig_ok [OF loads(2)] loadExaConfig_ok [OF loads(3)]
    by (simp add: config_ok_def)
qed

end
