(* ===== verification/Config_Start.thy ===== *)
theory Config_Start
  imports Config_Properties
begin

text \<open>
  From an environment to a running server: the defaults, numbers read back, and what every server that
  starts can rely on.
\<close>

section \<open>Defaults\<close>

lemma parseKeys_Nil [simp]: "parseKeys [] = []"
  by (simp add: parseKeys_def)

lemma unset_values [simp]:
  assumes "env key = []"
  shows "envStr env key d = d" "envInt env key n = Inr n" "envInt64 env key n = Inr n" "parseOptInt64 env key = Inr None"
    "parseDailyBudget env key = Inr None" "envUsd env key x = Inr x" "envUsdMicro env key n = Inr n"
    "envUsdCents env key n = Inr n"
proof -
  show "parseOptInt64 env key = Inr None" using assms by (simp add: parseOptInt64_def)
  then show "parseDailyBudget env key = Inr None" by (simp add: parseDailyBudget_def)
qed (use assms in \<open>simp_all add: envStr_def envInt_def envInt64_def envUsd_def envUsdMicro_def envUsdCents_def\<close>)

definition noKeyFinance :: "string \<Rightarrow> string \<Rightarrow> int \<Rightarrow> int \<Rightarrow> FinanceConfig" where
  "noKeyFinance prefix upstream budget low = \<lparr>fnAPIKeys = [], fnUpstream = upstream, fnRoutePrefix = prefix,
     fnDailyBudget = budget, fnLowCredit = low, fnStopCredit = 1\<rparr>"

definition defaultConfig :: "string list \<Rightarrow> Config" where
  "defaultConfig ks = \<lparr>APIKeys = ks, cfgUpstream = ''https://api.firecrawl.dev'',
     cfgUpstreamHost = ''api.firecrawl.dev'', Port = ''8788'', Host = ''0.0.0.0'', MaxPasses = 2,
     MaxBodyBytes = 16777216, ProxyBaseURL = [], UpstreamProxy = [], LogLevel = ''info'',
     cfgCreditResetDay = 1, LowCreditThreshold = 10, StopCreditThreshold = 2, CreditRefreshSec = 300,
     FirecrawlMaxConcurrentPerKey = 1, FirecrawlConcurrencySaturation = ''queue'',
     FirecrawlConcurrencyQueueMs = 15000, Firecrawl403Retries = 1, FirecrawlRoutePrefix = ''/firecrawl'',
     FirecrawlLegacyFallback = True,
     Tavily = \<lparr>tvAPIKeys = [], tvUpstream = ''https://api.tavily.com'', tvRoutePrefix = ''/tavily'',
       tvLowCredit = 10, tvStopCredit = 2, tvRetries403 = 1\<rparr>,
     Apify = \<lparr>apAPIKeys = [], apUpstream = ''https://api.apify.com'', apRoutePrefix = ''/apify'', apTimeoutSec = 180,
       apFreeCreditUsd = Finite 0 0, apLowCreditCents = 10, apStopCreditCents = 5\<rparr>,
     Exa = \<lparr>exAPIKeys = [], exUpstream = ''https://api.exa.ai'', exRoutePrefix = ''/exa'',
       exBudgetMicro = 10000000, exLowMicro = 500000, exStopMicro = 100000\<rparr>,
     FMP = noKeyFinance ''/fmp'' ''https://financialmodelingprep.com'' 250 10,
     AlphaVantage = noKeyFinance ''/alphavantage'' ''https://www.alphavantage.co'' 25 5,
     Marketaux = noKeyFinance ''/marketaux'' ''https://api.marketaux.com'' 100 10\<rparr>"

text \<open>The default upstreams pass the URL check, and have no trailing slash.\<close>

lemma default_urls [simp]:
  "httpUrl n ''https://api.tavily.com'' = Inr (emptyUrl\<lparr>uScheme := ''https'', uHost := ''api.tavily.com''\<rparr>)"
  "httpUrl n ''https://api.apify.com'' = Inr (emptyUrl\<lparr>uScheme := ''https'', uHost := ''api.apify.com''\<rparr>)"
  "httpUrl n ''https://api.exa.ai'' = Inr (emptyUrl\<lparr>uScheme := ''https'', uHost := ''api.exa.ai''\<rparr>)"
  "httpUrl n ''https://financialmodelingprep.com'' = Inr (emptyUrl\<lparr>uScheme := ''https'', uHost := ''financialmodelingprep.com''\<rparr>)"
  "httpUrl n ''https://www.alphavantage.co'' = Inr (emptyUrl\<lparr>uScheme := ''https'', uHost := ''www.alphavantage.co''\<rparr>)"
  "httpUrl n ''https://api.marketaux.com'' = Inr (emptyUrl\<lparr>uScheme := ''https'', uHost := ''api.marketaux.com''\<rparr>)"
  "httpUrl n ''https://api.firecrawl.dev'' = Inr (emptyUrl\<lparr>uScheme := ''https'', uHost := ''api.firecrawl.dev''\<rparr>)"
  by code_simp+

lemma default_prefixes [simp]:
  "checkRoutePrefix n ''/tavily'' = Inr ()" "checkRoutePrefix n ''/apify'' = Inr ()" "checkRoutePrefix n ''/exa'' = Inr ()"
  "checkRoutePrefix n ''/fmp'' = Inr ()" "checkRoutePrefix n ''/alphavantage'' = Inr ()"
  "checkRoutePrefix n ''/marketaux'' = Inr ()" "checkRoutePrefix n ''/firecrawl'' = Inr ()"
  by (simp_all add: checkRoutePrefix_iff prefix_ok_def)

lemma trimRight_defaults [simp]:
  "trimRightChar (CHR ''/'') ''https://api.tavily.com'' = ''https://api.tavily.com''"
  "trimRightChar (CHR ''/'') ''https://api.apify.com'' = ''https://api.apify.com''"
  "trimRightChar (CHR ''/'') ''https://api.exa.ai'' = ''https://api.exa.ai''"
  "trimRightChar (CHR ''/'') ''https://financialmodelingprep.com'' = ''https://financialmodelingprep.com''"
  "trimRightChar (CHR ''/'') ''https://www.alphavantage.co'' = ''https://www.alphavantage.co''"
  "trimRightChar (CHR ''/'') ''https://api.marketaux.com'' = ''https://api.marketaux.com''"
  "trimRightChar (CHR ''/'') ''https://api.firecrawl.dev'' = ''https://api.firecrawl.dev''"
  by (simp_all add: trimRightChar_def)

text \<open>The environment with the firecrawl keys and nothing else.\<close>

definition keysOnly :: "string \<Rightarrow> environ" where
  "keysOnly raw = (\<lambda>_. [])(''FIRECRAWL_API_KEYS'' := raw)"

lemma keysOnly_value [simp]:
  "k \<noteq> ''FIRECRAWL_API_KEYS'' \<Longrightarrow> keysOnly raw k = []" "keysOnly raw ''FIRECRAWL_API_KEYS'' = raw"
  by (simp_all add: keysOnly_def)

lemma default_loads:
  "loadTavilyConfig (keysOnly raw) 10 2 1 = Inr (Tavily (defaultConfig ks))"
  "loadApifyConfig (keysOnly raw) = Inr (Apify (defaultConfig ks))"
  "loadExaConfig (keysOnly raw) = Inr (Exa (defaultConfig ks))"
  "loadFMPConfig (keysOnly raw) = Inr (FMP (defaultConfig ks))"
  "loadAlphaVantageConfig (keysOnly raw) = Inr (AlphaVantage (defaultConfig ks))"
  "loadMarketauxConfig (keysOnly raw) = Inr (Marketaux (defaultConfig ks))"
  by (simp_all add: loadTavilyConfig_def loadApifyConfig_def loadExaConfig_def loadFMPConfig_def loadAlphaVantageConfig_def
      loadMarketauxConfig_def loadFinance_def financeDailyThresholds_def defaultConfig_def noKeyFinance_def Let_def)

lemma LoadConfig_keysOnly:
  "parseKeys raw \<noteq> [] \<Longrightarrow> LoadConfig (keysOnly raw) = Inr (defaultConfig (parseKeys raw))"
  by (simp add: LoadConfig_def default_loads [where ks = "[]"] checkProxyUrl_def checkFirecrawlPrefix_def Let_def)
    (simp add: defaultConfig_def emptyUrl_def)

text \<open>
  With the firecrawl keys and nothing else in the environment, the loader returns the documented
  defaults; without a key it refuses to start, whatever the defaults are.
\<close>

theorem LoadConfig_defaults:
  "LoadConfig (keysOnly raw) =
     (if parseKeys raw = [] then Inl (Missing ''FIRECRAWL_API_KEYS'') else Inr (defaultConfig (parseKeys raw)))"
  by (simp add: LoadConfig_keysOnly) (simp add: LoadConfig_def Let_def)

lemma demo_keys: "parseKeys ''fc-1,fc-2'' = [''fc-1'', ''fc-2'']" "parseKeys ''fc-1'' = [''fc-1'']" "parseKeys ''fmp-1'' = [''fmp-1'']"
  by (simp_all add: parseKeys_def trimSpace_visible visible_def)

lemma demo_loaded: "LoadConfig (keysOnly ''fc-1,fc-2'') = Inr (defaultConfig [''fc-1'', ''fc-2''])"
  using LoadConfig_keysOnly [of "''fc-1,fc-2''"] by (simp add: demo_keys)

text \<open>
  C14: Whatever the loader accepts is a configuration the rest of the program can rely on: there is a
  key, every key, prefix and upstream is well formed, MAX_PASSES is at least 1, the reset day is a day
  of a month, the shared thresholds satisfy 0 <= stop <= low, every accounted provider starts from a
  positive budget, and every number is in the range of the machine integer that holds it.
\<close>

theorem LoadConfig_valid:
  assumes "LoadConfig env = Inr cfg"
  shows "config_ok cfg"
  using LoadConfig_Inr [OF assms] by blast

theorem LoadConfig_valid_witness: "config_ok (defaultConfig [''fc-1'', ''fc-2''])"
  using LoadConfig_valid [OF demo_loaded] .

section \<open>Numbers\<close>

lemma trimSpace_itoa [simp]: "trimSpace (itoa n) = itoa n"
proof -
  have digit: "isDigit c \<Longrightarrow> visible c" for c by (simp add: isDigit_def visible_def)
  have "itoa n \<noteq> []" by (simp add: itoa_def)
  moreover have "visible (hd (itoa n))"
    using natDigits_digits [of "hd (natDigits (nat n))" "nat n"] by (auto simp: itoa_def intro: digit) (simp add: visible_def)
  moreover have "visible (last (itoa n))"
    using natDigits_digits [of "last (natDigits (nat n))" "nat n"] natDigits_digits [of "last (natDigits (nat (- n)))" "nat (- n)"]
    by (auto simp: itoa_def intro: digit)
  ultimately show ?thesis by (rule trimSpace_visible)
qed

lemma itoa_not_Nil [simp]: "itoa n \<noteq> []" "[] \<noteq> itoa n"
proof -
  show "itoa n \<noteq> []" by (simp add: itoa_def)
  then show "[] \<noteq> itoa n" by (rule not_sym)
qed

lemma other_loaders:
  "loadTavilyConfig (env(''MAX_PASSES'' := v)) l s r = loadTavilyConfig env l s r"
  "loadApifyConfig (env(''MAX_PASSES'' := v)) = loadApifyConfig env"
  "loadExaConfig (env(''MAX_PASSES'' := v)) = loadExaConfig env"
  "loadFMPConfig (env(''MAX_PASSES'' := v)) = loadFMPConfig env"
  "loadAlphaVantageConfig (env(''MAX_PASSES'' := v)) = loadAlphaVantageConfig env"
  "loadMarketauxConfig (env(''MAX_PASSES'' := v)) = loadMarketauxConfig env"
  by (simp_all add: loadTavilyConfig_def loadApifyConfig_def loadExaConfig_def loadFMPConfig_def loadAlphaVantageConfig_def
      loadMarketauxConfig_def loadFinance_def financeDailyThresholds_def envStr_def envInt_def envUsd_def envUsdMicro_def
      envUsdCents_def parseDailyBudget_def parseOptInt64_def)

lemma other_values [simp]:
  assumes "key \<noteq> ''MAX_PASSES''"
  shows "envStr (env(''MAX_PASSES'' := v)) key d = envStr env key d"
    "envInt (env(''MAX_PASSES'' := v)) key n = envInt env key n"
    "envInt64 (env(''MAX_PASSES'' := v)) key n = envInt64 env key n"
  using assms by (simp_all add: envStr_def envInt_def envInt64_def)

lemma envInt_itoa [simp]: "in64 n \<Longrightarrow> envInt (env(key := itoa n)) key d = Inr n"
  by (simp add: envInt_def Let_def)

text \<open>
  Over an accepted environment, setting MAX_PASSES to the decimal text of an int64 gives the same
  configuration with exactly that number when it is at least 1, and the error naming the variable when it is not.
\<close>

theorem MAX_PASSES_read_back:
  assumes "LoadConfig env = Inr cfg" and "in64 n"
  shows "LoadConfig (env(''MAX_PASSES'' := itoa n)) =
    (if 1 \<le> n then Inr (cfg\<lparr>MaxPasses := n\<rparr>) else Inl (OutOfRange ''MAX_PASSES''))"
  using assms
  by (clarsimp simp: LoadConfig_def [of env] loaded_simps)
    (auto simp: LoadConfig_def other_loaders Let_def refuseIf_def)

theorem MAX_PASSES_read_back_witness:
  "LoadConfig ((keysOnly ''fc-1,fc-2'')(''MAX_PASSES'' := itoa 5)) = Inr (defaultConfig [''fc-1'', ''fc-2'']\<lparr>MaxPasses := 5\<rparr>) \<and>
   LoadConfig ((keysOnly ''fc-1,fc-2'')(''MAX_PASSES'' := itoa (- 3))) = Inl (OutOfRange ''MAX_PASSES'')"
  using MAX_PASSES_read_back [OF demo_loaded, of 5] MAX_PASSES_read_back [OF demo_loaded, of "- 3"] by (simp add: in64_def)

section \<open>Every number\<close>

text \<open>
  How a variable is read: not set (or blank) it is its default, and the decimal text of an int64, with
  white space around it or not, is that number.
\<close>

definition readAs :: "string \<Rightarrow> int \<Rightarrow> int \<Rightarrow> bool" where
  "readAs v d x \<longleftrightarrow> (trimSpace v = [] \<longrightarrow> x = d) \<and> (\<forall>n. in64 n \<longrightarrow> trimSpace v = itoa n \<longrightarrow> x = n)"

lemma envInt_reads: "envInt env key d = Inr x \<Longrightarrow> readAs (env key) d x"
  by (auto simp: envInt_def readAs_def Let_def split: if_splits option.splits)

lemma envInt64_reads: "envInt64 env key d = Inr x \<Longrightarrow> readAs (env key) d x"
  by (auto simp: envInt64_def readAs_def Let_def parseInt64_itoa split: if_splits option.splits)

lemma parseOptInt64_reads: "parseOptInt64 env key = Inr n \<Longrightarrow> readAs (env key) d (case_option d id n)"
  by (auto simp: parseOptInt64_def readAs_def Let_def parseInt64_itoa split: if_splits option.splits)

lemma parseDailyBudget_reads:
  "parseDailyBudget env key = Inr n \<Longrightarrow> readAs (env key) d (if 0 < case_option (- 1) id n then case_option (- 1) id n else d)"
  by (auto simp: parseDailyBudget_def parseOptInt64_def loaded_simps readAs_def parseInt64_itoa split: if_splits option.splits)

text \<open>The integer variables of the program: the name, where the number is kept, its default and its range.\<close>

type_synonym intVar = "string \<times> (Config \<Rightarrow> int) \<times> (Config \<Rightarrow> int) \<times> int \<times> int"

definition financeVars :: "string \<Rightarrow> (Config \<Rightarrow> FinanceConfig) \<Rightarrow> int \<Rightarrow> int \<Rightarrow> intVar list" where
  "financeVars n f budget low =
    [(n @ ''_DAILY_BUDGET'', \<lambda>c. fnDailyBudget (f c), \<lambda>_. budget, 1, MaxInt64),
     (n @ ''_LOW_CREDIT'', \<lambda>c. fnLowCredit (f c), \<lambda>_. low, 0, MaxInt64),
     (n @ ''_STOP_CREDIT'', \<lambda>c. fnStopCredit (f c), \<lambda>_. 1, 0, MaxInt64)]"

definition intVars :: "intVar list" where
  "intVars =
    [(''MAX_PASSES'', MaxPasses, \<lambda>_. 2, 1, MaxInt64),
     (''MAX_BODY_BYTES'', MaxBodyBytes, \<lambda>_. 16777216, 0, MaxInt64),
     (''CREDIT_RESET_DAY'', cfgCreditResetDay, \<lambda>_. 1, 1, 31),
     (''LOW_CREDIT_THRESHOLD'', LowCreditThreshold, \<lambda>_. 10, 0, MaxInt64),
     (''STOP_CREDIT_THRESHOLD'', StopCreditThreshold, \<lambda>_. 2, 0, MaxInt64),
     (''CREDIT_REFRESH_INTERVAL'', CreditRefreshSec, \<lambda>_. 300, 10, MaxInt64),
     (''FIRECRAWL_403_RETRIES'', Firecrawl403Retries, \<lambda>_. 1, 0, MaxInt64),
     (''FIRECRAWL_MAX_CONCURRENT_PER_KEY'', FirecrawlMaxConcurrentPerKey, \<lambda>_. 1, 0, MaxInt64),
     (''FIRECRAWL_CONCURRENCY_QUEUE_MS'', FirecrawlConcurrencyQueueMs, \<lambda>_. 15000, 0, MaxInt64),
     (''TAVILY_LOW_CREDIT_THRESHOLD'', \<lambda>c. tvLowCredit (Tavily c), LowCreditThreshold, 0, MaxInt64),
     (''TAVILY_STOP_CREDIT_THRESHOLD'', \<lambda>c. tvStopCredit (Tavily c), StopCreditThreshold, 0, MaxInt64),
     (''APIFY_TIMEOUT_SEC'', \<lambda>c. apTimeoutSec (Apify c), \<lambda>_. 180, 1, MaxInt64)] @
    financeVars ''FMP'' FMP 250 10 @ financeVars ''ALPHAVANTAGE'' AlphaVantage 25 5 @ financeVars ''MARKETAUX'' Marketaux 100 10"

definition varRead :: "environ \<Rightarrow> Config \<Rightarrow> intVar \<Rightarrow> bool" where
  "varRead env cfg v \<longleftrightarrow> (case v of (name, field, dflt, lo, hi) \<Rightarrow> readAs (env name) (dflt cfg) (field cfg))"

lemma loadFinance_reads:
  assumes "loadFinance env n pre up budget low = Inr (f cfg)"
  shows "list_all (varRead env cfg) (financeVars n f budget low)"
proof -
  obtain bu lo st where "parseDailyBudget env (n @ ''_DAILY_BUDGET'') = Inr bu" "parseOptInt64 env (n @ ''_LOW_CREDIT'') = Inr lo"
    "parseOptInt64 env (n @ ''_STOP_CREDIT'') = Inr st"
    "fnDailyBudget (f cfg) = (if 0 < case_option (- 1) id bu then case_option (- 1) id bu else budget)"
    "fnLowCredit (f cfg) = case_option low id lo" "fnStopCredit (f cfg) = case_option 1 id st"
    using assms by (auto simp: loadFinance_def financeDailyThresholds_def loaded_simps eq_commute [of _ "f cfg"])
  then show ?thesis
    using parseDailyBudget_reads [of env "n @ ''_DAILY_BUDGET''" bu budget] parseOptInt64_reads [of env "n @ ''_LOW_CREDIT''" lo low]
      parseOptInt64_reads [of env "n @ ''_STOP_CREDIT''" st 1]
    by (simp add: financeVars_def varRead_def)
qed

lemma loadTavily_reads:
  assumes "loadTavilyConfig env low stop retries = Inr t"
  shows "readAs (env ''TAVILY_LOW_CREDIT_THRESHOLD'') low (tvLowCredit t) \<and> readAs (env ''TAVILY_STOP_CREDIT_THRESHOLD'') stop (tvStopCredit t)"
proof -
  obtain lo st where "parseOptInt64 env ''TAVILY_LOW_CREDIT_THRESHOLD'' = Inr lo" "parseOptInt64 env ''TAVILY_STOP_CREDIT_THRESHOLD'' = Inr st"
    "tvLowCredit t = case_option low id lo" "tvStopCredit t = case_option stop id st"
    using assms by (auto simp: loadTavilyConfig_def loaded_simps)
  then show ?thesis using parseOptInt64_reads by metis
qed

lemma loadApify_reads: "loadApifyConfig env = Inr a \<Longrightarrow> readAs (env ''APIFY_TIMEOUT_SEC'') 180 (apTimeoutSec a)"
  by (clarsimp simp: loadApifyConfig_def loaded_simps) (auto simp: readAs_def split: if_splits option.splits)

lemma LoadConfig_reads:
  assumes "LoadConfig env = Inr cfg"
  shows "list_all (varRead env cfg) intVars" and "Port cfg = (if trimSpace (env ''PORT'') = [] then ''8788'' else trimSpace (env ''PORT''))"
proof -
  obtain "envInt env ''MAX_PASSES'' 2 = Inr (MaxPasses cfg)" "envInt64 env ''MAX_BODY_BYTES'' 16777216 = Inr (MaxBodyBytes cfg)"
    "envInt env ''CREDIT_RESET_DAY'' 1 = Inr (cfgCreditResetDay cfg)" "envInt64 env ''LOW_CREDIT_THRESHOLD'' 10 = Inr (LowCreditThreshold cfg)"
    "envInt64 env ''STOP_CREDIT_THRESHOLD'' 2 = Inr (StopCreditThreshold cfg)" "envInt env ''CREDIT_REFRESH_INTERVAL'' 300 = Inr (CreditRefreshSec cfg)"
    "envInt env ''FIRECRAWL_403_RETRIES'' 1 = Inr (Firecrawl403Retries cfg)"
    "envInt env ''FIRECRAWL_MAX_CONCURRENT_PER_KEY'' 1 = Inr (FirecrawlMaxConcurrentPerKey cfg)"
    "envInt env ''FIRECRAWL_CONCURRENCY_QUEUE_MS'' 15000 = Inr (FirecrawlConcurrencyQueueMs cfg)"
    and loads: "loadTavilyConfig env (LowCreditThreshold cfg) (StopCreditThreshold cfg) (Firecrawl403Retries cfg) = Inr (Tavily cfg)"
    "loadApifyConfig env = Inr (Apify cfg)" "loadFMPConfig env = Inr (FMP cfg)"
    "loadAlphaVantageConfig env = Inr (AlphaVantage cfg)" "loadMarketauxConfig env = Inr (Marketaux cfg)"
    and port: "Port cfg = envStr env ''PORT'' ''8788''"
    using assms by (clarsimp simp: LoadConfig_def loaded_simps)
  note ints = this(1-9)
  note rd = envInt_reads [OF ints(1)] envInt64_reads [OF ints(2)] envInt_reads [OF ints(3)] envInt64_reads [OF ints(4)] envInt64_reads [OF ints(5)]
    envInt_reads [OF ints(6)] envInt_reads [OF ints(7)] envInt_reads [OF ints(8)] envInt_reads [OF ints(9)]
  note fin = loadFinance_reads [where f = FMP and cfg = cfg, OF loads(3) [unfolded loadFMPConfig_def]] loadFinance_reads [where f = AlphaVantage and cfg = cfg, OF loads(4) [unfolded loadAlphaVantageConfig_def]]
    loadFinance_reads [where f = Marketaux and cfg = cfg, OF loads(5) [unfolded loadMarketauxConfig_def]]
  show "list_all (varRead env cfg) intVars"
    unfolding intVars_def list_all_append using fin by (simp add: varRead_def rd loadTavily_reads [OF loads(1)] loadApify_reads [OF loads(2)])
  show "Port cfg = (if trimSpace (env ''PORT'') = [] then ''8788'' else trimSpace (env ''PORT''))" by (simp add: port envStr_def)
qed

lemma config_ok_intVars: "config_ok cfg \<Longrightarrow> list_all (\<lambda>(name, field, dflt, lo, hi). lo \<le> field cfg \<and> field cfg \<le> hi) intVars"
  unfolding config_ok_def by (simp add: intVars_def financeVars_def tavily_ok_def apify_ok_def finance_ok_def)

text \<open>
  C37: Each integer variable comes through as it was set. In an accepted environment, for every integer
  variable of the program (listed in \<open>intVars\<close>: passes, body limit, reset day, the shared and the per-provider
  thresholds and daily budgets, intervals, retries, concurrency, timeout): if it is not set, its own field of the
  configuration has the documented default (for tavily's thresholds, the shared ones); if it is the decimal text of an
  int64, the field is exactly that number; and the field is in the variable's range, so that an environment with a number
  outside it is not accepted. PORT comes through as the text that was set. The amounts in dollars are not in the list.
\<close>

theorem numbers_read_back:
  assumes "LoadConfig env = Inr cfg"
  shows "list_all (\<lambda>(name, field, dflt, lo, hi).
      (trimSpace (env name) = [] \<longrightarrow> field cfg = dflt cfg) \<and>
      (\<forall>n. in64 n \<longrightarrow> trimSpace (env name) = itoa n \<longrightarrow> field cfg = n) \<and>
      lo \<le> field cfg \<and> field cfg \<le> hi) intVars \<and>
    Port cfg = (if trimSpace (env ''PORT'') = [] then ''8788'' else trimSpace (env ''PORT''))"
  using LoadConfig_reads [OF assms] config_ok_intVars [OF conjunct1 [OF LoadConfig_Inr [OF assms]]]
  by (fastforce simp: list_all_iff varRead_def readAs_def)

theorem numbers_read_back_witness:
  "\<exists>cfg. LoadConfig ((keysOnly ''fc-1,fc-2'')(''MAX_PASSES'' := itoa 5)) = Inr cfg \<and> MaxPasses cfg = 5 \<and> cfgCreditResetDay cfg = 1"
proof -
  let ?env = "(keysOnly ''fc-1,fc-2'')(''MAX_PASSES'' := itoa 5)"
  have l: "LoadConfig ?env = Inr (defaultConfig [''fc-1'', ''fc-2'']\<lparr>MaxPasses := 5\<rparr>)"
    using MAX_PASSES_read_back [OF demo_loaded, of 5] by (simp add: in64_def)
  have "trimSpace [] = []" by (simp add: trimSpace_def)
  then show ?thesis using numbers_read_back [OF l] l by (simp add: intVars_def in64_def)
qed

section \<open>The server that starts\<close>

lemma config_ok_ranges: "config_ok cfg \<Longrightarrow> config_ranges cfg"
  by (simp add: config_ok_def config_ranges_def exa_ok_def finance_ok_def)

lemma built_prefixes: "config_ok cfg \<Longrightarrow> list_all (\<lambda>(p, pool). prefix_ok (RoutePrefix p)) (buildProfiles cfg)"
  by (simp add: buildProfiles_def firecrawlProfile_def tavilyProfile_def exaProfile_def apifyProfile_def financeProfile_def
      Let_def zeroProfile_def config_ok_def tavily_ok_def exa_ok_def apify_ok_def finance_ok_def)

lemma buildTransport_total: "proxy_ok (UpstreamProxy cfg) \<Longrightarrow> buildTransport cfg \<noteq> None"
  by (auto simp: proxy_ok_def buildTransport_def)

lemma prefix_ok_claims: "prefix_ok (RoutePrefix p) \<Longrightarrow> \<not> claims ''/healthz'' p \<and> \<not> claims ''/status'' p"
  by (auto simp: prefix_ok_def claims_def neq_Nil_conv Cons_eq_append_conv)

lemma accepted_server:
  assumes "LoadConfig env = Inr cfg"
  shows "\<exists>s. buildServer env = Inr s \<and> svCfg s = cfg \<and> svProfiles s = map fst (buildProfiles cfg) \<and> svWorlds s = startWorlds cfg"
proof -
  have "config_ok cfg" using LoadConfig_Inr [OF assms] by blast
  then obtain tr where "buildTransport cfg = Some tr" using buildTransport_total [of cfg] by (auto simp: config_ok_def)
  then show ?thesis using assms by (simp add: buildServer_def Let_def)
qed

text \<open>
  C15: A configuration the loader accepts always starts: the transport it names can be built (an
  unsupported proxy was refused by the loader), firecrawl is the first profile and has a key, the names
  are distinct, every profile's pool is well formed, and no profile claims the two status paths.
\<close>

theorem accepted_config_starts:
  assumes "LoadConfig env = Inr cfg"
  shows "\<exists>s. buildServer env = Inr s \<and> svCfg s = cfg \<and> svProfiles s \<noteq> [] \<and> Name (hd (svProfiles s)) = ''firecrawl'' \<and>
    distinct (map Name (svProfiles s)) \<and> (\<forall>n. pool_wf (wpool (svWorlds s n))) \<and>
    (\<forall>p\<in>set (svProfiles s). \<not> claims ''/healthz'' p \<and> \<not> claims ''/status'' p)"
proof -
  have ok: "config_ok cfg" using LoadConfig_Inr [OF assms] by blast
  obtain s where s: "buildServer env = Inr s" "svCfg s = cfg" "svProfiles s = map fst (buildProfiles cfg)" "svWorlds s = startWorlds cfg"
    using accepted_server [OF assms] by blast
  have "buildProfiles cfg \<noteq> []" by (simp add: buildProfiles_def)
  moreover have "\<forall>p\<in>set (svProfiles s). prefix_ok (RoutePrefix p)"
    using built_prefixes [OF ok] s(3) by (auto simp: list_all_iff)
  ultimately show ?thesis
    using s built_names [of cfg] startWorlds_wf [OF config_ok_ranges [OF ok]] prefix_ok_claims
    by (auto simp: hd_map)
qed

theorem accepted_config_starts_witness:
  "\<exists>s. buildServer (keysOnly ''fc-1,fc-2'') = Inr s \<and> Name (hd (svProfiles s)) = ''firecrawl'' \<and>
    svCfg s = defaultConfig [''fc-1'', ''fc-2''] \<and> pool_wf (wpool (svWorlds s ''firecrawl''))"
  using accepted_config_starts [OF demo_loaded] by blast

section \<open>Two settings that do not do what they say\<close>

text \<open>
  C38: Firecrawl can never be made the catch-all: an accepted configuration always gives it a prefix (an
  empty FIRECRAWL_ROUTE_PREFIX is read as the default), so with the legacy fallback off a path under no
  profile's prefix is answered 404 and sends nothing.
\<close>

theorem firecrawl_never_catch_all:
  assumes "LoadConfig environ = Inr cfg" and "environ ''FIRECRAWL_LEGACY_FALLBACK'' = ''false''"
    and "\<forall>(p, pool)\<in>set (buildProfiles cfg). \<not> claims (iPath rq) p"
  shows "fst (ServeHTTP fuel env cfg (map fst (buildProfiles cfg)) rq ws) =
      Some (httpError (quoted ''{~success~:false,~error~:~no profile configured for this path~}'') 404) \<and>
    wsent (snd (ServeHTTP fuel env cfg (map fst (buildProfiles cfg)) rq ws) n) = wsent (ws n)"
proof -
  let ?ps = "map fst (buildProfiles cfg)"
  have ok: "config_ok cfg" "\<not> FirecrawlLegacyFallback cfg" using LoadConfig_Inr [OF assms(1)] assms(2) by auto
  have "find (claims (iPath rq)) ?ps = None" using assms(3) by (auto simp: find_None_iff)
  moreover have "find (\<lambda>p. RoutePrefix p = []) (rev ?ps) = None"
    using built_prefixes [OF ok(1)] by (auto simp: find_None_iff list_all_iff prefix_ok_def)
  ultimately have "matchProfile ?ps (iPath rq) (FirecrawlLegacyFallback cfg) = None"
    using ok(2) by (simp add: matchProfile_by_claims fallbackRoute_def lastWith_def)
  moreover obtain a w' where u: "run_state (serveUnmatched env rq) (ws ''none'') = (a, w')" by (metis surj_pair)
  moreover from u have "a = Some (httpError (quoted ''{~success~:false,~error~:~no profile configured for this path~}'') 404)"
    by (simp add: serveUnmatched_def split: prod.splits)
  ultimately show ?thesis using serveUnmatched_sent [OF u] by (simp add: ServeHTTP_def)
qed

definition noFallback :: environ where
  "noFallback = (keysOnly ''fc-1'')(''FIRECRAWL_ROUTE_PREFIX'' := '' '', ''FIRECRAWL_LEGACY_FALLBACK'' := ''false'')"

lemma noFallback_loaded: "LoadConfig noFallback = Inr (defaultConfig [''fc-1'']\<lparr>FirecrawlLegacyFallback := False\<rparr>)"
proof -
  have p: "envStr noFallback ''FIRECRAWL_ROUTE_PREFIX'' ''/firecrawl'' = ''/firecrawl''"
    by code_simp
  have v: "key \<noteq> ''FIRECRAWL_ROUTE_PREFIX'' \<Longrightarrow> key \<noteq> ''FIRECRAWL_LEGACY_FALLBACK'' \<Longrightarrow> noFallback key = keysOnly ''fc-1'' key" for key
    by (simp add: noFallback_def)
  have l: "noFallback ''FIRECRAWL_LEGACY_FALLBACK'' = ''false''" by (simp add: noFallback_def)
  show ?thesis
    by (simp add: LoadConfig_def loadTavilyConfig_def loadApifyConfig_def loadExaConfig_def loadFMPConfig_def loadAlphaVantageConfig_def
        loadMarketauxConfig_def loadFinance_def financeDailyThresholds_def demo_keys p v l checkProxyUrl_def checkFirecrawlPrefix_def Let_def)
      (simp add: defaultConfig_def noKeyFinance_def emptyUrl_def)
qed

theorem firecrawl_never_catch_all_witness:
  "fst (ServeHTTP 1 (quietEnv (\<lambda>n q. replyWith 200 [])) (defaultConfig [''fc-1'']\<lparr>FirecrawlLegacyFallback := False\<rparr>)
      (map fst (buildProfiles (defaultConfig [''fc-1'']\<lparr>FirecrawlLegacyFallback := False\<rparr>))) (demoRequest ''/v2/scrape'') demoWorlds)
    = Some (httpError (quoted ''{~success~:false,~error~:~no profile configured for this path~}'') 404)"
proof -
  have "noFallback ''FIRECRAWL_LEGACY_FALLBACK'' = ''false''" by (simp add: noFallback_def)
  moreover have "\<forall>(p, pool)\<in>set (buildProfiles (defaultConfig [''fc-1'']\<lparr>FirecrawlLegacyFallback := False\<rparr>)).
      \<not> claims (iPath (demoRequest ''/v2/scrape'')) p"
    by (simp add: buildProfiles_def firecrawlProfile_def defaultConfig_def noKeyFinance_def zeroProfile_def claims_def demoRequest_def)
  ultimately show ?thesis using firecrawl_never_catch_all [OF noFallback_loaded] by simp
qed

lemma seeded_pool:
  assumes "b \<le> MaxInt64"
  shows "disabled (seedCredits b (SetThresholds l s (NewKeyPool ks))) = replicate (length ks) False \<and>
    stopThreshold (seedCredits b (SetThresholds l s (NewKeyPool ks))) = s"
proof -
  have "disabled (fold (\<lambda>i. SetCredits (int i) b) is p) = disabled p \<and> stopThreshold (fold (\<lambda>i. SetCredits (int i) b) is p) = stopThreshold p"
    for "is" p by (induction "is" arbitrary: p) (simp_all add: SetCredits_def Let_def)
  then show ?thesis by (simp add: seedCredits_def SetThresholds_def NewKeyPool_def)
qed

text \<open>
  A finance provider starts with a usable key exactly when its stop threshold is within its daily
  budget, and the loader checks that only against a budget that is set: with the default budget, an
  accepted stop threshold above it leaves a provider that can never serve a request.
\<close>

theorem finance_starts_usable:
  assumes "loadFMPConfig env = Inr f"
  shows "AnyUsable (snd (financeProfile name param cfg f)) \<longleftrightarrow> fnAPIKeys f \<noteq> [] \<and> fnStopCredit f \<le> fnDailyBudget f"
proof -
  have f: "finance_ok f" using assms by (auto simp: loadFMPConfig_def dest!: loadFinance_ok)
  then have b: "fnDailyBudget f \<le> MaxInt64" "max 0 (fnDailyBudget f) = fnDailyBudget f" by (simp_all add: finance_ok_def)
  let ?p = "SetThresholds (fnLowCredit f) (fnStopCredit f) (NewKeyPool (fnAPIKeys f))"
  have wf: "pool_wf ?p" by (simp add: pool_wf_SetThresholds NewKeyPool_wf)
  have k: "keys ?p = fnAPIKeys f" by (simp add: SetThresholds_def NewKeyPool_def)
  have "AnyUsable (snd (financeProfile name param cfg f)) \<longleftrightarrow> (\<exists>i<length (fnAPIKeys f). fnStopCredit f \<le> fnDailyBudget f)"
    using seedCredits_props [OF wf b(1)] seeded_pool [OF b(1), of "fnLowCredit f" "fnStopCredit f" "fnAPIKeys f"] b(2) k
    by (auto simp: AnyUsable_def financeProfile_def list_ex_iff)
  then show ?thesis by (cases "fnAPIKeys f") auto
qed

definition highFloor :: environ where
  "highFloor = (\<lambda>_. [])(''FMP_API_KEYS'' := ''fmp-1'', ''FMP_STOP_CREDIT'' := ''300'', ''FMP_LOW_CREDIT'' := ''300'')"

theorem finance_starts_usable_witness:
  "\<exists>f. loadFMPConfig highFloor = Inr f \<and> fnAPIKeys f = [''fmp-1''] \<and>
     \<not> AnyUsable (snd (financeProfile ''fmp'' ''apikey'' (defaultConfig [''fc-1'']) f))"
proof -
  have n300: "parseInt64 ''300'' = Some 300" by code_simp
  have v: "parseOptInt64 highFloor ''FMP_STOP_CREDIT'' = Inr (Some 300)" "parseOptInt64 highFloor ''FMP_LOW_CREDIT'' = Inr (Some 300)"
    "parseKeys (highFloor ''FMP_API_KEYS'') = [''fmp-1'']"
    by (simp_all add: highFloor_def parseOptInt64_def trimSpace_visible visible_def n300 demo_keys)
  have u: "highFloor ''FMP_ROUTE_PREFIX'' = []" "highFloor ''FMP_UPSTREAM'' = []" "highFloor ''FMP_DAILY_BUDGET'' = []"
    by (simp_all add: highFloor_def)
  have f: "loadFMPConfig highFloor = Inr \<lparr>fnAPIKeys = [''fmp-1''], fnUpstream = ''https://financialmodelingprep.com'',
      fnRoutePrefix = ''/fmp'', fnDailyBudget = 250, fnLowCredit = 300, fnStopCredit = 300\<rparr>"
    by (simp add: loadFMPConfig_def loadFinance_def financeDailyThresholds_def u v Let_def)
  show ?thesis using finance_starts_usable [OF f, of "''fmp''" "''apikey''" "defaultConfig [''fc-1'']"] f by simp
qed

end
