(* ===== verification/Server_Properties.thy ===== *)
theory Server_Properties
  imports Config_Properties
begin

text \<open>
  The routing in front of the rotator: what the mux lets through, and which route prefixes a request
  can reach.
\<close>

section \<open>Clean paths\<close>

definition cleanSeg :: "string \<Rightarrow> bool" where
  "cleanSeg e \<longleftrightarrow> e \<noteq> [] \<and> e \<noteq> ''.'' \<and> e \<noteq> ''..'' \<and> CHR ''/'' \<notin> set e"

definition slashed :: "string list \<Rightarrow> string" where
  "slashed es = concat (map (\<lambda>e. CHR ''/'' # e) es)"

lemma slashed_simps [simp]: "slashed [] = []" "slashed (e # es) = CHR ''/'' # e @ slashed es"
  "slashed (es @ fs) = slashed es @ slashed fs"
  by (simp_all add: slashed_def)

lemma splitOn_pieces: "e \<in> set (splitOn c s) \<Longrightarrow> c \<notin> set e"
  by (induction c s arbitrary: e rule: splitOn.induct) (auto split: if_splits list.splits)

lemma splitOn_seg: "c \<notin> set e \<Longrightarrow> splitOn c (e @ c # r) = e # splitOn c r"
  by (induction e) auto

lemma splitOn_whole: "c \<notin> set e \<Longrightarrow> splitOn c e = [e]"
  by (induction e) auto

lemma splitOn_slashed:
  "list_all (\<lambda>e. CHR ''/'' \<notin> set e) es \<Longrightarrow> splitOn (CHR ''/'') (slashed es) = [] # es"
proof (induction es)
  case (Cons e es)
  then show ?case by (cases es) (simp_all add: splitOn_whole splitOn_seg)
qed simp

lemma slashed_splitOn: "slashed (splitOn (CHR ''/'') s) = CHR ''/'' # s"
  by (induction "CHR ''/''" s rule: splitOn.induct) (auto split: list.split)

lemma cleanElems_clean:
  "list_all cleanSeg acc \<Longrightarrow> list_all (\<lambda>e. CHR ''/'' \<notin> set e) es \<Longrightarrow> list_all cleanSeg (cleanElems acc es)"
proof (induction acc es rule: cleanElems.induct)
  case (2 acc e es)
  then show ?case by (cases acc) (auto simp: cleanSeg_def)
qed (simp add: list_all_iff)

lemma cleanElems_id: "list_all cleanSeg es \<Longrightarrow> cleanElems acc es = rev acc @ es"
  by (induction es arbitrary: acc) (auto simp: cleanSeg_def)

lemma cleanElems_snoc_Nil: "cleanElems acc (es @ [[]]) = cleanElems acc es"
  by (induction acc es rule: cleanElems.induct) auto

definition elemsOf :: "string \<Rightarrow> string list" where
  "elemsOf p = cleanElems [] (splitOn (CHR ''/'') p)"

lemma elemsOf_Nil [simp]: "elemsOf [] = []"
  by (simp add: elemsOf_def)

lemma elemsOf_clean: "list_all cleanSeg (elemsOf p)"
  unfolding elemsOf_def by (rule cleanElems_clean) (auto simp: list_all_iff dest: splitOn_pieces)

lemma cleanPath_eq:
  "cleanPath p = (if elemsOf p = [] then ''/''
     else slashed (elemsOf p) @ (if last p = CHR ''/'' then ''/'' else []))"
proof -
  have "es \<noteq> [] \<Longrightarrow> list_all cleanSeg es \<Longrightarrow> slashed es \<noteq> ''/''" for es
    by (cases es) (auto simp: cleanSeg_def)
  then show ?thesis
    using elemsOf_clean [of p]
    by (auto simp: cleanPath_def elemsOf_def [symmetric] slashed_def [symmetric] Let_def)
qed

lemma elemsOf_slashed:
  assumes "list_all cleanSeg es"
  shows "elemsOf (slashed es) = es" "elemsOf (slashed es @ ''/'') = es"
proof -
  have n: "list_all (\<lambda>e. CHR ''/'' \<notin> set e) es" using assms by (auto simp: cleanSeg_def list_all_iff)
  show "elemsOf (slashed es) = es"
    using assms by (simp add: elemsOf_def splitOn_slashed [OF n] cleanElems_id)
  have "splitOn (CHR ''/'') (slashed (es @ [[]])) = [] # es @ [[]]" using n by (intro splitOn_slashed) simp
  then show "elemsOf (slashed es @ ''/'') = es"
    using assms by (simp add: elemsOf_def cleanElems_snoc_Nil cleanElems_id)
qed

lemma slashed_last: "es \<noteq> [] \<Longrightarrow> list_all cleanSeg es \<Longrightarrow> last (slashed es) \<noteq> CHR ''/''"
proof (induction es rule: rev_induct)
  case (snoc e es)
  then show ?case by (cases e rule: rev_cases) (auto simp: cleanSeg_def)
qed simp

lemma cleanPath_idem: "cleanPath (cleanPath p) = cleanPath p"
proof (cases "elemsOf p = []")
  case True
  have "cleanPath ''/'' = ''/''" by (simp add: cleanPath_eq elemsOf_def)
  then show ?thesis using True by (simp add: cleanPath_eq [of p])
next
  case False
  note c = elemsOf_clean [of p]
  show ?thesis
    using False elemsOf_slashed [OF c] slashed_last [OF False c] by (simp add: cleanPath_eq [of p]) (simp add: cleanPath_eq)
qed

text \<open>
  The mux redirects a request at most once: the path it redirects to is rooted and is never
  redirected again, so a client that follows it reaches a handler.
\<close>

theorem mux_redirects_once:
  assumes "muxRoute verb escaped path = Redirect q"
  shows "hasPrefix q ''/'' \<and> (\<forall>verb' path' r. muxRoute verb' q path' \<noteq> Redirect r)"
proof -
  have q: "q = cleanPath escaped" using assms by (simp add: muxRoute_def split: if_splits)
  have "hasPrefix q ''/''" by (cases "elemsOf escaped") (auto simp: q cleanPath_eq)
  then show ?thesis by (auto simp: muxRoute_def q cleanPath_idem)
qed

theorem mux_redirects_once_witness:
  "muxRoute ''GET'' ''/exa/.././/firecrawl/'' ''/exa/.././/firecrawl/'' = Redirect ''/firecrawl/'' \<and>
   muxRoute ''GET'' ''/firecrawl/'' ''/firecrawl/'' = Rotator"
proof -
  have "muxRoute ''GET'' ''/exa/.././/firecrawl/'' ''/exa/.././/firecrawl/'' = Redirect ''/firecrawl/''" by code_simp
  moreover from mux_redirects_once [OF this]
  have "muxRoute ''GET'' ''/firecrawl/'' ''/firecrawl/'' \<noteq> Redirect (cleanPath ''/firecrawl/'')" by blast
  ultimately show ?thesis by (simp add: muxRoute_def split: if_splits)
qed

section \<open>Reachable prefixes\<close>

lemma cleanPath_fixed:
  assumes "cleanPath p = p" and "p \<noteq> ''/''"
  obtains es where "list_all cleanSeg es" "splitOn (CHR ''/'') p = [] # es \<or> splitOn (CHR ''/'') p = [] # es @ [[]]"
proof -
  define es where "es = elemsOf p"
  have es: "list_all cleanSeg es" unfolding es_def by (rule elemsOf_clean)
  then have n: "list_all (\<lambda>e. CHR ''/'' \<notin> set e) es" by (auto simp: cleanSeg_def list_all_iff)
  have "es \<noteq> []" "p = slashed es \<or> p = slashed (es @ [[]])"
    using assms cleanPath_eq [of p] by (auto simp: es_def split: if_splits)
  then have "splitOn (CHR ''/'') p = [] # es \<or> splitOn (CHR ''/'') p = [] # es @ [[]]"
    using splitOn_slashed [OF n] splitOn_slashed [of "es @ [[]]"] n by auto
  with es that show ?thesis by blast
qed

text \<open>A prefix followed by segments, split.\<close>

lemma splitOn_prefixed:
  assumes "hd pre = CHR ''/''" and "pre \<noteq> []"
  obtains ps where "pre = slashed ps" "list_all (\<lambda>e. CHR ''/'' \<notin> set e) ps"
    "splitOn (CHR ''/'') pre = [] # ps"
    "\<And>rest. splitOn (CHR ''/'') (pre @ ''/'' @ rest) = [] # ps @ splitOn (CHR ''/'') rest"
proof -
  obtain s where s: "pre = CHR ''/'' # s" using assms by (cases pre) auto
  define ps where "ps = splitOn (CHR ''/'') s"
  have n: "list_all (\<lambda>e. CHR ''/'' \<notin> set e) (splitOn (CHR ''/'') r)" for r
    by (auto simp: list_all_iff dest: splitOn_pieces)
  have p: "pre = slashed ps" by (simp add: s ps_def slashed_splitOn)
  have "splitOn (CHR ''/'') (pre @ ''/'' @ rest) = [] # ps @ splitOn (CHR ''/'') rest" for rest
    using splitOn_slashed [of "ps @ splitOn (CHR ''/'') rest"] n
    by (simp add: p slashed_splitOn ps_def del: splitOn.simps)
  with that [OF p] n splitOn_slashed [of ps] show ?thesis by (simp add: p ps_def)
qed

text \<open>
  Only a profile whose route prefix is itself a clean path (no empty, dot or dot-dot segment) can be
  reached: any other prefix, which the loader accepts as long as it is rooted and does not end in a
  slash, is redirected away by the mux before the rotator sees it.
\<close>

theorem unclean_prefix_unreachable:
  assumes "muxRoute verb path path = Rotator" and "verb \<noteq> ''CONNECT''" and "claims path p" and "prefix_ok (RoutePrefix p)"
  shows "cleanPath (RoutePrefix p) = RoutePrefix p"
proof -
  let ?pre = "RoutePrefix p"
  have pre: "hd ?pre = CHR ''/''" "?pre \<noteq> []" "2 \<le> length ?pre" "last ?pre \<noteq> CHR ''/''"
    using assms(4) by (auto simp: prefix_ok_def)
  obtain ps where ps: "?pre = slashed ps" "list_all (\<lambda>e. CHR ''/'' \<notin> set e) ps" "splitOn (CHR ''/'') ?pre = [] # ps"
    "\<And>rest. splitOn (CHR ''/'') (?pre @ ''/'' @ rest) = [] # ps @ splitOn (CHR ''/'') rest"
    using splitOn_prefixed [OF pre(1,2)] by blast
  have path: "path = ?pre \<or> (\<exists>rest. path = ?pre @ ''/'' @ rest)" using assms(3) by (auto simp: claims_def)
  then have "path \<noteq> ''/''" using pre(2,3) by (cases ?pre) auto
  moreover have "cleanPath path = path" using assms(1,2) by (auto simp: muxRoute_def split: if_splits)
  ultimately obtain es where es: "list_all cleanSeg es"
    "splitOn (CHR ''/'') path = [] # es \<or> splitOn (CHR ''/'') path = [] # es @ [[]]"
    using cleanPath_fixed by blast
  have "last ps \<noteq> []" if "ps \<noteq> []" using that pre(4) ps(1) by (cases ps rule: rev_cases) auto
  then have "ps = es @ [[]] \<Longrightarrow> False" by auto
  moreover have "ps = es \<or> ps = es @ [[]] \<or> (\<exists>r. r \<noteq> [] \<and> (ps @ r = es \<or> ps @ r = es @ [[]]))"
  proof (cases "path = ?pre")
    case True
    then show ?thesis using es(2) ps(3) by auto
  next
    case False
    then obtain rest where "splitOn (CHR ''/'') path = [] # ps @ splitOn (CHR ''/'') rest" using path ps(4) by blast
    then have "ps @ splitOn (CHR ''/'') rest = es \<or> ps @ splitOn (CHR ''/'') rest = es @ [[]]" using es(2) by simp
    then show ?thesis using splitOn_not_Nil by blast
  qed
  moreover have "r \<noteq> [] \<Longrightarrow> ps @ r = es @ [[]] \<Longrightarrow> set ps \<subseteq> set es" for r
    by (cases r rule: rev_cases) auto
  ultimately have "list_all cleanSeg ps" using es(1) by (auto simp: list_all_iff)
  then show ?thesis using elemsOf_slashed(1) [of ps] pre(2,4) ps(1) by (auto simp: cleanPath_eq)
qed

text \<open>A prefix with a double slash is accepted, and every request under it is redirected.\<close>

theorem unclean_prefix_unreachable_witness:
  "checkRoutePrefix ''TAVILY'' ''/search//v1'' = Inr () \<and>
   muxRoute ''POST'' ''/search//v1/x'' ''/search//v1/x'' \<noteq> Rotator \<and>
   cleanPath ''/tavily'' = ''/tavily''"
proof -
  define p where "p = zeroProfile\<lparr>RoutePrefix := ''/search//v1''\<rparr>"
  define p' where "p' = zeroProfile\<lparr>RoutePrefix := ''/tavily''\<rparr>"
  have ok: "prefix_ok (RoutePrefix p)" "claims ''/search//v1/x'' p" "prefix_ok (RoutePrefix p')" "claims ''/tavily/search'' p'"
    by (simp_all add: p_def p'_def zeroProfile_def prefix_ok_def claims_def)
  have "cleanPath ''/search//v1'' = ''/search/v1''" by code_simp
  then have "cleanPath (RoutePrefix p) \<noteq> RoutePrefix p" by (simp add: p_def zeroProfile_def)
  moreover have "muxRoute ''POST'' ''/tavily/search'' ''/tavily/search'' = Rotator" by code_simp
  moreover have "prefix_ok ''/search//v1''" by (simp add: prefix_ok_def)
  ultimately show ?thesis
    using unclean_prefix_unreachable [OF _ _ ok(2,1), of "''POST''"] unclean_prefix_unreachable [OF _ _ ok(4,3), of "''POST''"]
    by (simp add: checkRoutePrefix_iff) (auto simp: p_def p'_def zeroProfile_def)
qed

end
