(* ===== verification/Server_Status.thy ===== *)
theory Server_Status
  imports Server_Properties Config_Start
begin

text \<open>
  The two status endpoints: what /status prints and what a client reads back from it, what it hides,
  and that /healthz and the health check of the container report whether a key can serve.
\<close>

section \<open>Times and names are plain text\<close>

definition ascii :: "string \<Rightarrow> bool" where
  "ascii s \<longleftrightarrow> list_all (\<lambda>c. byteOf c < 128) s"

lemma ascii_valid: "ascii s \<Longrightarrow> toValidUtf8 s = s"
  by (simp add: ascii_def toValidUtf8_ascii list_all_iff)

lemma ascii_digits: "list_all isDigit s \<Longrightarrow> ascii s"
  by (auto simp: ascii_def list_all_iff isDigit_def byteOf_def)

lemma ascii_append [simp]: "ascii (a @ b) \<longleftrightarrow> ascii a \<and> ascii b" "ascii (c # b) \<longleftrightarrow> byteOf c < 128 \<and> ascii b" "ascii []"
  by (simp_all add: ascii_def)

lemma ascii_padded: "ascii (padded k x)"
proof -
  have "list_all isDigit (natDigits (nat \<bar>x\<bar>))" using natDigits_digits [of _ "nat \<bar>x\<bar>"] by (auto simp: list_all_iff)
  then have "ascii (natDigits (nat \<bar>x\<bar>))" by (rule ascii_digits)
  moreover have "ascii (replicate n (CHR ''0''))" for n by (auto simp: ascii_def list_all_iff byteOf_def)
  ultimately show ?thesis by (simp add: padded_def Let_def byteOf_def)
qed

lemma ascii_trimZeros: "ascii s \<Longrightarrow> ascii (trimZeros s)"
  using trimZeros_parts [of s] by (metis ascii_append(1))

lemma ascii_parts: "ascii (dateText t)" "ascii (clockText t)" "ascii (fractionText t)" "ascii (zoneText off)"
  by (simp_all add: dateText_def clockText_def fractionText_def zoneText_def Let_def ascii_padded ascii_trimZeros byteOf_def
      split: prod.split)

lemma ascii_time: "marshalTime off t = Some s \<Longrightarrow> ascii s"
  by (auto simp: marshalTime_def Let_def ascii_parts byteOf_def split: if_splits)

section \<open>/status\<close>

text \<open>A path of member names into a value.\<close>

definition member :: "string \<Rightarrow> json \<Rightarrow> json option" where
  "member k v = (case v of JObj ms \<Rightarrow> map_of ms k | _ \<Rightarrow> None)"

fun jsonAt :: "string list \<Rightarrow> json \<Rightarrow> json option" where
  "jsonAt [] v = Some v"
| "jsonAt (k # ks) v = (case member k v of None \<Rightarrow> None | Some w \<Rightarrow> jsonAt ks w)"

lemma insertNamed_set: "set (insertNamed e es) = insert e (set es)"
  by (induction es) auto

lemma sorted_set: "set (foldr insertNamed es []) = set es"
  by (induction es) (simp_all add: insertNamed_set)

lemma insertNamed_distinct: "distinct (map fst (e # es)) \<Longrightarrow> distinct (map fst (insertNamed e es))"
  by (induction es) (auto simp: insertNamed_set)

lemma sorted_distinct: "distinct (map fst es) \<Longrightarrow> distinct (map fst (foldr insertNamed es []))"
proof (induction es)
  case (Cons e es)
  then show ?case by (auto intro!: insertNamed_distinct simp: sorted_set)
qed simp

lemma update_fresh: "k \<notin> fst ` set xs \<Longrightarrow> AList.update k v xs = xs @ [(k, v)]"
  by (induction xs) auto

lemma snaps_distinct:
  "distinct (map fst pools) \<Longrightarrow> distinct (map fst acc) \<Longrightarrow> fst ` set pools \<inter> fst ` set acc = {} \<Longrightarrow>
    fold (\<lambda>(name, pool). AList.update name (Snapshot pool)) pools acc = acc @ map (\<lambda>(name, pool). (name, Snapshot pool)) pools"
proof (induction pools arbitrary: acc)
  case (Cons e pools)
  obtain name pool where e: "e = (name, pool)" by (cases e)
  have upd: "AList.update name (Snapshot pool) acc = acc @ [(name, Snapshot pool)]"
    using Cons.prems(3) update_fresh [of name acc] by (auto simp: e)
  have "fold (\<lambda>(name, pool). AList.update name (Snapshot pool)) pools (acc @ [(name, Snapshot pool)]) =
      (acc @ [(name, Snapshot pool)]) @ map (\<lambda>(name, pool). (name, Snapshot pool)) pools"
    using Cons.prems by (intro Cons.IH) (auto simp: e)
  then show ?case by (simp add: e upd)
qed simp

lemma those_Some: "those xs = Some ys \<longleftrightarrow> xs = map Some ys"
proof (induction xs arbitrary: ys)
  case (Cons x xs)
  then show ?case by (cases x; cases ys) auto
qed auto

text \<open>The members under "profiles" are the snapshots of the pools, once each.\<close>

lemma statusValue_members:
  assumes "statusValue zones pools = Some v" and "distinct (map fst pools)"
  shows "\<exists>ms. v = JObj [(''profiles'', JObj ms)] \<and> distinct (map fst ms) \<and> fst ` set ms = fst ` set pools \<and>
    (\<forall>(name, pool)\<in>set pools. \<exists>s. snapshotJson (zones name) (Snapshot pool) = Some s \<and> (name, s) \<in> set ms)"
proof -
  let ?es = "foldr insertNamed (map (\<lambda>(name, pool). (name, Snapshot pool)) pools) []"
  let ?f = "\<lambda>(name, s). map_option (Pair name) (snapshotJson (zones name) s)"
  have snaps: "fold (\<lambda>(name, pool). AList.update name (Snapshot pool)) pools [] = map (\<lambda>(name, pool). (name, Snapshot pool)) pools"
    using snaps_distinct [OF assms(2), of "[]"] by simp
  obtain ms where ms: "v = JObj [(''profiles'', JObj ms)]" "map ?f ?es = map Some ms"
    using assms(1) by (auto simp: statusValue_def snaps those_Some)
  have names: "map fst ms = map fst ?es"
  proof -
    have "map (fst \<circ> the) (map ?f ?es) = map fst ms" unfolding ms(2) by simp
    moreover have "map (fst \<circ> the) (map ?f ?es) = map fst ?es"
    proof -
      have "(fst \<circ> the) (?f e) = fst e" if "e \<in> set ?es" for e
      proof -
        have "?f e \<in> set (map Some ms)" using that unfolding ms(2) [symmetric] by simp
        then show ?thesis by (cases e) auto
      qed
      then show ?thesis by simp
    qed
    ultimately show ?thesis by simp
  qed
  have d: "distinct (map fst ?es)" using assms(2) by (intro sorted_distinct) (simp add: comp_def case_prod_beta)
  have m: "\<exists>s. snapshotJson (zones name) (Snapshot pool) = Some s \<and> (name, s) \<in> set ms" if "(name, pool) \<in> set pools" for name pool
  proof -
    have "(name, Snapshot pool) \<in> set ?es" using that by (force simp: sorted_set)
    then have "?f (name, Snapshot pool) \<in> set (map Some ms)" unfolding ms(2) [symmetric] by (simp only: set_map) blast
    then show ?thesis by auto
  qed
  have "fst ` set ms = set (map fst ?es)" by (metis names set_map)
  also have "\<dots> = fst ` set pools" by (simp add: sorted_set image_image case_prod_beta)
  finally have "fst ` set ms = fst ` set pools" .
  then show ?thesis using ms(1) d names m by auto
qed

lemma foldr_max_le: "(\<And>x. x \<in> set xs \<Longrightarrow> x \<le> b) \<Longrightarrow> foldr max xs 0 \<le> (b :: nat)"
  by (induction xs) auto

lemma wholeNumbers_key: "keyJson off k = Some j \<Longrightarrow> wholeNumbers j \<and> nesting j = 2"
  by (auto simp: keyJson_def statJson_def)

lemma wholeNumbers_snapshot:
  assumes "snapshotJson off s = Some j"
  shows "wholeNumbers j \<and> nesting j \<le> 4"
proof -
  obtain ks where j: "j = JObj [(''poolSize'', jint (PoolSize s)), (''currentIndex'', jint (CurrentIndex s)), (''keys'', JArr ks)]"
    and ks: "map (\<lambda>k. keyJson (off (sIndex k)) k) (Keys s) = map Some ks"
    using assms by (auto simp: snapshotJson_def those_Some)
  have "wholeNumbers k \<and> nesting k = 2" if "k \<in> set ks" for k
  proof -
    have "Some k \<in> set (map (\<lambda>k. keyJson (off (sIndex k)) k) (Keys s))" using that unfolding ks by simp
    then show ?thesis using wholeNumbers_key by auto
  qed
  then show ?thesis using foldr_max_le [of "map nesting ks" 2] by (auto simp: j list_all_iff)
qed

lemma wholeNumbers_status:
  assumes "statusValue zones pools = Some v"
  shows "wholeNumbers v" "nesting v \<le> 6"
proof -
  obtain es ms where v: "v = JObj [(''profiles'', JObj ms)]"
    and ms: "map (\<lambda>(name, s). map_option (Pair name) (snapshotJson (zones name) s)) es = map Some ms"
    using assms by (auto simp: statusValue_def Let_def those_Some)
  have "wholeNumbers (snd m) \<and> nesting (snd m) \<le> 4" if "m \<in> set ms" for m
  proof -
    have "Some m \<in> set (map (\<lambda>(name, s). map_option (Pair name) (snapshotJson (zones name) s)) es)" using that unfolding ms by simp
    then show ?thesis using wholeNumbers_snapshot by (auto dest!: sym [of "Some _"])
  qed
  note m = this
  have "foldr max (map (\<lambda>(k, v). nesting v) ms) 0 \<le> 4" by (rule foldr_max_le) (use m in auto)
  then show "nesting v \<le> 6" by (simp add: v)
  show "wholeNumbers v" using m by (auto simp: v list_all_iff)
qed

lemma status_parsed:
  assumes "statusHandler zones pools = Reply code h body" and "body \<noteq> []"
  shows "\<exists>v. statusValue zones pools = Some v \<and> parseJson body = Some (validText v)"
proof -
  obtain v where v: "statusValue zones pools = Some v" "body = render v @ [CHR 0x0A]"
    using assms by (auto simp: statusHandler_def writeJSON_def split: option.splits)
  have "list_all isWs [CHR 0x0A]" by (simp add: isWs_def)
  from parse_render [OF wholeNumbers_status(1) [OF v(1)] _ this] wholeNumbers_status(2) [OF v(1)] v show ?thesis by simp
qed

lemma validText_map_of:
  assumes "(k, v) \<in> set ms" and "distinct (map fst ms)" and "\<forall>x\<in>fst ` set ms. toValidUtf8 x = x"
  shows "map_of (map (\<lambda>(k, v). (toValidUtf8 k, validText v)) ms) k = Some (validText v)"
proof -
  have "map (\<lambda>(k, v). (toValidUtf8 k, validText v)) ms = map (\<lambda>(k, v). (k, validText v)) ms"
    using assms(3) by force
  moreover have "map_of (map (\<lambda>(k, v). (k, validText v)) ms) k = Some (validText v)"
    using assms(1,2) by (simp add: map_of_map)
  ultimately show ?thesis by (simp only:)
qed


text \<open>Two keys, the first disabled until February in a zone an hour east of Greenwich, the second with a balance.\<close>

definition shownPool :: key_pool where
  "shownPool = SetCredits 1 7 (Disable 0 (goDate 2026 2 1) (NewKeyPool [''fc-secret-1234'', ''fc-ab<9'']))"


text \<open>The last four bytes of a key (all of a shorter one), and pools that differ only in the other bytes of their keys.\<close>

definition lastFour :: "string \<Rightarrow> string" where
  "lastFour k = rev (take 4 (rev k))"

definition sameMasks :: "string \<times> key_pool \<Rightarrow> string \<times> key_pool \<Rightarrow> bool" where
  "sameMasks a b \<longleftrightarrow> fst a = fst b \<and> snd b = (snd a)\<lparr>keys := keys (snd b)\<rparr> \<and>
     map lastFour (keys (snd a)) = map lastFour (keys (snd b))"

lemma maskKey_lastFour: "maskKey = lastFour"
  by (rule ext) (simp add: maskKey_def lastFour_def take_rev)

lemma Snapshot_masked:
  assumes "sameMasks a b"
  shows "Snapshot (snd a) = Snapshot (snd b)"
proof -
  let ?p = "snd a" and ?q = "snd b"
  have b: "?q = ?p\<lparr>keys := keys ?q\<rparr>" and m: "map maskKey (keys ?p) = map maskKey (keys ?q)"
    using assms by (simp_all add: sameMasks_def maskKey_lastFour)
  have len: "length (keys ?p) = length (keys ?q)" using m by (rule map_eq_imp_length_eq)
  have same: "stats ?q = stats ?p" "disabled ?q = disabled ?p" "disabledUntil ?q = disabledUntil ?p"
    "remainingCredits ?q = remainingCredits ?p" "cursor ?q = cursor ?p"
    by (subst b, simp)+
  have "maskKey (keys ?p ! i) = maskKey (keys ?q ! i)" if "i < length (keys ?p)" for i
    using that len arg_cong [OF m, of "\<lambda>xs. xs ! i"] by simp
  then show ?thesis by (simp add: Snapshot_def snapshotKey_def len same)
qed

text \<open>
  C11: /status shows nothing of a key but its last four bytes (a key of four bytes or fewer is shown
  whole): pools whose keys, one by one, have the same last four bytes and that are otherwise equal
  are reported by the same reply, whatever the rest of the keys and their lengths.
\<close>

theorem status_shows_masks_only:
  assumes "list_all2 sameMasks pools pools'"
  shows "statusHandler zones pools = statusHandler zones pools'"
proof -
  have "fold (\<lambda>(name, pool). AList.update name (Snapshot pool)) pools acc =
      fold (\<lambda>(name, pool). AList.update name (Snapshot pool)) pools' acc" for acc
    using assms
  proof (induction pools pools' arbitrary: acc rule: list_all2_induct)
    case (Cons a as b bs)
    then show ?case using Snapshot_masked [of a b] by (simp add: case_prod_beta sameMasks_def)
  qed simp
  then show ?thesis by (simp add: statusHandler_def statusValue_def)
qed

theorem status_shows_masks_only_witness:
  "statusHandler (\<lambda>_ _. 0) [(''exa'', NewKeyPool [''exa-one-1234'', ''b''])] = statusHandler (\<lambda>_ _. 0) [(''exa'', NewKeyPool [''other-1234'', ''b''])]"
  by (rule status_shows_masks_only) (simp add: sameMasks_def NewKeyPool_def lastFour_def)

section \<open>/healthz and the health check\<close>

lemma Current_usable_iff: "pool_wf pool \<Longrightarrow> 0 \<le> fst (fst (Current now pool)) \<longleftrightarrow> AnyUsable pool"
  using currentLocked_none_iff [of pool now] by (auto simp: Current_def currentLocked_chosen split: if_splits)

lemma AnyUsable_keys: "AnyUsable pool \<Longrightarrow> keys pool \<noteq> []"
  by (auto simp: AnyUsable_def)

definition statusOf :: "response \<Rightarrow> int option" where
  "statusOf r = (case r of Handled (Some (Reply code h b)) \<Rightarrow> Some code | _ \<Rightarrow> None)"

definition probe :: inreq where
  "probe = \<lparr>iMethod = ''GET'', iPath = ''/healthz'', iRawQuery = [], iHeader = [], iHost = ''127.0.0.1'', iBody = [], iBodyErr = None\<rparr>"

lemma probe_route: "muxRoute (iMethod probe) ''/healthz'' (iPath probe) = Healthz"
  by code_simp

lemma handle_probe:
  "handle fuel env zones sv ''/healthz'' probe ws = (Handled (Some (healthzHandler (map snd (poolsOf sv ws)))), ws)"
  by (simp add: handle_def probe_route)

lemma healthz_status:
  assumes "\<And>pool. pool \<in> set pools \<Longrightarrow> pool_wf pool"
  shows "statusOf (Handled (Some (healthzHandler pools))) = Some (if \<exists>pool\<in>set pools. 0 \<le> fst (fst (Current now pool)) then 200 else 503)"
  using assms Current_usable_iff [of _ now] AnyUsable_keys
  by (auto simp: statusOf_def healthzHandler_def writeJSON_def list_ex_iff)

text \<open>
  C13: The container's health check tells whether the server can serve: when the server that the
  environment starts answers on the port the check asks, \<open>-healthcheck\<close> exits with 0 exactly when the
  selection of the handler would find a key in some profile's pool, at any clock, and with 1 otherwise;
  the probe changes nothing.
\<close>

theorem healthcheck_reports_usability:
  assumes "buildServer getenv = Inr sv" and "\<forall>n. pool_wf (wpool (ws n))"
    and "get (healthcheckUrl (svCfg sv)) = statusOf (fst (handle fuel env zones sv ''/healthz'' probe ws))"
  shows "main getenv [''-healthcheck''] get fails =
      Exit (if \<exists>p\<in>set (svProfiles sv). 0 \<le> fst (fst (Current now (wpool (ws (Name p))))) then 0 else 1) \<and>
    snd (handle fuel env zones sv ''/healthz'' probe ws) = ws"
proof -
  have "LoadConfig getenv = Inr (svCfg sv)"
    using assms(1) by (auto simp: buildServer_def andThen_def Let_def split: sum.splits option.splits)
  moreover have "parseFlags False [''-healthcheck''] = Inr True" by (simp add: cutValue_def)
  moreover have "statusOf (Handled (Some (healthzHandler (map snd (poolsOf sv ws))))) =
      Some (if \<exists>p\<in>set (svProfiles sv). 0 \<le> fst (fst (Current now (wpool (ws (Name p))))) then 200 else 503)"
    using assms(2) by (subst healthz_status [where now = now]) (auto simp: poolsOf_def)
  ultimately show ?thesis using assms(3) by (simp add: main_def healthcheck_def handle_probe)
qed

theorem healthcheck_reports_usability_witness:
  "main (keysOnly ''fc-1,fc-2'') [''-healthcheck''] (\<lambda>url. if url = ''http://127.0.0.1:8788/healthz'' then Some 200 else None) (\<lambda>_. False) = Exit 0"
proof -
  obtain sv where sv: "buildServer (keysOnly ''fc-1,fc-2'') = Inr sv" "svCfg sv = defaultConfig [''fc-1'', ''fc-2'']"
    "svProfiles sv \<noteq> []" "Name (hd (svProfiles sv)) = ''firecrawl''" "\<And>n. pool_wf (wpool (svWorlds sv n))"
    using accepted_server [OF demo_loaded] LoadConfig_Inr [OF demo_loaded] built_names [of "defaultConfig [''fc-1'', ''fc-2'']"]
      startWorlds_wf [OF config_ok_ranges] by (auto simp: hd_map buildProfiles_def)
  have port: "healthcheckUrl (svCfg sv) = ''http://127.0.0.1:8788/healthz''"
    by (simp add: sv(2) healthcheckUrl_def defaultConfig_def)
  have "svWorlds sv = startWorlds (svCfg sv)"
    using sv(1) by (auto simp: buildServer_def andThen_def Let_def split: sum.splits option.splits)
  then have "AnyUsable (wpool (svWorlds sv ''firecrawl''))"
    by (simp add: sv(2) startWorlds_def buildProfiles_def firecrawlProfile_def zeroProfile_def startWorldOf_def AnyUsable_def
        defaultConfig_def NewKeyPool_def SetMaxConcurrent_def SetThresholds_def)
  then have "0 \<le> fst (fst (Current 0 (wpool (svWorlds sv ''firecrawl''))))" using Current_usable_iff sv(5) by blast
  then have u: "\<exists>p\<in>set (svProfiles sv). 0 \<le> fst (fst (Current 0 (wpool (svWorlds sv (Name p)))))"
    using sv(3,4) by (metis list.set_sel(1))
  have s: "statusOf (fst (handle fuel env zones sv ''/healthz'' probe (svWorlds sv))) = Some 200" for fuel env zones
    using healthz_status [of "map snd (poolsOf sv (svWorlds sv))" 0] sv(5) u by (auto simp: handle_probe poolsOf_def)
  show ?thesis
    using healthcheck_reports_usability [where get = "\<lambda>url. if url = ''http://127.0.0.1:8788/healthz'' then Some 200 else None"
        and fuel = 0 and env = "quietEnv (\<lambda>n q. replyWith 200 [])" and zones = "\<lambda>_ _. 0" and now = 0 and fails = "\<lambda>_. False",
        OF sv(1), of "svWorlds sv"] sv(5) u s port
    by simp
qed

end
