(* ===== verification/System.thy ===== *)
theory System
  imports Server_Status Proxy_Properties Proxy_Returns
begin

text \<open>
  The program as a whole: from the environment variables to the server and every state it can reach by
  requests, by the ticks of its three background loops and by the goroutines they and the handler
  start. The components' guarantees are composed here.
\<close>

section \<open>The steps\<close>

text \<open>
  A request is one step; what overlaps with it is in its environment, which may do anything the pool
  and the refresher allow. The other steps are the loops' turns, the start of the warm-up and one run
  of a goroutine started earlier, in any order.
\<close>

inductive sysStep :: "server \<Rightarrow> (string \<Rightarrow> int \<Rightarrow> int) \<Rightarrow> (string \<Rightarrow> world) \<Rightarrow> (string \<Rightarrow> world) \<Rightarrow> bool"
  for sv zones where
  Request: "rooted rq \<Longrightarrow> handle fuel env zones sv escaped rq ws = (resp, ws') \<Longrightarrow> sysStep sv zones ws ws'"
| ResetTick: "p \<in> set (svProfiles sv) \<Longrightarrow> ws (Name p) = w \<Longrightarrow>
    sysStep sv zones ws (ws(Name p := w\<lparr>wpool := resetTurn now (wpool w)\<rparr>))"
| DailyTick: "p \<in> set (svProfiles sv) \<Longrightarrow> ws (Name p) = w \<Longrightarrow> dailyTurn now (wrefresh w) = (ro, js) \<Longrightarrow>
    sysStep sv zones ws (ws(Name p := w\<lparr>wrefresh := ro, wjobs := wjobs w @ js\<rparr>))"
| Warmup: "p \<in> set (svProfiles sv) \<Longrightarrow> ws (Name p) = w \<Longrightarrow>
    RefreshAll net p now order (wrefresh w, wpool w, wcalls w) = (u, ro, pool, n) \<Longrightarrow>
    sysStep sv zones ws (ws(Name p := w\<lparr>wrefresh := ro, wpool := pool, wcalls := n\<rparr>))"
| Job: "p \<in> set (svProfiles sv) \<Longrightarrow> ws (Name p) = w \<Longrightarrow> wjobs w = xs @ j # ys \<Longrightarrow> wrefresh w = Some r \<Longrightarrow>
    runJob net p now j (r, wpool w, wcalls w) = (r', pool, n) \<Longrightarrow>
    sysStep sv zones ws (ws(Name p := w\<lparr>wrefresh := Some r', wpool := pool, wcalls := n, wjobs := xs @ ys\<rparr>))"

definition reachable :: "environ \<Rightarrow> (string \<Rightarrow> int \<Rightarrow> int) \<Rightarrow> server \<Rightarrow> (string \<Rightarrow> world) \<Rightarrow> bool" where
  "reachable getenv zones sv ws \<longleftrightarrow> buildServer getenv = Inr sv \<and> (sysStep sv zones)\<^sup>*\<^sup>* (svWorlds sv) ws"

section \<open>A guarantee of every step\<close>

lemma DailyRefresh_keys: "DailyRefresh now ro = (ro', js) \<Longrightarrow> map_option rkeys ro' = map_option rkeys ro"
proof -
  have "rkeys (fst (fold (dailyKey now) is (r, js0))) = rkeys r" for "is" r js0
  proof (induction "is" arbitrary: r js0)
    case (Cons i "is")
    obtain r1 js1 where o: "dailyKey now i (r, js0) = (r1, js1)" by (metis surj_pair)
    then have "rkeys r1 = rkeys r" by (auto simp: dailyKey_def Let_def split: if_splits)
    then show ?case using o Cons [of r1 js1] by simp
  qed simp
  then show "DailyRefresh now ro = (ro', js) \<Longrightarrow> map_option rkeys ro' = map_option rkeys ro"
    by (auto simp: DailyRefresh_def split: option.splits prod.splits) (metis fst_conv)
qed

lemma named_once: "distinct (map Name ps) \<Longrightarrow> q \<in> set ps \<Longrightarrow> p \<in> set ps \<Longrightarrow> Name q = Name p \<Longrightarrow> q = p"
  by (simp add: distinct_map inj_on_def)

text \<open>
  A relation per profile that the handler's elementary writes, its passes, the disabling that follows
  them and the refreshes keep is kept by every step of the program, on every profile's world.
\<close>

locale system_relation =
  fixes R :: "Profile \<Rightarrow> world \<Rightarrow> world \<Rightarrow> bool"
    and sv :: server
  assumes talking: "talking_relation (R p) (\<lambda>_. True)"
    and refreshed: "refreshOne net p now i (r, wpool w, wcalls w) = (r', pool', sent') \<Longrightarrow> wrefresh w = Some r \<Longrightarrow>
      R p w (w\<lparr>wrefresh := Some r', wpool := pool', wcalls := sent'\<rparr>)"
    and passes: "rooted rq \<Longrightarrow> matchProfile (svProfiles sv) (iPath rq) (FirecrawlLegacyFallback (svCfg sv)) = Some (p, path) \<Longrightarrow>
      state_io_rel (R p) (serveOnce env (svCfg sv) p rq path)"
    and disabling: "\<not> R p w v \<Longrightarrow> run_state (serveOnce env cfg p rq path) w = (res, w') \<Longrightarrow> rrKind res = resRotate \<Longrightarrow>
      state_io_rel (R p) (disableKey env p (rrIdx res) (rrKey res))"
begin

lemma writes: "handler_relation (R p) (\<lambda>_. True)"
  by (rule talking_relation.axioms(1) [OF talking])

lemma same: "R p w w"
  using handler_relation.pool_same [OF writes, of p w] by simp

lemma trans: "R p a b \<Longrightarrow> R p b c \<Longrightarrow> R p a c"
  using writes [of p] by (auto simp: handler_relation_def world_relation_def)

lemma refreshes:
  assumes "wrefresh w = Some r" and "fold (refreshOne net p now) idxs (r, wpool w, wcalls w) = (r', pool, n)"
  shows "R p w (w\<lparr>wrefresh := Some r', wpool := pool, wcalls := n\<rparr>)"
  using assms
proof (induction idxs arbitrary: r w)
  case Nil
  then have "w\<lparr>wrefresh := Some r', wpool := pool, wcalls := n\<rparr> = w" by simp
  then show ?case using same [of p w] by simp
next
  case (Cons i idxs)
  obtain r1 pool1 n1 where o: "refreshOne net p now i (r, wpool w, wcalls w) = (r1, pool1, n1)" by (metis prod_cases3)
  let ?v = "w\<lparr>wrefresh := Some r1, wpool := pool1, wcalls := n1\<rparr>"
  have "R p w ?v" by (rule refreshed [OF o Cons.prems(1)])
  moreover have "R p ?v (?v\<lparr>wrefresh := Some r', wpool := pool, wcalls := n\<rparr>)"
    by (rule Cons.IH) (use Cons.prems o in simp_all)
  ultimately show ?case using trans by auto
qed

lemma written:
  assumes "distinct (map Name ps)" and "q \<in> set ps" and "p \<in> set ps" and "R q (ws (Name q)) w'"
  shows "R p (ws (Name p)) ((ws(Name q := w')) (Name p))"
proof (cases "Name q = Name p")
  case True
  then have "q = p" by (rule named_once [OF assms(1-3)])
  then show ?thesis using assms(4) by simp
qed (simp add: same)

lemma step:
  assumes "sysStep sv zones ws ws'" and "distinct (map Name (svProfiles sv))" and "p \<in> set (svProfiles sv)"
  shows "R p (ws (Name p)) (ws' (Name p))"
  using assms(1)
proof cases
  case (Request rq fuel env escaped resp)
  show ?thesis
  proof (cases "muxRoute (iMethod rq) escaped (iPath rq) = Rotator")
    case True
    then obtain a where s: "ServeHTTP fuel env (svCfg sv) (svProfiles sv) rq ws = (a, ws')"
      using Request(2) by (auto simp: handle_def split: prod.splits)
    then show ?thesis
    proof (cases rule: ServeHTTP_cases)
      case (matched q path w')
      note m = matchProfile_result [OF matched(1) Request(1)]
      have "state_io_rel (R q) (serveProfile fuel env (svCfg sv) q rq path)"
        by (rule talking_relation.talked_serveProfile [OF talking any_env_ok passes [OF Request(1) matched(1)] disabling])
      then have "R q (ws (Name q)) w'" by (rule state_io_relD [OF _ matched(2)])
      then show ?thesis unfolding matched(3) by (rule written [OF assms(2) conjunct1 [OF m] assms(3)])
    next
      case (unmatched w')
      have "state_io_rel (R p) (serveUnmatched env rq)" by (rule talking_relation.keeps_serveUnmatched [OF talking any_env_ok])
      then show ?thesis using unmatched same by auto
    qed
  next
    case False
    then have "ws' = ws" using Request(2) by (auto simp: handle_def split: route.splits)
    then show ?thesis by (simp add: same)
  qed
next
  case (ResetTick q w now)
  have "R q w (w\<lparr>wpool := exec_op (wpool w) (OpReenableDue now)\<rparr>)" by (rule handler_relation.op_law [OF writes]) simp
  then have "R q w (w\<lparr>wpool := resetTurn now (wpool w)\<rparr>)" by (simp add: resetTurn_def)
  then show ?thesis unfolding ResetTick(1) ResetTick(3) [symmetric] by (rule written [OF assms(2) ResetTick(2) assms(3)])
next
  case (DailyTick q w now ro js)
  have "map_option rkeys ro = map_option rkeys (wrefresh w)"
    using DailyTick(4) DailyRefresh_keys by (simp add: dailyTurn_def)
  then have "R q w (w\<lparr>wrefresh := ro\<rparr>)" by (rule handler_relation.refresh_law [OF writes])
  moreover have "R q (w\<lparr>wrefresh := ro\<rparr>) (w\<lparr>wrefresh := ro, wjobs := wjobs w @ js\<rparr>)"
    using handler_relation.job_law [OF writes, of q "w\<lparr>wrefresh := ro\<rparr>"] by simp
  ultimately have "R q w (w\<lparr>wrefresh := ro, wjobs := wjobs w @ js\<rparr>)" using trans by blast
  then show ?thesis unfolding DailyTick(1) DailyTick(3) [symmetric] by (rule written [OF assms(2) DailyTick(2) assms(3)])
next
  case (Warmup q w net now order u ro pool n)
  have "R q w (w\<lparr>wrefresh := ro, wpool := pool, wcalls := n\<rparr>)"
  proof (cases "wrefresh w")
    case None
    then have "w\<lparr>wrefresh := ro, wpool := pool, wcalls := n\<rparr> = w" using Warmup(4) by (simp add: RefreshAll_def)
    then show ?thesis using same [of q w] by simp
  next
    case (Some r)
    define r1 where "r1 = r\<lparr>lastDaily := replicate (length (rkeys r)) now\<rparr>"
    let ?v = "w\<lparr>wrefresh := Some r1\<rparr>"
    obtain r' where f: "fold (refreshOne net q now) (map int order) (r1, wpool w, wcalls w) = (r', pool, n)" "ro = Some r'"
      using Warmup(4) Some by (auto simp: RefreshAll_def r1_def Let_def split: prod.splits)
    have "R q w ?v" by (rule handler_relation.refresh_law [OF writes]) (simp add: Some r1_def)
    moreover have "R q ?v (?v\<lparr>wrefresh := Some r', wpool := pool, wcalls := n\<rparr>)"
      by (rule refreshes [where r = r1 and net = net and now = now and idxs = "map int order"]) (use f in simp_all)
    ultimately show ?thesis using trans f by simp
  qed
  then show ?thesis unfolding Warmup(1) Warmup(3) [symmetric] by (rule written [OF assms(2) Warmup(2) assms(3)])
next
  case (Job q w xs j ys r net now r' pool n)
  let ?v = "w\<lparr>wrefresh := Some r', wpool := pool, wcalls := n\<rparr>"
  have "R q w ?v"
    using Job(6) by (intro refreshes [OF Job(5)]) (simp add: runJob_def)
  moreover have "R q ?v (?v\<lparr>wjobs := xs @ ys\<rparr>)" by (rule handler_relation.job_law [OF writes])
  ultimately have "R q w (w\<lparr>wrefresh := Some r', wpool := pool, wcalls := n, wjobs := xs @ ys\<rparr>)" using trans by simp
  then show ?thesis unfolding Job(1) Job(3) [symmetric] by (rule written [OF assms(2) Job(2) assms(3)])
qed

lemma steps:
  "(sysStep sv zones)\<^sup>*\<^sup>* ws ws' \<Longrightarrow> distinct (map Name (svProfiles sv)) \<Longrightarrow> p \<in> set (svProfiles sv) \<Longrightarrow>
    R p (ws (Name p)) (ws' (Name p))"
  by (induction rule: rtranclp_induct) (auto intro: same trans step)

end

section \<open>Every state of the program\<close>

lemma reachable_start:
  assumes "reachable getenv zones sv ws"
  obtains cfg where "LoadConfig getenv = Inr cfg" "config_ok cfg" "svCfg sv = cfg" "svProfiles sv = map fst (buildProfiles cfg)"
    "svWorlds sv = startWorlds cfg" "distinct (map Name (svProfiles sv))" "(sysStep sv zones)\<^sup>*\<^sup>* (svWorlds sv) ws"
proof -
  obtain cfg where cfg: "LoadConfig getenv = Inr cfg" "svCfg sv = cfg" "svProfiles sv = map fst (buildProfiles cfg)"
    "svWorlds sv = startWorlds cfg"
    using assms by (auto simp: reachable_def buildServer_def Let_def andThen_def split: sum.splits option.splits)
  moreover have "config_ok cfg" using LoadConfig_Inr [OF cfg(1)] by blast
  moreover have "distinct (map Name (svProfiles sv))" using built_names [of cfg] cfg(3) by simp
  ultimately show thesis using that assms by (simp add: reachable_def)
qed

lemma start_world: "(p, pool) \<in> set (buildProfiles cfg) \<Longrightarrow> startWorlds cfg (Name p) = startWorldOf cfg pool"
proof -
  assume p: "(p, pool) \<in> set (buildProfiles cfg)"
  let ?f = "\<lambda>(p, pool). (Name p, startWorldOf cfg pool)"
  have e: "map fst (map ?f (buildProfiles cfg)) = map (Name \<circ> fst) (buildProfiles cfg)" by (simp add: case_prod_beta comp_def)
  have "distinct (map fst (map ?f (buildProfiles cfg)))" unfolding e using built_names [of cfg] by simp
  moreover have "(Name p, startWorldOf cfg pool) \<in> set (map ?f (buildProfiles cfg))" using p by force
  ultimately have "map_of (map ?f (buildProfiles cfg)) (Name p) = Some (startWorldOf cfg pool)" by (rule map_of_is_SomeI)
  then show ?thesis by (simp add: startWorlds_def)
qed

interpretation healthy: system_relation "\<lambda>_. poolKept" sv for sv
  by (rule system_relation.intro)
    (auto intro: kept.talking_relation_axioms kept.refreshOne_law serveOnce_kept kept.keeps_disableKey [OF any_env_ok])

text \<open>
  C6: In every state the program can reach from an environment it accepts, whatever the clients, the
  upstreams and the goroutines did: each profile's pool is well formed (no balance outside \<open>int64\<close>, no key
  above the cap, its slices of one length), still has the keys, thresholds and cap it was configured
  with, and its refresher refreshes exactly these keys.
\<close>

theorem system_pools_stay_configured:
  assumes "reachable getenv zones sv ws" and "(p, pool) \<in> set (buildProfiles (svCfg sv))"
  shows "pool_wf (wpool (ws (Name p))) \<and> pool_config (wpool (ws (Name p))) = pool_config pool \<and>
    map_option rkeys (wrefresh (ws (Name p))) = Some (keys pool)"
proof -
  from assms(1) obtain cfg where cfg: "config_ok cfg" "svCfg sv = cfg" "svProfiles sv = map fst (buildProfiles cfg)"
    "svWorlds sv = startWorlds cfg" "distinct (map Name (svProfiles sv))" "(sysStep sv zones)\<^sup>*\<^sup>* (svWorlds sv) ws"
    by (rule reachable_start)
  have p: "p \<in> set (svProfiles sv)" using assms(2) cfg(2,3) by force
  have "poolKept (svWorlds sv (Name p)) (ws (Name p))" by (rule healthy.steps [OF cfg(6,5) p])
  moreover have "svWorlds sv (Name p) = startWorldOf cfg pool" using start_world assms(2) cfg(2,4) by simp
  moreover have "pool_wf pool" using built_pools [OF config_ok_ranges [OF cfg(1)]] assms(2) cfg(2) by (auto simp: list_all_iff)
  ultimately show ?thesis by (simp add: poolKept_def startWorldOf_def NewRefresher_def Let_def)
qed

text \<open>The requests for the clients that the server routes to a profile, with one of the keys \<open>ks\<close>.\<close>

definition clientOf :: "server \<Rightarrow> Profile \<Rightarrow> string list \<Rightarrow> request \<Rightarrow> bool" where
  "clientOf sv p ks q \<longleftrightarrow> (\<exists>rq path. \<exists>key\<in>set ks. rooted rq \<and>
     matchProfile (svProfiles sv) (iPath rq) (FirecrawlLegacyFallback (svCfg sv)) = Some (p, path) \<and>
     buildUpstream p key rq path = Some q)"

interpretation home: system_relation "\<lambda>p. callsKept p (clientOf sv p ks) ks" sv for sv ks
proof (rule system_relation.intro)
  show "state_io_rel (callsKept p (clientOf sv p ks) ks) (serveOnce env (svCfg sv) p rq path)"
    if "rooted rq" "matchProfile (svProfiles sv) (iPath rq) (FirecrawlLegacyFallback (svCfg sv)) = Some (p, path)" for rq p path env
    by (rule serveOnce_calls) (use that in \<open>unfold clientOf_def, blast\<close>)
qed (fact calls.talking_relation_axioms calls_refreshOne calls_disabling)+

lemma built_auth: "list_all (\<lambda>(p, pool). authKind p) (buildProfiles cfg)"
proof -
  have "authKind (fst (firecrawlProfile cfg))" "authKind (fst (tavilyProfile cfg))" "authKind (fst (exaProfile cfg))"
    "authKind (fst (apifyProfile cfg))" "authKind (fst (financeProfile n ''apikey'' cfg f))"
    "authKind (fst (financeProfile n ''api_token'' cfg f))" for n f
    by (simp_all add: authKind_def firecrawlProfile_def tavilyProfile_def exaProfile_def apifyProfile_def financeProfile_def
        zeroProfile_def Let_def)
  then show ?thesis by (simp add: buildProfiles_def case_prod_beta)
qed

text \<open>
  C7: The keys stay with their providers: in every reachable state, each request that the program ever
  gave to \<open>client.Do\<close> for a profile (by the handlers, the warm-up, the daily refresh, the goroutines it starts)
  carries one of the keys configured for that profile and goes to the scheme and host of that
  profile's upstream; it is either the request of a client routed there, with its \<open>Authorization\<close>
  dropped and the key in its place, or the profile's GET of its usage. Supposed: this
  upstream is a scheme and a host without more. Not covered: what \<open>client.Do\<close> sends by itself when it follows a redirect.
\<close>

theorem system_keys_stay_home:
  assumes "reachable getenv zones sv ws" and "(p, pool) \<in> set (buildProfiles (svCfg sv))"
    and "upstreamBase sch h (Upstream p)"
  shows "\<forall>q\<in>set (wcalls (ws (Name p))). \<exists>key\<in>set (keys pool). usageFor p key q \<or>
    (\<exists>rq path. matchProfile (svProfiles sv) (iPath rq) (FirecrawlLegacyFallback (svCfg sv)) = Some (p, path) \<and> sentFor p key rq path q)"
proof
  fix q assume q: "q \<in> set (wcalls (ws (Name p)))"
  from assms(1) obtain cfg where cfg: "config_ok cfg" "svCfg sv = cfg" "svProfiles sv = map fst (buildProfiles cfg)"
    "svWorlds sv = startWorlds cfg" "distinct (map Name (svProfiles sv))" "(sysStep sv zones)\<^sup>*\<^sup>* (svWorlds sv) ws"
    by (rule reachable_start)
  have p: "p \<in> set (svProfiles sv)" using assms(2) cfg(2,3) by force
  have "callsKept p (clientOf sv p (keys pool)) (keys pool) (svWorlds sv (Name p)) (ws (Name p))" by (rule home.steps [OF cfg(6,5) p])
  moreover have "svWorlds sv (Name p) = startWorldOf cfg pool" using start_world assms(2) cfg(2,4) by simp
  moreover have "pool_wf pool" using built_pools [OF config_ok_ranges [OF cfg(1)]] assms(2) cfg(2) by (auto simp: list_all_iff)
  ultimately have call: "clientOf sv p (keys pool) q \<or> usageBy p (keys pool) q"
    using q by (auto simp: callsKept_def keyed_def startWorldOf_def NewRefresher_def Let_def)
  have plain: "plainProfile p" using built_auth [of cfg] assms(2,3) cfg(2) unfolding plainProfile_def list_all_iff by fast
  from call show "\<exists>key\<in>set (keys pool). usageFor p key q \<or>
    (\<exists>rq path. matchProfile (svProfiles sv) (iPath rq) (FirecrawlLegacyFallback (svCfg sv)) = Some (p, path) \<and> sentFor p key rq path q)"
  proof
    assume "clientOf sv p (keys pool) q"
    then obtain rq path key where c: "key \<in> set (keys pool)" "rooted rq" "buildUpstream p key rq path = Some q"
      "matchProfile (svProfiles sv) (iPath rq) (FirecrawlLegacyFallback (svCfg sv)) = Some (p, path)"
      unfolding clientOf_def by blast
    have "sentFor p key rq path q" using sentFor_build [OF c(3) plain] matchProfile_result [OF c(4,2)] by blast
    then show ?thesis using c(1,4) by blast
  next
    assume "usageBy p (keys pool) q"
    then show ?thesis unfolding usageBy_def by (meson usageFor_query plain)
  qed
qed

text \<open>The pool of a world that belongs to no profile stays well formed (the log of unmatched requests is in one).\<close>

lemma step_elsewhere: "sysStep sv zones ws ws' \<Longrightarrow> n \<notin> Name ` set (svProfiles sv) \<Longrightarrow> poolKept (ws n) (ws' n)"
proof (induction rule: sysStep.induct)
  case (Request rq fuel env escaped ws resp ws')
  show ?case
  proof (cases "muxRoute (iMethod rq) escaped (iPath rq) = Rotator")
    case True
    then obtain a where s: "ServeHTTP fuel env (svCfg sv) (svProfiles sv) rq ws = (a, ws')"
      using Request(2) by (auto simp: handle_def split: prod.splits)
    show ?thesis
      by (rule ServeHTTP_relation [OF s])
        (auto simp: kept.R_refl intro!: kept.keeps_serveUnmatched kept.keeps_serveProfile any_env_ok serveOnce_kept)
  qed (use Request(2) in \<open>auto simp: handle_def kept.R_refl split: route.splits\<close>)
qed (auto simp: kept.R_refl)

lemma steps_elsewhere: "(sysStep sv zones)\<^sup>*\<^sup>* ws ws' \<Longrightarrow> n \<notin> Name ` set (svProfiles sv) \<Longrightarrow> poolKept (ws n) (ws' n)"
  by (induction rule: rtranclp_induct) (auto intro: kept.R_refl kept.R_trans dest: step_elsewhere)

lemma reachable_wf:
  assumes "reachable getenv zones sv ws"
  shows "pool_wf (wpool (ws n))"
proof -
  from assms obtain cfg where cfg: "config_ok cfg" "svProfiles sv = map fst (buildProfiles cfg)" "svWorlds sv = startWorlds cfg"
    "distinct (map Name (svProfiles sv))" "(sysStep sv zones)\<^sup>*\<^sup>* (svWorlds sv) ws"
    by (rule reachable_start)
  have start: "pool_wf (wpool (svWorlds sv n))" unfolding cfg(3) by (rule startWorlds_wf [OF config_ok_ranges [OF cfg(1)]])
  show ?thesis
  proof (cases "n \<in> Name ` set (svProfiles sv)")
    case True
    then obtain p where p: "p \<in> set (svProfiles sv)" "n = Name p" by blast
    show ?thesis using healthy.steps [OF cfg(5,4) p(1)] start p(2) by (simp add: poolKept_def)
  qed (use start steps_elsewhere [OF cfg(5)] in \<open>simp add: poolKept_def\<close>)
qed

text \<open>
  C8: The server answers: in every reachable state a request is redirected or answered, by a status page or
  by the handler with a status; the handler never panics, and returns without an answer only if the
  request's context was canceled (the client has gone) at some step after it began. Supposed: the
  upstreams' statuses have three digits and the clock passes every instant.
\<close>

theorem system_answers:
  assumes "reachable getenv zones sv ws" and "statusesOk env" and "\<forall>t. \<exists>K. \<forall>k\<ge>K. t \<le> now_at env k"
  shows "\<exists>fuel0 r. (\<forall>fuel\<ge>fuel0. fst (handle fuel env zones sv escaped rq ws) = r) \<and>
    r \<noteq> Handled None \<and> r \<noteq> Handled (Some Panic) \<and>
    (r = Handled (Some Silent) \<longrightarrow>
      (\<exists>p path k. matchProfile (svProfiles sv) (iPath rq) (FirecrawlLegacyFallback (svCfg sv)) = Some (p, path) \<and>
        wtick (ws (Name p)) \<le> k \<and> canceled_at env k))"
proof (cases "muxRoute (iMethod rq) escaped (iPath rq) = Rotator")
  case True
  from ServeHTTP_returns [OF assms(3)] obtain fuel0 a ws' where
    r: "\<forall>fuel\<ge>fuel0. ServeHTTP fuel env (svCfg sv) (svProfiles sv) rq ws = (Some a, ws')" by blast
  then have "ServeHTTP fuel0 env (svCfg sv) (svProfiles sv) rq ws = (Some a, ws')" by simp
  from ServeHTTP_fine [OF assms(2) _ this] reachable_wf [OF assms(1)]
  show ?thesis using True r by (intro exI [of _ fuel0] exI [of _ "Handled (Some a)"]) (auto simp: handle_def)
next
  case False
  define r where "r = fst (handle 0 env zones sv escaped rq ws)"
  have "\<forall>fuel. fst (handle fuel env zones sv escaped rq ws) = r"
    using False by (simp add: r_def handle_def split: route.split)
  moreover have "r \<noteq> Handled None \<and> r \<noteq> Handled (Some Panic) \<and> r \<noteq> Handled (Some Silent)"
    using False by (simp add: r_def handle_def healthzHandler_def statusHandler_def writeJSON_def split: route.split)
  ultimately show ?thesis by blast
qed

section \<open>Closed instances\<close>

text \<open>A server with two firecrawl keys, after a request whose replies all say that the credit is spent.\<close>

abbreviation spentEnv :: env where
  "spentEnv \<equiv> quietEnv (\<lambda>n q. replyWith 402 [])"

definition afterSpent :: "server \<Rightarrow> string \<Rightarrow> world" where
  "afterSpent sv = snd (handle 9 spentEnv (\<lambda>_ _. 0) sv ''/v2/scrape'' (demoRequest ''/v2/scrape'') (svWorlds sv))"

lemma afterSpent_reachable:
  assumes "buildServer (keysOnly ''fc-1,fc-2'') = Inr sv"
  shows "reachable (keysOnly ''fc-1,fc-2'') (\<lambda>_ _. 0) sv (afterSpent sv)"
proof -
  obtain resp where "handle 9 spentEnv (\<lambda>_ _. 0) sv ''/v2/scrape'' (demoRequest ''/v2/scrape'') (svWorlds sv) = (resp, afterSpent sv)"
    unfolding afterSpent_def by (metis prod.collapse)
  then have "sysStep sv (\<lambda>_ _. 0) (svWorlds sv) (afterSpent sv)"
    by (rule sysStep.Request [rotated]) (simp add: rooted_def demoRequest_def)
  then show ?thesis using assms by (simp add: reachable_def)
qed

lemma two_keys_server:
  obtains sv where "buildServer (keysOnly ''fc-1,fc-2'') = Inr sv" "svCfg sv = defaultConfig [''fc-1'', ''fc-2'']"
    "\<exists>p pool. (p, pool) \<in> set (buildProfiles (svCfg sv)) \<and> Name p = ''firecrawl'' \<and> keys pool = [''fc-1'', ''fc-2''] \<and>
      UpstreamHost p = ''api.firecrawl.dev'' \<and> Upstream p = ''https://api.firecrawl.dev'' \<and> upstreamBase ''https'' ''api.firecrawl.dev'' (Upstream p)"
proof -
  let ?cfg = "defaultConfig [''fc-1'', ''fc-2'']"
  have "plainHost ''api.firecrawl.dev''" by code_simp
  then have u: "upstreamBase ''https'' ''api.firecrawl.dev'' ''https://api.firecrawl.dev''" by (simp add: upstreamBase_def)
  have "(fst (firecrawlProfile ?cfg), snd (firecrawlProfile ?cfg)) \<in> set (buildProfiles ?cfg)" by (simp add: buildProfiles_def)
  moreover have "Name (fst (firecrawlProfile ?cfg)) = ''firecrawl'' \<and> keys (snd (firecrawlProfile ?cfg)) = [''fc-1'', ''fc-2''] \<and>
      UpstreamHost (fst (firecrawlProfile ?cfg)) = ''api.firecrawl.dev'' \<and> Upstream (fst (firecrawlProfile ?cfg)) = ''https://api.firecrawl.dev'' \<and> upstreamBase ''https'' ''api.firecrawl.dev'' (Upstream (fst (firecrawlProfile ?cfg)))"
    using u by (simp add: firecrawlProfile_def defaultConfig_def NewKeyPool_def SetThresholds_def SetMaxConcurrent_def)
  ultimately show thesis using that accepted_server [OF demo_loaded] by metis
qed

theorem system_pools_stay_configured_witness:
  "\<exists>sv. buildServer (keysOnly ''fc-1,fc-2'') = Inr sv \<and> pool_wf (wpool (afterSpent sv ''firecrawl'')) \<and>
    keys (wpool (afterSpent sv ''firecrawl'')) = [''fc-1'', ''fc-2'']"
proof -
  obtain sv p pool where sv: "buildServer (keysOnly ''fc-1,fc-2'') = Inr sv"
    "(p, pool) \<in> set (buildProfiles (svCfg sv))" "Name p = ''firecrawl''" "keys pool = [''fc-1'', ''fc-2'']"
    using two_keys_server by metis
  have "pool_wf (wpool (afterSpent sv ''firecrawl'')) \<and> pool_config (wpool (afterSpent sv ''firecrawl'')) = pool_config pool"
    using system_pools_stay_configured [OF afterSpent_reachable [OF sv(1)] sv(2)] sv(3) by simp
  then show ?thesis using sv by (auto simp: pool_config_def)
qed

theorem system_keys_stay_home_witness:
  "\<exists>sv. buildServer (keysOnly ''fc-1,fc-2'') = Inr sv \<and>
    (\<forall>q\<in>set (wcalls (afterSpent sv ''firecrawl'')). qHost q = ''api.firecrawl.dev'' \<or> qHost q = removeEmptyPort ''api.firecrawl.dev'')"
proof -
  obtain sv p pool where sv: "buildServer (keysOnly ''fc-1,fc-2'') = Inr sv"
    "(p, pool) \<in> set (buildProfiles (svCfg sv))" "Name p = ''firecrawl''" "UpstreamHost p = ''api.firecrawl.dev''"
    "Upstream p = ''https://api.firecrawl.dev''" "upstreamBase ''https'' ''api.firecrawl.dev'' (Upstream p)"
    using two_keys_server by metis
  have h: "upstreamBase sch h (Upstream p) \<Longrightarrow> h = ''api.firecrawl.dev''" for sch h
    using sv(5) by (auto simp: upstreamBase_def)
  show ?thesis
    using system_keys_stay_home [OF afterSpent_reachable [OF sv(1)] sv(2,6)] sv(1,3,4) h by (fastforce simp: sentFor_def usageFor_def)
qed

theorem system_answers_witness:
  "\<exists>sv fuel r. buildServer (keysOnly ''fc-1,fc-2'') = Inr sv \<and>
    fst (handle fuel spentEnv (\<lambda>_ _. 0) sv ''/v2/scrape'' (demoRequest ''/v2/scrape'') (afterSpent sv)) = r \<and>
    r \<noteq> Handled None \<and> r \<noteq> Handled (Some Silent)"
proof -
  obtain sv where sv: "buildServer (keysOnly ''fc-1,fc-2'') = Inr sv" using two_keys_server by metis
  have "statusesOk spentEnv" by (simp add: statusesOk_def quietEnv_def replyWith_def)
  from system_answers [OF afterSpent_reachable [OF sv] this, of "''/v2/scrape''" "demoRequest ''/v2/scrape''"] quietEnv_clock
  obtain fuel0 r where r: "\<forall>fuel\<ge>fuel0. fst (handle fuel spentEnv (\<lambda>_ _. 0) sv ''/v2/scrape'' (demoRequest ''/v2/scrape'') (afterSpent sv)) = r"
    "r \<noteq> Handled None" "r = Handled (Some Silent) \<longrightarrow> (\<exists>k. canceled_at spentEnv k)" by blast
  moreover have "\<not> canceled_at spentEnv k" for k by (simp add: quietEnv_def)
  ultimately show ?thesis using sv by blast
qed

end
