(* ===== verification/Proxy_Clients.thy ===== *)
theory Proxy_Clients
  imports Proxy_Properties
begin

text \<open>
  Requests that overlap on one profile. A request's run is, in the history of the pool, a disciplined
  client: it takes a slot only while it holds none and gives back the one it took. Any number of
  disciplined clients, in any interleaving, share the slots of every key.
\<close>

section \<open>Clients of a slot counter\<close>

text \<open>A history: who takes or gives back a slot of which key, and everything else.\<close>

datatype 'x event = Take nat int | Give nat int | Plain 'x

fun hstep :: "(int \<Rightarrow> 's \<Rightarrow> bool \<times> 's) \<Rightarrow> (int \<Rightarrow> 's \<Rightarrow> 's) \<Rightarrow> ('x \<Rightarrow> 's \<Rightarrow> 's) \<Rightarrow> 'x event \<Rightarrow> 's \<Rightarrow> 's" where
  "hstep acq rel pl (Take c i) s = snd (acq i s)"
| "hstep acq rel pl (Give c i) s = rel i s"
| "hstep acq rel pl (Plain x) s = pl x s"

text \<open>
  The discipline of one client along a history: what it holds afterwards, None when it takes a slot
  while it holds one or gives back a slot it does not hold.
\<close>

fun ownHolding :: "(int \<Rightarrow> 's \<Rightarrow> bool \<times> 's) \<Rightarrow> (int \<Rightarrow> 's \<Rightarrow> 's) \<Rightarrow> ('x \<Rightarrow> 's \<Rightarrow> 's) \<Rightarrow> nat \<Rightarrow> 'x event list \<Rightarrow> 's
    \<Rightarrow> int option \<Rightarrow> int option option" where
  "ownHolding acq rel pl c [] s h = Some h"
| "ownHolding acq rel pl c (e # es) s h =
     (let s' = hstep acq rel pl e s in
      case e of
        Take d i \<Rightarrow>
          if d \<noteq> c then ownHolding acq rel pl c es s' h
          else if h = None then ownHolding acq rel pl c es s' (if fst (acq i s) then Some i else None) else None
      | Give d i \<Rightarrow>
          if d \<noteq> c then ownHolding acq rel pl c es s' h
          else if h = Some i then ownHolding acq rel pl c es s' None else None
      | Plain x \<Rightarrow> ownHolding acq rel pl c es s' h)"

locale slot_clients = slot_counter +
  fixes plain :: "'x \<Rightarrow> 's \<Rightarrow> 's"
  assumes plain_keeps: "ok s \<Longrightarrow> ok (plain x s) \<and> held (plain x s) = held s \<and> limit (plain x s) = limit s"
begin

text \<open>The slots in use are those of the clients that hold one.\<close>

definition counted :: "'s \<Rightarrow> (nat \<Rightarrow> int option) \<Rightarrow> bool" where
  "counted s h \<longleftrightarrow> ok s \<and> 0 < limit s \<and> finite {c. h c \<noteq> None} \<and>
     (\<forall>i. held s i = int (card {c. h c = Some i})) \<and> (\<forall>i. held s i \<le> limit s)"

lemma countedI: "ok s \<Longrightarrow> 0 < limit s \<Longrightarrow> finite {c. h c \<noteq> None} \<Longrightarrow>
    (\<And>i. held s i = int (card {c. h c = Some i}) \<and> held s i \<le> limit s) \<Longrightarrow> counted s h"
  unfolding counted_def by blast

lemma counted_le: "counted s h \<Longrightarrow> int (card {c. h c = Some i}) \<le> limit s"
  unfolding counted_def by metis

lemma finite_holders: "finite {c. h c \<noteq> None} \<Longrightarrow> finite {c. h c = Some i}"
  by (rule finite_subset [of _ "{c. h c \<noteq> None}"]) auto

lemma counted_take:
  assumes "counted s h" and "h c = None"
  shows "counted (snd (acquire i s)) (if fst (acquire i s) then h(c := Some i) else h)"
proof (cases "acquire i s")
  case (Pair b s')
  show ?thesis
  proof (cases b)
    case False
    then show ?thesis using Pair assms(1) acquire_refused [of i s s'] by simp
  next
    case True
    have s: "ok s" "0 < limit s" and fin: "finite {c. h c \<noteq> None}" using assms(1) by (auto simp: counted_def)
    have acq: "acquire i s = (True, s')" using Pair True by simp
    note h = acquire_held [OF s acq] and k = acquire_ok [OF s(1) acq]
    have "{d. (h(c := Some i)) d = Some i} = insert c {d. h d = Some i}" by auto
    moreover have "{d. (h(c := Some i)) d = Some j} = {d. h d = Some j}" if "j \<noteq> i" for j using that assms(2) by auto
    moreover have "c \<notin> {d. h d = Some i}" using assms(2) by simp
    moreover have "{d. (h(c := Some i)) d \<noteq> None} = insert c {d. h d \<noteq> None}" by auto
    ultimately show ?thesis
      using h k assms(1) finite_holders [OF fin] fin acq by (auto simp: counted_def)
  qed
qed

lemma counted_give:
  assumes "counted s h" and "h c = Some i"
  shows "counted (release i s) (h(c := None))"
proof -
  have s: "ok s" "0 < limit s" and fin: "finite {c. h c \<noteq> None}" using assms(1) by (auto simp: counted_def)
  have f: "finite {d. h d = Some i}" by (rule finite_holders [OF fin])
  have e: "{d. (h(c := None)) d = Some i} = {d. h d = Some i} - {c}" by auto
  have o: "{d. (h(c := None)) d = Some j} = {d. h d = Some j}" if "j \<noteq> i" for j using that assms(2) by auto
  have n: "int (card ({d. h d = Some i} - {c})) = int (card {d. h d = Some i}) - 1"
    using f assms(2) card_Suc_Diff1 [OF f, of c] by simp
  then have "0 < held s i" using assms(1) by (simp add: counted_def)
  note h = release_held [OF s this] and k = release_ok [OF s(1), of i]
  have "finite {d. (h(c := None)) d \<noteq> None}" by (rule finite_subset [OF _ fin]) auto
  moreover have "held (release i s) j = int (card {d. (h(c := None)) d = Some j}) \<and> held (release i s) j \<le> limit s" for j
  proof (cases "j = i")
    case True
    have "held (release i s) i = int (card {d. (h(c := None)) d = Some i})"
      using h n assms(1) unfolding e by (simp add: counted_def)
    moreover have "int (card {d. (h(c := None)) d = Some i}) \<le> limit s"
      using n counted_le [OF assms(1), of i] unfolding e by linarith
    ultimately show ?thesis using True by simp
  next
    case False
    then show ?thesis using h o [OF False] assms(1) counted_le [OF assms(1), of j] by (simp add: counted_def)
  qed
  moreover have "limit (release i s) = limit s" "ok (release i s)" using k by blast+
  ultimately show ?thesis using s(2) by (intro countedI) metis+
qed

lemma counted_plain: "counted s h \<Longrightarrow> counted (plain x s) h"
proof -
  assume c: "counted s h"
  show ?thesis using plain_keeps [of s x] c counted_le [OF c] by (simp add: counted_def)
qed

text \<open>Along every history that every client keeps to, the slots in use are the clients that hold one.\<close>

lemma hstep_ok: "ok s \<Longrightarrow> ok (hstep acquire release plain e s) \<and> limit (hstep acquire release plain e s) = limit s"
  using acquire_ok [of s] release_ok [of s] plain_keeps [of s] by (cases e) (auto simp: prod_eq_iff)

lemma run_ok: "ok s \<Longrightarrow> ok (fold (hstep acquire release plain) es s) \<and> limit (fold (hstep acquire release plain) es s) = limit s"
  by (induction es arbitrary: s) (auto simp: hstep_ok)

text \<open>Along every history that all clients keep to, the slots in use stay those of the clients that hold one.\<close>

lemma counted_run:
  assumes "counted s h" and "\<And>c. ownHolding acquire release plain c es s (h c) = Some (h' c)"
  shows "counted (fold (hstep acquire release plain) es s) h'"
  using assms
proof (induction es arbitrary: s h)
  case Nil
  then have "h = h'" by (simp add: fun_eq_iff)
  then show ?case using Nil by simp
next
  case (Cons e es)
  have "\<exists>h1. counted (hstep acquire release plain e s) h1 \<and>
      (\<forall>c. ownHolding acquire release plain c es (hstep acquire release plain e s) (h1 c) = Some (h' c))"
  proof (cases e)
    case (Take c i)
    have c: "h c = None" using Cons.prems(2) [of c] Take by (simp add: Let_def split: if_splits)
    have "ownHolding acquire release plain d es (snd (acquire i s)) ((if fst (acquire i s) then h(c := Some i) else h) d) = Some (h' d)" for d
      using Cons.prems(2) [of d] Take c by (auto simp: Let_def split: if_splits)
    then show ?thesis using counted_take [OF Cons.prems(1) c, of i] Take by auto
  next
    case (Give c i)
    have c: "h c = Some i" using Cons.prems(2) [of c] Give by (simp add: Let_def split: if_splits)
    have "ownHolding acquire release plain d es (release i s) ((h(c := None)) d) = Some (h' d)" for d
      using Cons.prems(2) [of d] Give c by (auto simp: Let_def split: if_splits)
    then show ?thesis using counted_give [OF Cons.prems(1) c] Give by auto
  next
    case (Plain x)
    then show ?thesis using Cons.prems counted_plain [OF Cons.prems(1)] by (auto simp: Let_def)
  qed
  then show ?case using Cons.IH by auto
qed

end

section \<open>The pool's clients\<close>

text \<open>
  Everything but taking and giving back: the other operations of the pool, the token a queued request
  receives, and the handler's own charges and balances.
\<close>

datatype quiet = Op pool_op | Receive | Charge int int | Credit int int

fun doQuiet :: "quiet \<Rightarrow> key_pool \<Rightarrow> key_pool" where
  "doQuiet (Op x) p = (if slotOp x then p else exec_op p x)"
| "doQuiet Receive p = p\<lparr>slotFree := False\<rparr>"
| "doQuiet (Charge i c) p = Decrement i c p"
| "doQuiet (Credit i c) p = SetCredits i (min MaxInt64 c) p"

abbreviation poolStep :: "quiet event \<Rightarrow> key_pool \<Rightarrow> key_pool" where
  "poolStep \<equiv> hstep TryAcquire Release doQuiet"

abbreviation holding :: "nat \<Rightarrow> quiet event list \<Rightarrow> key_pool \<Rightarrow> int option \<Rightarrow> int option option" where
  "holding \<equiv> ownHolding TryAcquire Release doQuiet"

lemma doQuiet_keeps:
  "pool_wf p \<Longrightarrow> pool_wf (doQuiet x p) \<and> heldSlots (doQuiet x p) = heldSlots p \<and> maxConcurrent (doQuiet x p) = maxConcurrent p"
  by (cases x) (auto simp: exec_op_wf noSlotOp_inFlight heldSlots_def fun_eq_iff balance_laws)

interpretation clients: slot_clients TryAcquire Release heldSlots maxConcurrent pool_wf doQuiet
  by unfold_locales (rule doQuiet_keeps)

text \<open>
  C10: However many requests share a pool and however their steps interleave with each other and with
  everything else, as long as each takes a slot only while it holds none and gives back the one it
  took: every key carries exactly the requests that hold one of its slots, never more than the cap,
  and none once they are all done.
\<close>

theorem clients_share_slots:
  assumes "pool_wf p" and "0 < maxConcurrent p" and "\<forall>i. heldSlots p i = 0"
    and "\<forall>c. holding c es p None = Some (h c)"
  shows "heldSlots (fold poolStep es p) i = int (card {c. h c = Some i}) \<and>
    heldSlots (fold poolStep es p) i \<le> maxConcurrent p \<and>
    ((\<forall>c. h c = None) \<longrightarrow> heldSlots (fold poolStep es p) i = 0)"
proof -
  have "clients.counted p (\<lambda>_. None)" using assms(1-3) by (simp add: clients.counted_def)
  from clients.counted_run [OF this] assms(4) have c: "clients.counted (fold poolStep es p) h" by simp
  then show ?thesis using clients.run_ok [OF assms(1), of es] unfolding clients.counted_def by auto
qed

section \<open>A request is a disciplined client\<close>

text \<open>
  How the pool went from one world to the next during a request: as client \<open>0\<close>, with the slot
  operations of the others as client \<open>1\<close>, which are among those the environment may do.
\<close>

definition othersIn :: "(pool_op \<Rightarrow> bool) \<Rightarrow> quiet event list \<Rightarrow> bool" where
  "othersIn A es \<longleftrightarrow> (\<forall>i. (Take 1 i \<in> set es \<longrightarrow> A (OpTryAcquire i)) \<and> (Give 1 i \<in> set es \<longrightarrow> A (OpRelease i)))"

definition calmRun :: "(pool_op \<Rightarrow> bool) \<Rightarrow> world \<Rightarrow> world \<Rightarrow> bool" where
  "calmRun A w w' \<longleftrightarrow> (\<exists>es. wpool w' = fold poolStep es (wpool w) \<and> othersIn A es \<and>
     (\<forall>i. Take 0 i \<notin> set es \<and> Give 0 i \<notin> set es))"

definition clientRun :: "(pool_op \<Rightarrow> bool) \<Rightarrow> world \<Rightarrow> world \<Rightarrow> bool" where
  "clientRun A w w' \<longleftrightarrow> (\<exists>es. wpool w' = fold poolStep es (wpool w) \<and> othersIn A es \<and>
     holding 0 es (wpool w) None = Some None)"

definition asEvent :: "pool_op \<Rightarrow> quiet event" where
  "asEvent x = (case x of OpTryAcquire i \<Rightarrow> Take 1 i | OpRelease i \<Rightarrow> Give 1 i | _ \<Rightarrow> Plain (Op x))"

lemma asEvent_step: "poolStep (asEvent x) p = exec_op p x"
  by (cases x) (simp_all add: asEvent_def)

lemma asEvent_calm: "A x \<Longrightarrow> othersIn A [asEvent x] \<and> (\<forall>i. Take 0 i \<noteq> asEvent x \<and> Give 0 i \<noteq> asEvent x)"
  by (cases x) (simp_all add: asEvent_def othersIn_def)

lemma othersIn_append [simp]: "othersIn A (xs @ ys) \<longleftrightarrow> othersIn A xs \<and> othersIn A ys"
  by (auto simp: othersIn_def)

lemma holding_append:
  "holding c (xs @ ys) p h = Option.bind (holding c xs p h) (holding c ys (fold poolStep xs p))"
  by (induction xs arbitrary: p h) (auto simp: Let_def split: event.split)

lemma holding_calm: "(\<forall>i. Take c i \<notin> set es \<and> Give c i \<notin> set es) \<Longrightarrow> holding c es p h = Some h"
proof (induction es arbitrary: p)
  case (Cons e es)
  then show ?case by (cases e) (auto simp: Let_def)
qed simp

lemma calmRun_op: "A x \<Longrightarrow> wpool w' = exec_op (wpool w) x \<Longrightarrow> calmRun A w w'"
  unfolding calmRun_def using asEvent_calm [of A x] by (intro exI [of _ "[asEvent x]"]) (auto simp: asEvent_step)

lemma calmRun_quiet: "wpool w' = doQuiet x (wpool w) \<Longrightarrow> calmRun A w w'"
  unfolding calmRun_def by (intro exI [of _ "[Plain x]"]) (simp add: othersIn_def)

lemma calmRun_same: "wpool w' = wpool w \<Longrightarrow> calmRun A w w'"
  unfolding calmRun_def by (intro exI [of _ "[]"]) (simp add: othersIn_def)

lemma calmRun_trans: "calmRun A a b \<Longrightarrow> calmRun A b c \<Longrightarrow> calmRun A a c"
  unfolding calmRun_def by (metis (no_types, lifting) fold_append comp_apply othersIn_append set_append Un_iff)

lemma clientRun_calm: "calmRun A w w' \<Longrightarrow> clientRun A w w'"
  unfolding calmRun_def clientRun_def using holding_calm by blast

lemma clientRun_trans: "clientRun A a b \<Longrightarrow> clientRun A b c \<Longrightarrow> clientRun A a c"
proof -
  assume "clientRun A a b" "clientRun A b c"
  then obtain xs ys where "wpool b = fold poolStep xs (wpool a)" "othersIn A xs" "holding 0 xs (wpool a) None = Some None"
    "wpool c = fold poolStep ys (wpool b)" "othersIn A ys" "holding 0 ys (wpool b) None = Some None"
    by (auto simp: clientRun_def)
  then show ?thesis unfolding clientRun_def by (intro exI [of _ "xs @ ys"]) (simp add: holding_append)
qed

abbreviation mayDo :: "(pool_op \<Rightarrow> bool) \<Rightarrow> pool_op \<Rightarrow> bool" where
  "mayDo B x \<equiv> slotOp x \<longrightarrow> B x"

interpretation calm: saying_relation "calmRun (mayDo B)" "mayDo B" for B
proof unfold_locales
  show "calmRun (mayDo B) a b \<Longrightarrow> calmRun (mayDo B) b c \<Longrightarrow> calmRun (mayDo B) a c" for a b c
    by (rule calmRun_trans)
  show "calmRun (mayDo B) w (onlyPool (exec_op (wpool w) x) w)" if "mayDo B x" for x w
    using that by (intro calmRun_op [where x = x]) simp_all
  show "calmRun (mayDo B) w (onlyPool (Decrement i c (wpool w)) w)" for w i c
    by (rule calmRun_quiet [where x = "Charge i c"]) simp
  show "calmRun (mayDo B) w (onlyPool (SetCredits i c (wpool w)) w)" if "c \<le> MaxInt64" for w i c
    using that by (intro calmRun_quiet [where x = "Credit i c"]) (simp add: min_absorb2)
  show "calmRun (mayDo B) w (onlyPool ((wpool w)\<lparr>slotFree := False\<rparr>) w)" for w
    by (rule calmRun_quiet [where x = Receive]) simp
qed (auto intro: calmRun_same)

interpretation client: saying_relation "clientRun (mayDo B)" "mayDo B" for B
proof unfold_locales
  show "clientRun (mayDo B) a b \<Longrightarrow> clientRun (mayDo B) b c \<Longrightarrow> clientRun (mayDo B) a c" for a b c
    by (rule clientRun_trans)
qed (auto intro: clientRun_calm calm.R_refl calm.op_law calm.charge_law calm.credit_law calm.token_law calm.refresh_law
    calm.clock_law calm.call_law calm.job_law calm.log_all)

text \<open>Take, anything that leaves the client's slots alone, give back.\<close>

lemma clientRun_bracket:
  assumes "calmRun A w a" and "TryAcquire i (wpool a) = (True, wpool b)" and "calmRun A b c"
    and "wpool d = Release i (wpool c)"
  shows "clientRun A w d"
proof -
  obtain xs where xs: "wpool a = fold poolStep xs (wpool w)" "othersIn A xs" "holding 0 xs (wpool w) None = Some None"
    using assms(1) holding_calm by (fastforce simp: calmRun_def)
  obtain ys where ys: "wpool c = fold poolStep ys (wpool b)" "othersIn A ys" "\<And>h. holding 0 ys (wpool b) h = Some h"
    using assms(3) holding_calm by (fastforce simp: calmRun_def)
  let ?es = "xs @ Take 0 i # ys @ [Give 0 i]"
  have "wpool d = fold poolStep ?es (wpool w)"
    using xs(1) ys(1) assms(2,4) by (simp flip: xs(1) ys(1))
  moreover have "othersIn A ?es" using xs(2) ys(2) by (simp add: othersIn_def)
  moreover have "holding 0 ?es (wpool w) None = Some None"
    using xs ys(3) assms(2) by (simp add: holding_append Let_def flip: xs(1))
  ultimately show ?thesis unfolding clientRun_def by blast
qed

lemma clientRun_refused:
  assumes "calmRun A w a" and "TryAcquire i (wpool a) = (False, wpool b)"
  shows "clientRun A w b"
proof -
  obtain xs where xs: "wpool a = fold poolStep xs (wpool w)" "othersIn A xs" "holding 0 xs (wpool w) None = Some None"
    using assms(1) holding_calm by (fastforce simp: calmRun_def)
  let ?es = "xs @ [Take 0 i]"
  have "wpool b = fold poolStep ?es (wpool w)" using assms(2) by (simp flip: xs(1))
  moreover have "othersIn A ?es" using xs(2) by (simp add: othersIn_def)
  moreover have "holding 0 ?es (wpool w) None = Some None"
    using xs(3) assms(2) by (simp add: holding_append Let_def flip: xs(1))
  ultimately show ?thesis unfolding clientRun_def by blast
qed

lemma serveOnce_client:
  assumes e: "env_ok (mayDo B) env"
  shows "state_io_rel (clientRun (mayDo B)) (serveOnce env cfg p rq path)"
proof (rule state_io_relI)
  fix res w w' assume run: "run_state (serveOnce env cfg p rq path) w = (res, w')"
  have current: "calmRun (mayDo B) w w1" if "run_state (onPool env Current) w = (x, w1)" for x w1
    using calm.keeps_current [OF e] that by blast
  have settled: "calmRun (mayDo B) v (settle env v)" for v by (rule calm.settle_law [OF e])
  have took: "TryAcquire i (wpool (settle env v)) = (b, wpool v')"
    if "run_state (onPool env (\<lambda>_. TryAcquire i)) v = (b, v')" for i v b v'
    using that by (auto simp: onPool_def Let_def split: prod.splits)
  show "clientRun (mayDo B) w w'"
    using run
  proof (cases rule: serveOnce_cases)
    case (exhausted idx key w1)
    then show ?thesis using current clientRun_calm by blast
  next
    case (saturated idx key w1)
    show ?thesis
      by (rule clientRun_refused [OF calm.R_trans [OF current [OF saturated(1)] settled] took [OF saturated(3)]])
  next
    case (served idx key w1 w2 w3 t w4 w5)
    have "calmRun (mayDo B) w2 w3" using calm.keeps_ensureMeasured [OF e] served(4) by blast
    moreover have "state_io_rel (calmRun (mayDo B)) (tryKey env cfg p idx key rq path)"
      by (rule calm.keeps_tryKey [OF e]) (simp add: calm.sends_def calmRun_same)
    then have "calmRun (mayDo B) w3 w4" by (rule state_io_relD [OF _ served(5)])
    moreover have "calmRun (mayDo B) w4 w5" by (rule state_io_relD [OF calm.keeps_concurrencyLog served(6)])
    ultimately have "calmRun (mayDo B) w2 (settle env w5)" using settled by (blast intro: calmRun_trans)
    moreover have "wpool w' = Release idx (wpool (settle env w5))"
      using served(7) by (auto simp: updPool_def onPool_def Let_def)
    ultimately show ?thesis
      using clientRun_bracket calm.R_trans [OF current [OF served(1)] settled] took [OF served(3)] by blast
  qed
qed

text \<open>
  C9: A request is a disciplined client of its profile's pool, whatever the upstream answers and the
  other goroutines do: its run is a history of the pool in which it takes a slot only while it holds
  none, gives back exactly the slot it took and holds none at the end; every other slot operation of
  that history is one of the environment's.
\<close>

theorem ServeHTTP_is_client:
  assumes "ServeHTTP fuel env cfg ps rq ws = (a, ws')" and "env_ok (mayDo B) env"
  shows "\<exists>es. wpool (ws' n) = fold poolStep es (wpool (ws n)) \<and> holding 0 es (wpool (ws n)) None = Some None \<and>
    (\<forall>i. (Take 1 i \<in> set es \<longrightarrow> B (OpTryAcquire i)) \<and> (Give 1 i \<in> set es \<longrightarrow> B (OpRelease i)))"
proof -
  have "clientRun (mayDo B) (ws n) (ws' n)"
    by (rule ServeHTTP_relation [OF assms(1)])
      (auto simp: client.R_refl intro!: client.keeps_serveUnmatched client.keeps_serveProfile assms(2) serveOnce_client)
  then show ?thesis by (auto simp: clientRun_def othersIn_def)
qed

section \<open>Closed instances\<close>

text \<open>Two requests share the one key of a pool that carries two: their steps alternate, then one more is refused.\<close>

definition twoClients :: "quiet event list" where
  "twoClients = [Take 0 0, Plain (Op (OpRecordSuccess 0)), Take 1 0, Plain Receive, Take 2 0, Give 0 0, Plain (Charge 0 1), Take 2 0]"

definition cappedPool :: key_pool where
  "cappedPool = SetMaxConcurrent 2 (SetThresholds 10 1 (NewKeyPool [''k'']))"

theorem clients_share_slots_witness:
  "heldSlots (fold poolStep twoClients cappedPool) 0 = 2 \<and> \<not> fst (TryAcquire 0 (fold poolStep twoClients cappedPool))"
proof -
  let ?h = "\<lambda>c::nat. if c = 1 \<or> c = 2 then Some (0::int) else None"
  have wf: "pool_wf cappedPool" unfolding cappedPool_def by (rule NewKeyPool_SetMax_wf) simp
  have c: "maxConcurrent cappedPool = 2" "heldSlots cappedPool i = 0" for i
    by (simp_all add: cappedPool_def SetMaxConcurrent_def SetThresholds_def NewKeyPool_def heldSlots_def ix_ok_def)
  have h: "holding c twoClients cappedPool None = Some (?h c)" for c
    by (simp add: twoClients_def cappedPool_def SetMaxConcurrent_def SetThresholds_def NewKeyPool_def TryAcquire_def Release_def
        RecordSuccess_def Decrement_def Let_def ix_ok_def)
  have "heldSlots (fold poolStep twoClients cappedPool) 0 = int (card {c. ?h c = Some 0})"
    using clients_share_slots [OF wf, of twoClients ?h 0] c h by simp
  moreover have "{c. ?h c = Some 0} = {1, 2}" by auto
  moreover have "\<not> fst (TryAcquire 0 (fold poolStep twoClients cappedPool))" by code_simp
  ultimately show ?thesis by simp
qed

theorem ServeHTTP_is_client_witness:
  "\<exists>es. wpool (snd (ServeHTTP 9 (quietEnv (\<lambda>n q. replyWith 402 [])) demoConfig demoProfiles (demoRequest ''/exa/search'') demoWorlds) ''exa'')
      = fold poolStep es (wpool (demoWorlds ''exa'')) \<and> holding 0 es (wpool (demoWorlds ''exa'')) None = Some None \<and>
    (\<forall>i. Take 1 i \<notin> set es \<and> Give 1 i \<notin> set es)"
proof -
  obtain a ws' where r: "ServeHTTP 9 (quietEnv (\<lambda>n q. replyWith 402 [])) demoConfig demoProfiles (demoRequest ''/exa/search'') demoWorlds = (a, ws')"
    by (metis surj_pair)
  show ?thesis using ServeHTTP_is_client [OF r quietEnv_ok [of "mayDo (\<lambda>_. False)"], of "''exa''"] r by simp
qed

end
