(* ===== verification/Proxy_Log.thy ===== *)
theory Proxy_Log
  imports Proxy_Success "HOL-Library.Sublist"
begin

text \<open>
  What the handler writes to the log: one line of the access log per request, last and with the
  request's fate; no key in any text the program itself chooses; and the key in the text of a network
  error when the provider takes it in the query.
\<close>

section \<open>What a request writes before its access line\<close>

definition notedIn :: "env \<Rightarrow> Profile \<Rightarrow> world \<Rightarrow> world \<Rightarrow> bool" where
  "notedIn env p w w' \<longleftrightarrow> wlogger w' = wlogger w \<and> (\<exists>es. wlog w' = wlog w @ es \<and> list_all (noteEntry env p) es)"

lemma notedIn_same: "wlogger w' = wlogger w \<Longrightarrow> wlog w' = wlog w \<Longrightarrow> notedIn env p w w'"
  by (simp add: notedIn_def)

interpretation noted: logging_relation "notedIn env p" "\<lambda>_. True" "noteEntry env p" for env p
proof unfold_locales
  show "notedIn env p a b \<Longrightarrow> notedIn env p b c \<Longrightarrow> notedIn env p a c" for a b c
    by (fastforce simp: notedIn_def)
qed (auto intro: notedIn_same simp: notedIn_def)

interpretation noted_calls: calling_relation "notedIn env p" "\<lambda>_. True" for env p
  by unfold_locales (simp add: notedIn_same)

lemma notedIn_sends: "noted.sends env p q"
  by (simp add: noted.sends_def notedIn_same)

lemma serveOnce_noted: "state_io_rel (notedIn env p) (serveOnce env cfg p rq path)"
proof -
  have "state_io_rel (notedIn env p) (onPool env (\<lambda>_. TryAcquire i))" for i
    by (rule noted.keeps_onPool [OF any_env_ok]) (simp add: notedIn_same)
  moreover have "state_io_rel (notedIn env p) (updPool env (Release i))" for i
    by (rule noted.keeps_updPool [OF any_env_ok]) (simp add: notedIn_same)
  ultimately show ?thesis
    unfolding serveOnce_def
    by (auto intro!: noted.keeps_bind noted.keeps_return noted.keeps_current noted_calls.keeps_ensureMeasured any_env_ok
        noted.logged_tryKey noted.logged_concurrencyLog notedIn_sends split: prod.split)
qed

text \<open>The cause of a failed key.\<close>

lemma tryLoop_cause:
  "noteValue env p (LText err) \<Longrightarrow> run_state (tryLoop env cfg p idx key rq path left err) w = (t, w') \<Longrightarrow>
    noteValue env p (LText (tLastErr t))"
proof (induction left arbitrary: err w)
  case 0
  then show ?case by (auto simp: netFailed_def)
next
  case (Suc left)
  show ?case
  proof (cases "buildUpstream p key rq path")
    case None
    then show ?thesis using Suc.prems by (auto simp: Let_def netFailed_def)
  next
    case (Some q)
    obtain out w1 where d: "run_state (clientDo env q) w = (out, w1)" by (metis surj_pair)
    have net: "noteValue env p (LText (''net: '' @ e))" if "out = Failed e" for e
      using d that noteValue_net by (auto simp: clientDo_def)
    let ?k = "length backoffSchedule - left"
    have j: "case judge cfg p ?k out of Finished t \<Rightarrow> noteValue env p (LText (tLastErr t))
        | Again e t \<Rightarrow> noteValue env p (LText e) \<and> noteValue env p (LText (tLastErr t))"
      using net by (cases out) (auto simp: judge_def netFailed_def Let_def split: prod.split)
    show ?thesis
      using Suc.prems Suc.IH Some d j by (auto simp: Let_def split: verdict.splits prod.splits if_splits)
  qed
qed

lemma serveOnce_cause:
  assumes "run_state (serveOnce env cfg p rq path) w = (res, w')"
  shows "noteEntry env p (causeEntry p res)"
proof -
  have "noteValue env p (LText (rrLastErr res))"
    using assms
  proof (cases rule: serveOnce_cases)
    case (served idx key w1 w2 w3 t w4 w5)
    have "noteValue env p (LText (tLastErr t))"
      by (rule tryLoop_cause [OF _ served(5) [unfolded tryKey_def]]) simp
    then show ?thesis using served(8) by (simp add: classify_def Let_def)
  qed (simp_all add: noResult_def)
  then show ?thesis by (auto simp: noteEntry_def causeEntry_def)
qed

lemma rotateLoop_noted: "state_io_rel (notedIn env p) (rotateLoop fuel env cfg p rq path sat d maxRot s)"
  by (rule noted.logged_rotateLoop [OF any_env_ok _ serveOnce_noted serveOnce_cause]) (simp_all add: noted_calls.keeps_disableKey [OF any_env_ok])

lemma finish_noted: "state_io_rel (notedIn env p) (finish env cfg p rq s)"
  by (rule noted.logged_finish [OF any_env_ok]) simp

section \<open>The access line\<close>

definition accessEntry :: "string \<Rightarrow> bool \<Rightarrow> inreq \<Rightarrow> access \<Rightarrow> int \<Rightarrow> entry" where
  "accessEntry profile matched rq acc ms = \<lparr>eLevel = ''info'', eMsg = ''req'', eArgs =
     arg ''profile'' (LText profile) @ arg ''matched'' (LBool matched) @ arg ''method'' (LText (iMethod rq)) @
     arg ''path'' (LText (iPath rq)) @ arg ''key'' (LInt (aKey acc)) @ arg ''status'' (LInt (aStatus acc)) @
     arg ''dur_ms'' (LInt ms) @ arg ''cost'' (LInt (aCost acc))\<rparr>"

lemma accessLog_entry:
  assumes "run_state (accessLog env rq start n b acc) w = ((), w')"
  shows "\<exists>ms. wlog w' = wlog w @ [accessEntry n b rq acc ms]"
  using assms by (auto simp: accessLog_def clock_def say_def info_def accessEntry_def settle_same)

text \<open>What the loop leaves for the access line: the served reply, or nothing.\<close>

definition accessKnown :: "progress \<Rightarrow> bool" where
  "accessKnown s \<longleftrightarrow> (if pClean s then aStatus (pAccess s) = pStatus s \<and> 0 \<le> aKey (pAccess s)
     else \<not> pOverCap s \<and> pAccess s = noAccess)"

lemma serveOnce_index:
  assumes "run_state (serveOnce env cfg p rq path) w = (res, w')" and "rrKind res \<noteq> resExhausted"
  shows "0 \<le> rrIdx res"
  using assms(1)
proof (cases rule: serveOnce_cases)
  case exhausted
  then show ?thesis using assms(2) by (simp add: noResult_def)
next
  case saturated
  then show ?thesis by (simp add: noResult_def)
next
  case (served idx key w1 w2 w3 t w4 w5)
  then show ?thesis by (simp add: classify_def Let_def)
qed

lemma dispatch_access:
  assumes "run_state (dispatch env p res s) w = (Some (Broke s'), w')" and "rrKind res \<noteq> resSaturated"
    and "rrKind res \<noteq> resExhausted \<Longrightarrow> 0 \<le> rrIdx res" and "pStatus s = rrStatus res"
    and "\<not> pClean s" "\<not> pOverCap s" "pAccess s = noAccess"
  shows "accessKnown s'"
  using assms by (cases "rrKind res") (auto simp: dispatch_def accessKnown_def noAccess_def split: prod.splits if_splits)

lemma rotateLoop_access:
  "run_state (rotateLoop fuel env cfg p rq path sat d maxRot s) w = (Some (Broke s'), w') \<Longrightarrow>
    \<not> pClean s \<Longrightarrow> \<not> pOverCap s \<Longrightarrow> pAccess s = noAccess \<Longrightarrow> accessKnown s'"
proof (induction fuel arbitrary: s w)
  case 0
  then show ?case by (subst (asm) rotateLoop.simps) (auto simp: accessKnown_def split: if_splits)
next
  case (Suc fuel)
  obtain res w1 where o: "run_state (serveOnce env cfg p rq path) w = (res, w1)" by (metis surj_pair)
  show ?case
  proof (cases "maxRot \<le> pTries s")
    case True
    then show ?thesis using Suc.prems by (subst (asm) rotateLoop.simps) (auto simp: accessKnown_def)
  next
    case go: False
    show ?thesis
    proof (cases "rrKind res = resSaturated")
      case True
      obtain x w2 where x: "run_state (whenSaturated env p sat d) w1 = (x, w2)" by (metis surj_pair)
      show ?thesis
        using Suc.prems Suc.IH [of s w2] go True o x by (subst (asm) rotateLoop.simps) (auto split: option.splits)
    next
      case False
      define s1 where "s1 = s\<lparr>pTries := pTries s + 1, pStatus := rrStatus res, pHeader := rrHeader res, pBody := rrBody res\<rparr>"
      obtain x w2 where x: "run_state (dispatch env p res s1) w1 = (x, w2)" by (metis surj_pair)
      have s1: "pStatus s1 = rrStatus res" "\<not> pClean s1" "\<not> pOverCap s1" "pAccess s1 = noAccess"
        using Suc.prems by (simp_all add: s1_def)
      show ?thesis
      proof (cases x)
        case None
        then show ?thesis
          using Suc.prems(1) Suc.IH [of s1 w2] s1 go False o x by (subst (asm) rotateLoop.simps) (auto simp: Let_def s1_def [symmetric])
      next
        case (Some y)
        then have "y = Broke s'"
          using Suc.prems(1) go False o x by (subst (asm) rotateLoop.simps) (auto simp: Let_def s1_def [symmetric])
        then show ?thesis using dispatch_access [OF _ False _ s1] x Some serveOnce_index [OF o] by blast
      qed
    qed
  qed
qed

text \<open>What the line says against what the client gets.\<close>

definition toldTruly :: "answer \<Rightarrow> access \<Rightarrow> bool" where
  "toldTruly a acc \<longleftrightarrow> (aStatus acc \<noteq> 0 \<longrightarrow> a = Panic \<or> (\<exists>h b. a = Reply (aStatus acc) h b)) \<and>
     (a = Silent \<longrightarrow> aStatus acc = 0) \<and> (aStatus acc = 0 \<longrightarrow> aKey acc = -1 \<or> a = Panic)"

lemma noAccess_simps [simp]: "aKey noAccess = -1" "aStatus noAccess = 0" "aCost noAccess = 0"
  by (simp_all add: noAccess_def)

lemma finish_told:
  assumes "accessKnown s" and "run_state (finish env cfg p rq s) w = ((b, acc), w')"
  shows "toldTruly b acc"
  using assms
  by (auto simp: finish_def accessKnown_def toldTruly_def writeRawResponse_def allExhausted_def unreachable_def
      httpError_def split: if_splits prod.splits)

lemma earlyAccess_told: "toldTruly a (earlyAccess a)"
  by (cases a) (auto simp: toldTruly_def earlyAccess_def noAccess_def)

lemma serveProfile_log:
  assumes "run_state (serveProfile fuel env cfg p rq path) w = (Some a, w')"
  shows "\<exists>es acc ms. wlog w' = wlog w @ es @ [accessEntry (Name p) True rq acc ms] \<and> list_all (noteEntry env p) es \<and> toldTruly a acc"
proof -
  have clock: "wlog w0 = wlog w" if "run_state (clock env) w = (start, w0)" for start w0
    using that by (auto simp: clock_def settle_same)
  have loop: "notedIn env p w w3"
    if c: "run_state (clock env) w = (start, w0)" and n: "run_state (onPool env (\<lambda>_ pool. (length (keys pool), pool))) w0 = (n, w1)"
      and d: "run_state (queueDeadline env p (saturationOf p)) w1 = (d, w2)"
      and e: "run_state (rotateLoop fuel env cfg p rq path (saturationOf p) d (wrap64 (MaxPasses cfg * int n)) startProgress) w2 = (e, w3)"
    for start w0 n w1 d w2 e w3
    using noted.R_trans [OF state_io_relD [OF noted.keeps_clock [OF any_env_ok] c]
        noted.R_trans [OF state_io_relD [OF noted.keeps_read [OF any_env_ok] n]
          noted.R_trans [OF state_io_relD [OF noted.keeps_queueDeadline [OF any_env_ok] d] state_io_relD [OF rotateLoop_noted e]]]] .
  show ?thesis
    using assms
  proof (cases rule: serveProfile_cases)
    case (unread err start w0)
    have "toldTruly a noAccess" by (simp add: toldTruly_def noAccess_def)
    moreover have "a = httpError (''read request body: '' @ err) 400" using unread(4) by simp
    ultimately show ?thesis
      using accessLog_entry [OF unread(3)] clock [OF unread(2)]
      by (intro exI [of _ "[]"] exI [of _ noAccess]) (auto simp: toldTruly_def noAccess_def httpError_def)
  next
    case (early start w0 n w1 d w2 x w3)
    obtain es where "wlog w3 = wlog w @ es" "list_all (noteEntry env p) es" using loop [OF early(2-5)] by (auto simp: notedIn_def)
    moreover obtain ms where "wlog w' = wlog w3 @ [accessEntry (Name p) True rq (earlyAccess x) ms]" using accessLog_entry [OF early(6)] by blast
    ultimately show ?thesis
      using earlyAccess_told [of x] early(7) by (intro exI [of _ es] exI [of _ "earlyAccess x"] exI [of _ ms]) simp
  next
    case (ended start w0 n w1 d w2 s w3 b acc w4)
    have "notedIn env p w3 w4" by (rule state_io_relD [OF finish_noted ended(6)])
    then have "notedIn env p w w4" using loop [OF ended(2-5)] noted.R_trans by blast
    then obtain es where "wlog w4 = wlog w @ es" "list_all (noteEntry env p) es" by (auto simp: notedIn_def)
    moreover obtain ms where "wlog w' = wlog w4 @ [accessEntry (Name p) True rq acc ms]" using accessLog_entry [OF ended(7)] by blast
    moreover have "accessKnown s" by (rule rotateLoop_access [OF ended(5)]) (simp_all add: startProgress_def)
    ultimately show ?thesis
      using finish_told [OF _ ended(6)] ended(8) by (intro exI [of _ es] exI [of _ acc] exI [of _ ms]) simp
  qed simp
qed

text \<open>The name a request's log entries carry, and the profile that wrote them.\<close>

definition routeName :: "Config \<Rightarrow> Profile list \<Rightarrow> inreq \<Rightarrow> string" where
  "routeName cfg ps rq = (case matchProfile ps (iPath rq) (FirecrawlLegacyFallback cfg) of None \<Rightarrow> ''none'' | Some (p, _) \<Rightarrow> Name p)"

lemma ServeHTTP_log:
  assumes "ServeHTTP fuel env cfg ps rq ws = (Some a, ws')"
  shows "\<exists>es acc ms. wlog (ws' (routeName cfg ps rq)) = wlog (ws (routeName cfg ps rq)) @ es @
      [accessEntry (routeName cfg ps rq) (matchProfile ps (iPath rq) (FirecrawlLegacyFallback cfg) \<noteq> None) rq acc ms] \<and>
    (\<forall>e\<in>set es. \<exists>p path. matchProfile ps (iPath rq) (FirecrawlLegacyFallback cfg) = Some (p, path) \<and> noteEntry env p e) \<and>
    toldTruly a acc"
  using assms
proof (cases rule: ServeHTTP_cases)
  case (unmatched w')
  let ?w = "ws ''none''"
  obtain start w0 where c: "run_state (clock env) ?w = (start, w0)" by (metis surj_pair)
  obtain w1 where l: "run_state (accessLog env rq start ''none'' False (noAccess\<lparr>aStatus := 404\<rparr>)) w0 = ((), w1)"
    by (metis old.unit.exhaust surj_pair)
  have "a = httpError (quoted ''{~success~:false,~error~:~no profile configured for this path~}'') 404 \<and> w' = w1"
    using unmatched(2) c l by (simp add: serveUnmatched_def)
  then show ?thesis
    using accessLog_entry [OF l] c unmatched(1,3)
    by (intro exI [of _ "[]"] exI [of _ "noAccess\<lparr>aStatus := 404\<rparr>"])
      (auto simp: routeName_def clock_def settle_same toldTruly_def noAccess_def httpError_def)
next
  case (matched p path w')
  obtain es acc ms where "wlog w' = wlog (ws (Name p)) @ es @ [accessEntry (Name p) True rq acc ms]"
    "list_all (noteEntry env p) es" "toldTruly a acc"
    using serveProfile_log [OF matched(2)] by blast
  then show ?thesis
    using matched(1,3) by (intro exI [of _ es] exI [of _ acc] exI [of _ ms]) (auto simp: routeName_def list_all_iff)
qed

text \<open>
  Every request that is answered leaves exactly one line in the access log, the last of its entries,
  with the profile that served it (or none), its method and its path; a status the line names is the
  status the client got, and a line without a status names no key. Such a line need not be a client's
  abort: the last reply of rotations that all failed is handed on without being noted.
\<close>

theorem one_access_line:
  assumes "ServeHTTP fuel env cfg ps rq ws = (Some a, ws')"
  shows "\<exists>es acc ms. wlog (ws' (routeName cfg ps rq)) = wlog (ws (routeName cfg ps rq)) @ es @
      [accessEntry (routeName cfg ps rq) (matchProfile ps (iPath rq) (FirecrawlLegacyFallback cfg) \<noteq> None) rq acc ms] \<and>
    list_all (\<lambda>e. eMsg e \<noteq> ''req'') es \<and>
    (aStatus acc \<noteq> 0 \<longrightarrow> a = Panic \<or> (\<exists>h b. a = Reply (aStatus acc) h b)) \<and>
    (a = Silent \<longrightarrow> aStatus acc = 0) \<and> (aStatus acc = 0 \<longrightarrow> aKey acc = -1 \<or> a = Panic)"
  using ServeHTTP_log [OF assms] unfolding toldTruly_def list_all_iff noteEntry_def by blast

text \<open>
  The log gives no key away in any text the program chooses: whatever a request writes, every text
  in it is a fixed word, the profile's name, a status, at most four bytes long (as a key's mask is), the
  client's method or path, or the text of a network error; snapshots show masks. So with no network
  error nothing of a key beyond its last four bytes reaches the log.
\<close>

theorem log_texts_public:
  assumes "ServeHTTP fuel env cfg ps rq ws = (Some a, ws')"
    and "matchProfile ps (iPath rq) (FirecrawlLegacyFallback cfg) = Some (p, path)"
  shows "\<exists>es. wlog (ws' (Name p)) = wlog (ws (Name p)) @ es \<and> (\<forall>e\<in>set es. \<forall>v\<in>set (eArgs e). case v of
      LText s \<Rightarrow> publicText p s \<or> netText env s \<or> s = iMethod rq \<or> s = iPath rq
    | LKeys ks \<Rightarrow> list_all (\<lambda>k. length (sLast4 k) \<le> 4) ks
    | _ \<Rightarrow> True)"
proof -
  let ?ok = "\<lambda>v. case v of LText s \<Rightarrow> publicText p s \<or> netText env s \<or> s = iMethod rq \<or> s = iPath rq
    | LKeys ks \<Rightarrow> list_all (\<lambda>k. length (sLast4 k) \<le> 4) ks | _ \<Rightarrow> True"
  have r: "routeName cfg ps rq = Name p" using assms(2) by (simp add: routeName_def)
  obtain es acc ms where l: "wlog (ws' (Name p)) = wlog (ws (Name p)) @ es @
      [accessEntry (Name p) (matchProfile ps (iPath rq) (FirecrawlLegacyFallback cfg) \<noteq> None) rq acc ms]"
    "\<forall>e\<in>set es. noteEntry env p e"
    using ServeHTTP_log [OF assms(1)] unfolding r assms(2) by auto
  have "?ok v" if "noteValue env p v" for v
    using that by (auto simp: noteValue_def masksOnly_def split: logval.splits)
  then have "\<forall>v\<in>set (eArgs e). ?ok v" if "e \<in> set es" for e
    using l(2) that unfolding noteEntry_def list_all_iff by blast
  moreover have "\<forall>v\<in>set (eArgs (accessEntry (Name p) b rq acc ms)). ?ok v" for b
    by (simp add: accessEntry_def publicText_def logWords_def)
  ultimately show ?thesis
    using l(1) by (intro exI [of _ "es @ [accessEntry (Name p) (matchProfile ps (iPath rq) (FirecrawlLegacyFallback cfg) \<noteq> None) rq acc ms]"])
      auto
qed

section \<open>A key in the text of an error\<close>

text \<open>
  The error of \<open>http.Client.Do\<close> quotes the URL it was asked for (documented of \<open>url.Error\<close>, whose
  text is \<open>%s %q: %s\<close>): a query of plain characters stands in it as it is.
\<close>

definition quotesQueries :: "env \<Rightarrow> bool" where
  "quotesQueries env \<longleftrightarrow> (\<forall>n q err. list_all urlPlain (uRawQuery (qUrl q)) \<and> net_of env n q = Failed err \<longrightarrow>
     sublist (uRawQuery (qUrl q)) err)"

definition neverReached :: "env \<Rightarrow> bool" where
  "neverReached env \<longleftrightarrow> (\<forall>n q. \<exists>err. net_of env n q = Failed err)"

lemma valuesEncode_member:
  assumes "(k, ws) \<in> set vs" and "v \<in> set ws"
  shows "sublist (QueryEscape v) (valuesEncode vs)"
proof -
  have join: "sublist x (joinAmp xs)" if "x \<in> set xs" for x xs
  proof (cases xs)
    case (Cons y ys)
    show ?thesis
    proof (cases "x = y")
      case True
      then show ?thesis by (simp add: Cons joinAmp_def)
    next
      case False
      then have "x \<in> set ys" using that Cons by simp
      then obtain as bs where ys: "ys = as @ x # bs" by (auto dest: split_list)
      let ?amp = "\<lambda>zs. concat (map (\<lambda>s. CHR ''&'' # s) zs)"
      have "joinAmp xs = (y @ ?amp as @ ''&'') @ x @ ?amp bs" by (simp add: Cons ys joinAmp_def)
      then show ?thesis by (simp only: sublist_appendI)
    qed
  qed (use that in simp)
  let ?sorted = "foldr insertKey vs []"
  have "(k, ws) \<in> set ?sorted" using assms(1) insertKey_mset [of vs] by (metis set_mset_mset)
  then have "QueryEscape k @ ''='' @ QueryEscape v \<in>
      set (concat (map (\<lambda>(k, ws). map (\<lambda>w. QueryEscape k @ ''='' @ QueryEscape w) ws) ?sorted))"
    using assms(2) by force
  from join [OF this] have "sublist (QueryEscape k @ ''='' @ QueryEscape v) (valuesEncode vs)"
    by (simp only: valuesEncode_def)
  moreover have "sublist (QueryEscape v) (QueryEscape k @ ''='' @ QueryEscape v)"
    using sublist_appendI [of "QueryEscape v" "QueryEscape k @ ''=''" "[]"] by simp
  ultimately show ?thesis by (rule sublist_order.order.trans [rotated])
qed

lemma valuesEncode_plain: "list_all urlPlain (valuesEncode vs)"
proof -
  have join: "list_all urlPlain (joinAmp xs)" if "\<And>x. x \<in> set xs \<Longrightarrow> list_all urlPlain x" for xs
  proof (cases xs)
    case (Cons y ys)
    moreover have "urlPlain (CHR ''&'')" by (simp add: urlPlain_def)
    ultimately show ?thesis using that by (auto simp: joinAmp_def list_all_iff)
  qed (simp add: joinAmp_def)
  have "list_all urlPlain (QueryEscape k @ ''='' @ QueryEscape v)" for k v
    using QueryEscape_plain by (simp add: urlPlain_def)
  then show ?thesis unfolding valuesEncode_def by (intro join) auto
qed

text \<open>With a key in the query, the request's query contains the key, and is plain.\<close>

lemma query_key:
  assumes "buildUpstream p key rq path = Some q" and "AuthHeader p = []" and "AuthQueryParam p \<noteq> []"
  shows "sublist (QueryEscape key) (uRawQuery (qUrl q)) \<and> list_all urlPlain (uRawQuery (qUrl q))"
proof -
  obtain u where u: "uRawQuery (qUrl q) = valuesEncode (valuesSet (AuthQueryParam p) key (parseQuery u))"
    using assms by (auto simp: buildUpstream_def Let_def authenticate_def setHeader_def)
  have "(AuthQueryParam p, [key]) \<in> set (valuesSet (AuthQueryParam p) key (parseQuery u))"
    using valuesSet_get [of "AuthQueryParam p" key "parseQuery u"] by (simp add: map_of_SomeD)
  then have "sublist (QueryEscape key) (uRawQuery (qUrl q))" unfolding u by (rule valuesEncode_member) simp
  then show ?thesis by (simp add: u valuesEncode_plain)
qed

text \<open>The entry for the last of the failed attempts.\<close>

definition gaveUp :: "Profile \<Rightarrow> int \<Rightarrow> string \<Rightarrow> entry" where
  "gaveUp p idx err = \<lparr>eLevel = ''warn'', eMsg = ''upstream request error, giving up on key'',
     eArgs = [LText ''profile'', LText (Name p), LText ''key'', LInt idx, LText ''err'', LText err]\<rparr>"

lemma tryLoop_neverReached:
  assumes "neverReached env" and "\<forall>k. \<not> canceled_at env k" and "buildUpstream p key rq path = Some q"
  shows "left < length backoffSchedule + 1 \<Longrightarrow> run_state (tryLoop env cfg p idx key rq path (Suc left) err) w = (t, w') \<Longrightarrow>
    \<exists>n e. net_of env n q = Failed e \<and> wlog w' = wlog w @ [gaveUp p idx e]"
proof (induction left arbitrary: err w)
  case 0
  obtain e where e: "net_of env (length (wcalls w)) q = Failed e" using assms(1) by (auto simp: neverReached_def)
  show ?case
    using 0 e by (intro exI [of _ "length (wcalls w)"] exI [of _ e])
      (auto simp: assms(3) clientDo_def settle_same attemptLog_def judge_def say_def warn_def gaveUp_def Let_def)
next
  case (Suc left)
  obtain e where e: "net_of env (length (wcalls w)) q = Failed e" using assms(1) by (auto simp: neverReached_def)
  let ?k = "length backoffSchedule - Suc left"
  have j: "judge cfg p ?k (Failed e) = Again (''net: '' @ e) (netFailed ''canceled'')"
    using Suc.prems(1) by (simp add: judge_def)
  have a: "attemptLog cfg p idx ?k (Failed e) = State_Monad.return ()"
    by (simp add: attemptLog_def j Let_def)
  have s: "\<exists>w2. run_state (sleepOrCancel env d) w1 = (False, w2) \<and> wlog w2 = wlog w1" for d w1
    using assms(2) by (auto simp: sleepOrCancel_def gone_def settle_same)
  let ?w1 = "(settle env w)\<lparr>wcalls := wcalls w @ [q], wsent := wsent w @ [q]\<rparr>"
  obtain w2 where w2: "run_state (sleepOrCancel env (backoffSchedule ! ?k)) ?w1 = (False, w2)" "wlog w2 = wlog ?w1"
    using s by blast
  have "run_state (tryLoop env cfg p idx key rq path (Suc left) (''net: '' @ e)) w2 = (t, w')"
    using Suc.prems(2) e a j w2(1) by (simp add: assms(3) clientDo_def Let_def)
  from Suc.IH [OF _ this] Suc.prems(1) w2(2) show ?case by (simp add: settle_same)
qed
text \<open>
  A provider that takes its key in the query has the whole key written to the log when it cannot be
  reached: the attempt that gives up logs the text of the network error, which quotes the request's URL.
  (The masking of keys elsewhere, and the other texts of the log, give at most four bytes away.)
\<close>

theorem key_in_log:
  assumes "AuthHeader p = []" and "AuthQueryParam p \<noteq> []" and "buildUpstream p key rq path = Some q"
    and "neverReached env" and "quotesQueries env" and "\<forall>k. \<not> canceled_at env k"
  shows "\<exists>err. wlog (snd (run_state (tryKey env cfg p idx key rq path) w)) = wlog w @ [gaveUp p idx err] \<and>
    (\<forall>timeText now. sublist (QueryEscape key) (logLine timeText now (gaveUp p idx err)))"
proof -
  obtain t w' where r: "run_state (tryKey env cfg p idx key rq path) w = (t, w')" by (metis surj_pair)
  then have "run_state (tryLoop env cfg p idx key rq path (Suc (length backoffSchedule)) ''no attempt'') w = (t, w')"
    by (simp add: tryKey_def del: tryLoop.simps)
  from tryLoop_neverReached [OF assms(4,6,3) _ this] obtain n e
    where e: "net_of env n q = Failed e" "wlog w' = wlog w @ [gaveUp p idx e]" by auto
  note k = query_key [OF assms(3,1,2)]
  then have "sublist (QueryEscape key) e"
    using assms(5) e(1) sublist_order.order.trans unfolding quotesQueries_def by blast
  moreover have "sublist e (logLine timeText now (gaveUp p idx e))" for timeText now
    using logLine_contains [of "gaveUp p idx e" "[LText ''profile'', LText (Name p), LText ''key'', LInt idx]" "LText ''err''"
        "LText e" "[]" timeText now] by (auto simp: gaveUp_def)
  ultimately show ?thesis
    using e(2) r by (intro exI [of _ e]) (auto intro: sublist_order.order.trans)
qed

section \<open>Closed instances\<close>

definition refusing :: network where
  "refusing n q = Failed (''Get '' @ [CHR 0x22] @ urlString (qUrl q) @ [CHR 0x22] @ '': connection refused'')"

lemma refusing_env: "neverReached (quietEnv refusing)" "quotesQueries (quietEnv refusing)"
proof -
  show "neverReached (quietEnv refusing)" by (simp add: neverReached_def quietEnv_def refusing_def)
  have *: "sublist (uRawQuery u) (urlString u)" for u
  proof (cases "uRawQuery u")
    case (Cons c r)
    have q: "sublist x (a @ b @ (c # x) @ d)" for x a b d :: string and c
      using sublist_appendI [of x "a @ b @ [c]" d] by simp
    have "uRawQuery u \<noteq> []" using Cons by simp
    then show ?thesis unfolding urlString_def Let_def by (simp only: simp_thms if_True q)
  qed simp
  have "sublist (uRawQuery u) (''Get '' @ [CHR 0x22] @ urlString u @ [CHR 0x22] @ '': connection refused'')" for u
    using sublist_order.order.trans [OF *, of u] sublist_appendI [of "urlString u" "''Get '' @ [CHR 0x22]" "[CHR 0x22] @ '': connection refused''"]
    by simp
  then show "quotesQueries (quietEnv refusing)"
    by (simp only: quotesQueries_def quietEnv_def refusing_def env.simps outcome.inject) blast
qed

theorem key_in_log_witness:
  "let p = fst (financeProfile ''fmp'' ''apikey'' demoConfig (FMP demoConfig));
       w' = snd (run_state (tryKey (quietEnv refusing) demoConfig p 0 ''fmp-1'' (demoRequest ''/fmp/v3'') ''/v3'') (demoWorlds ''fmp'')) in
   \<exists>err. wlog w' = [gaveUp p 0 err] \<and> (\<forall>now. sublist ''fmp-1'' (logLine itoa now (gaveUp p 0 err)))"
proof -
  let ?p = "fst (financeProfile ''fmp'' ''apikey'' demoConfig (FMP demoConfig))"
  have "buildUpstream ?p ''fmp-1'' (demoRequest ''/fmp/v3'') ''/v3'' \<noteq> None" by code_simp
  then obtain q where q: "buildUpstream ?p ''fmp-1'' (demoRequest ''/fmp/v3'') ''/v3'' = Some q" by blast
  have p: "AuthHeader ?p = []" "AuthQueryParam ?p \<noteq> []" by (simp_all add: financeProfile_def zeroProfile_def)
  have c: "\<forall>k. \<not> canceled_at (quietEnv refusing) k" by (simp add: quietEnv_def)
  have k: "QueryEscape ''fmp-1'' = ''fmp-1''" "wlog (demoWorlds ''fmp'') = []" by code_simp+
  show ?thesis
    using key_in_log [OF p q refusing_env c, of demoConfig 0 "demoWorlds ''fmp''"] unfolding k Let_def by auto
qed

lemma refused_returns:
  "\<exists>fuel a ws'. ServeHTTP fuel (quietEnv refusing) demoConfig demoProfiles (demoRequest ''/v2/scrape'') demoWorlds = (Some a, ws')"
  using ServeHTTP_returns [of "quietEnv refusing" demoConfig demoProfiles "demoRequest ''/v2/scrape''" demoWorlds] quietEnv_clock
  by blast

theorem one_access_line_witness:
  "\<exists>fuel a ws' es acc ms. ServeHTTP fuel (quietEnv refusing) demoConfig demoProfiles (demoRequest ''/v2/scrape'') demoWorlds = (Some a, ws') \<and>
    wlog (ws' (routeName demoConfig demoProfiles (demoRequest ''/v2/scrape''))) = es @
      [accessEntry (routeName demoConfig demoProfiles (demoRequest ''/v2/scrape''))
        (matchProfile demoProfiles ''/v2/scrape'' (FirecrawlLegacyFallback demoConfig) \<noteq> None) (demoRequest ''/v2/scrape'') acc ms]"
proof -
  let ?rq = "demoRequest ''/v2/scrape''"
  obtain fuel a ws' where r: "ServeHTTP fuel (quietEnv refusing) demoConfig demoProfiles ?rq demoWorlds = (Some a, ws')"
    using refused_returns by blast
  have nolog: "wlog (demoWorlds n) = []" for n
    by (auto simp: demoWorlds_def startWorlds_def startWorldOf_def noWorld_def split: option.split dest!: map_of_SomeD)
  have path: "iPath ?rq = ''/v2/scrape''" by (simp add: demoRequest_def)
  show ?thesis using one_access_line [OF r, unfolded nolog path append_Nil] r by blast
qed

theorem log_texts_public_witness:
  "\<exists>fuel a ws' p es. ServeHTTP fuel (quietEnv refusing) demoConfig demoProfiles (demoRequest ''/v2/scrape'') demoWorlds = (Some a, ws') \<and>
    wlog (ws' (Name p)) = wlog (demoWorlds (Name p)) @ es \<and> (\<forall>e\<in>set es. \<forall>v\<in>set (eArgs e). case v of
      LText s \<Rightarrow> publicText p s \<or> netText (quietEnv refusing) s \<or> s = ''POST'' \<or> s = ''/v2/scrape''
    | LKeys ks \<Rightarrow> list_all (\<lambda>k. length (sLast4 k) \<le> 4) ks | _ \<Rightarrow> True)"
proof -
  let ?rq = "demoRequest ''/v2/scrape''"
  obtain fuel a ws' where r: "ServeHTTP fuel (quietEnv refusing) demoConfig demoProfiles ?rq demoWorlds = (Some a, ws')"
    using refused_returns by blast
  have "matchProfile demoProfiles (iPath ?rq) (FirecrawlLegacyFallback demoConfig) \<noteq> None" by code_simp
  then obtain p path where m: "matchProfile demoProfiles (iPath ?rq) (FirecrawlLegacyFallback demoConfig) = Some (p, path)" by auto
  have rq: "iMethod ?rq = ''POST''" "iPath ?rq = ''/v2/scrape''" by (simp_all add: demoRequest_def)
  from log_texts_public [OF r m] r show ?thesis unfolding rq by blast
qed

end
