(* ===== verification/Spec2Isabelle.thy ===== *)
theory Spec2Isabelle
  imports Slot_Protocol Usage_Properties Rewrite_Properties Proxy_Queue Config_Start System Proxy_Clients Proxy_Log
begin

text \<open>
  A verification library for api-key-rotator (package main, in src/): a reverse proxy that spreads
  the requests of its clients over pools of API keys, one pool per provider (firecrawl, tavily, exa,
  apify, fmp, alphavantage, marketaux).

  \<^bold>\<open>The program.\<close> config.go turns environment variables into a \<open>Config\<close>. profile.go builds one
  \<open>Profile\<close> with a \<open>KeyPool\<close> (keys.go) per provider that has keys, classifies its replies and resolves
  a path to it. main.go puts them behind a mux with the two status handlers of server.go and the
  transport of transport.go. The handler of proxy.go serves a request: it picks a key
  (\<open>Current\<close>), takes an in-flight slot (\<open>TryAcquire\<close>), sends the request with that key, retries
  transient failures on it, rotates to another key when the reply says the key is spent
  (rotate.go, profile.go), charges the key for a success and rewrites pagination links
  (rewrite.go). creditusage.go reads balances from the providers, refresh.go decides when, and three
  background loops of main.go warm the pools up, refresh them daily and re-enable keys.

  \<^bold>\<open>How the model is built.\<close> A struct is a record, an enumeration a datatype, a method a function on the
  state it locks. \<open>int\<close> and \<open>int64\<close> are HOL integers with \<open>wrap64\<close> where the source can overflow;
  instants and durations are nanoseconds; \<open>float64\<close> is computed exactly and rounded as binary64; a
  string or []byte is a list of bytes. A fallible function returns an option or a sum. What the
  program does not choose (clock, network, other goroutines, a client that goes away) is an argument.

  \<^item> \<^bold>\<open>Standard library.\<close> Prelude holds the shared lemmas, the collections and two locales of state
    folded over a list of operations. Go_Strings (strings, strconv), Go_Time (calendar, AddDate),
    Go_Http (headers), Go_Json (the lexer, the parser, decoding into structs), Go_Float (float64),
    Go_ParseFloat (ParseFloat of any text), Go_Url (url.Parse, String, Query, Encode), Go_Client
    (requests, outcomes, reading RFC 3339), Go_Format (writing instants and floats) and Json_Print
    (encoding/json's text, with the proof that it parses back) model what the source uses of it.
  \<^item> \<^bold>\<open>Key pool (keys.go).\<close> Key_Pool has every method of \<open>KeyPool\<close> under its own name.
    Pool_Interfaces states the contracts as locales (\<open>slot_counter\<close>, \<open>credit_account\<close>), Pool_Laws
    proves the invariant \<open>pool_wf\<close> for every operation and interprets the locales on the model,
    Pool_Selection reduces \<open>currentLocked\<close> to a maximum over a linear order of candidates, and
    Pool_Properties has the pool's properties. Slot_Protocol is the concurrent protocol of
    TryAcquire, Release and WaitForSlot as an inductive step relation over any number of requests.
  \<^item> \<^bold>\<open>Configuration (config.go).\<close> Config has every loader as a function of \<open>os.Getenv\<close> to a
    configuration or the first error. Config_Properties proves \<open>config_ok\<close> of whatever is accepted;
    Config_Start has the defaults, every integer variable read back, and the server an accepted environment builds.
  \<^item> \<^bold>\<open>Profiles (profile.go, rotate.go).\<close> Rotate has the regular expressions as case-folded
    literals, Profile the construction of the profiles, their rotation policy and the routing;
    Profile_Properties relates routing to a declarative reading and exhaustion to rotation.
  \<^item> \<^bold>\<open>Credit usage (creditusage.go, refresh.go, loops of main.go).\<close> Credit_Usage has the three
    endpoints, each fetch adding its requests to the trace, exa's prices and the disabling of a key until its reset; the locale \<open>usage_endpoint\<close>
    of Usage_Properties proves the retry loop once and is interpreted on each endpoint. Refresh has the
    refresher and the background loops; the locale \<open>throttle\<close> of Refresh_Properties gives both of
    its throttles.
  \<^item> \<^bold>\<open>Rewriting (rewrite.go).\<close> Rewrite has the decoding into any, the walk, and the printing of
    values and numbers; Rewrite_Properties characterises which strings change and into what.
    Url_Properties has the round trip of a query through Encode and Parse and what a URL of a configured upstream
    parses to, whatever path and query follow.
  \<^item> \<^bold>\<open>Handler (proxy.go).\<close> Proxy has the handler in the state monad: a \<open>world\<close> is one profile's pool and
    refresher with the trace \<open>wcalls\<close> of every request the program gives to \<open>client.Do\<close> for it (by the handler
    or by a usage fetch), the part \<open>wsent\<close> of it that \<open>tryKey\<close> sends for clients, and the log; an \<open>env\<close> says,
    step by step, what everything else does. \<open>serveOnce\<close>, \<open>tryKey\<close> and \<open>ServeHTTP\<close> keep the source's names, the branches of its long
    functions are definitions of their own. Proxy_Laws states once, in the locale \<open>handler_relation\<close> (over
    \<open>world_relation\<close>), what a reflexive, transitive relation has to keep to be kept by the handler's steps;
    \<open>calling_relation\<close> adds that it says nothing of \<open>wcalls\<close>, \<open>talking_relation\<close> and \<open>logging_relation\<close> that it says
    nothing, or only so much, of the log, and \<open>saying_relation\<close> is both. They are interpreted for the pools, the slots, the
    clock, silence (Proxy_Laws), the calls and their number (Proxy_Calls), the slots of a client (Proxy_Clients) and the
    log (Proxy_Log). Proxy_Properties, Proxy_Returns, Proxy_Success, Proxy_Queue and Proxy_Log draw the properties;
    Proxy_Demo is the concrete server their closed instances run on. Proxy_Clients shows that a run of
    the handler is a disciplined client of the pool's slots (the locale \<open>slot_clients\<close>) and what any
    number of such clients, interleaved, share.
  \<^item> \<^bold>\<open>Server and process (main.go, server.go, transport.go).\<close> Logger has the logger and its lines, Server
    \<open>buildServer\<close>, the status handlers, the mux and \<open>main\<close> with its health check. Server_Properties
    shows which prefixes a request can reach, Server_Status what /status and /healthz tell.
  \<^item> \<^bold>\<open>The whole.\<close> System has the step relation of a started server (requests, the turns of the three
    loops, the goroutines they start) and, from the locale \<open>system_relation\<close>, what holds in every
    state reachable from an accepted environment.

  \<^bold>\<open>What the theorems show.\<close> The pool selects the best usable key, accounts exactly, never exceeds
  the cap on requests in flight, and never serves a disabled key. The handler returns, does not
  panic, keeps every pool's invariant under arbitrary interference, gives back every slot, uses a key
  only in requests to its own provider, makes a bounded number of calls, and on a success charges the
  key and hands the reply on; it writes one access line per request and no key in a text of its own. An accepted configuration is in range and always starts. Usage fetches and
  retries are bounded, throttled and exact. Routing, stripping and rewriting do what they say. The
  text of /status reads back to the snapshot and shows nothing of a key but its last four bytes; the health check
  exits 0 exactly when some key can be selected. In every reachable state of the program the pools are
  as configured, every request ever given to \<open>client.Do\<close> is for its own provider with one of its keys, and every request is
  answered unless its client has gone.
  Some theorems state behaviour the code's comments do not promise: a lost wakeup with two queued
  requests, a queue that spins on a slot of a disabled key, a low threshold without effect, a budget
  forgotten when a key is re-enabled, a paid reply discarded for a 503, a catch-all that cannot be
  configured, a key in the log with the text of a network error.

  \<^bold>\<open>Fuel and termination.\<close> Only the rotation loop carries fuel, because a pass that finds every slot
  taken consumes no rotation; \<open>ServeHTTP_returns\<close> shows that when the clock passes every instant, all
  large enough amounts of fuel give the same reply. The warm-up loop is a partial function whose
  termination is a theorem. Printing a double takes at most 17 digits and a decimal point within 400
  places, which covers the range of binary64. Every other loop is structural or has a measure.

  \<^bold>\<open>Not modelled.\<close> The log entries of the usage fetches, the refresher and the loops (those of the handler, the
  logger and the start line are); the text of errors; the zone an instant carries, which is an argument
  where it is printed; sockets and the timeouts' effect on the network, which is an argument. A call of \<open>client.Do\<close> is one
  request: net/http follows redirects inside it (no \<open>CheckRedirect\<close> is set), and where these go and which headers
  they copy is net/http's and the upstream's. What net/http does to a reply after \<open>WriteHeader\<close> and \<open>Write\<close> (HEAD,
  1xx). Each method of the pool is atomic, which its mutex gives; between two calls of the handler the
  other goroutines may do anything they can; a warm-up pass and a refreshing goroutine are one step each. The
  conversion of an out-of-range or NaN float64 to int64, implementation-defined in Go, is amd64's.

  \<^bold>\<open>Plan.\<close> Next: fairness of the queue; the redirects of net/http; the warm-up interleaved with requests.
\<close>

end
